(* ===== verification/Prelude.thy ===== *)
theory Prelude
  imports Main "HOL-Library.Word"
begin

text \<open>
  Shared vocabulary of the InputShare development: the names of the machine integers, the
  signed 32-bit arithmetic of Rust's \<^verbatim>\<open>i32\<close> (saturating, wrapping, \<^verbatim>\<open>min\<close>, \<^verbatim>\<open>max\<close>,
  \<^verbatim>\<open>clamp\<close>) read through \<open>sint\<close>, and the collections of facts the component theories
  extend.

  Integers keep the width the source gives them. \<^verbatim>\<open>u64\<close>, \<^verbatim>\<open>u32\<close> and \<^verbatim>\<open>u16\<close> are words
  compared as unsigned numbers. An \<^verbatim>\<open>i32\<close> is a 32-bit word read with \<open>sint\<close>; \<open>+\<close> and
  \<open>-\<close> on it wrap, which is what the release build of the program does. A 16-byte UUID
  is a 128-bit word: \<^verbatim>\<open>Uuid\<close> orders its bytes lexicographically, most significant first,
  which is the unsigned order of the word.
\<close>

section \<open>Names of the machine integers\<close>

type_synonym u8 = "8 word"
type_synonym u16 = "16 word"
type_synonym u32 = "32 word"
type_synonym u64 = "64 word"
type_synonym i32 = "32 word"
type_synonym machine_id = "128 word"
type_synonym workspace_id = "128 word"

section \<open>Collections\<close>

named_theorems i32_simps "readings of the signed operations through sint"
named_theorems wf_intros "preservation of well-formedness by the operations"
named_theorems handler_defs "definitions of the state-changing handlers"

section \<open>Signed 32-bit arithmetic\<close>

definition i32_sat :: "int \<Rightarrow> i32" where
  "i32_sat z = word_of_int (max (- (2 ^ 31)) (min (2 ^ 31 - 1) z))"

definition i32_saturating_add :: "i32 \<Rightarrow> i32 \<Rightarrow> i32" where
  "i32_saturating_add a b = i32_sat (sint a + sint b)"

definition i32_saturating_sub :: "i32 \<Rightarrow> i32 \<Rightarrow> i32" where
  "i32_saturating_sub a b = i32_sat (sint a - sint b)"

definition i32_max :: "i32 \<Rightarrow> i32 \<Rightarrow> i32" where
  "i32_max a b = (if sint a \<le> sint b then b else a)"

definition i32_min :: "i32 \<Rightarrow> i32 \<Rightarrow> i32" where
  "i32_min a b = (if sint a \<le> sint b then a else b)"

text \<open>\<^verbatim>\<open>i32::abs\<close>; at the minimum it wraps to itself.\<close>

definition i32_abs :: "i32 \<Rightarrow> i32" where
  "i32_abs a = (if sint a < 0 then - a else a)"

text \<open>\<^verbatim>\<open>i32::clamp\<close> panics when the bounds are crossed: that is the value None.\<close>

definition i32_clamp :: "i32 \<Rightarrow> i32 \<Rightarrow> i32 \<Rightarrow> i32 option" where
  "i32_clamp v lo hi =
     (if sint lo \<le> sint hi
      then Some (if sint v < sint lo then lo else if sint hi < sint v then hi else v)
      else None)"

lemma sint_i32_lower: "- 2147483648 \<le> sint (a :: i32)"
  using sint_ge [of a] by simp

lemma sint_i32_upper: "sint (a :: i32) \<le> 2147483647"
  using sint_lt [of a] by simp

lemmas sint_i32_bounds = sint_i32_lower sint_i32_upper

lemma sint_word_of_int_i32:
  "- 2147483648 \<le> z \<Longrightarrow> z \<le> 2147483647 \<Longrightarrow> sint (word_of_int z :: i32) = z"
  by (simp add: int_word_sint)

lemma sint_i32_sat [i32_simps]:
  "sint (i32_sat z) = max (- 2147483648) (min 2147483647 z)"
  by (simp add: i32_sat_def sint_word_of_int_i32)

lemma sint_saturating_add [i32_simps]:
  "sint (i32_saturating_add a b) = max (- 2147483648) (min 2147483647 (sint a + sint b))"
  by (simp add: i32_saturating_add_def i32_simps)

lemma sint_saturating_sub [i32_simps]:
  "sint (i32_saturating_sub a b) = max (- 2147483648) (min 2147483647 (sint a - sint b))"
  by (simp add: i32_saturating_sub_def i32_simps)

lemma sint_i32_max [i32_simps]: "sint (i32_max a b) = max (sint a) (sint b)"
  by (simp add: i32_max_def)

lemma sint_i32_min [i32_simps]: "sint (i32_min a b) = min (sint a) (sint b)"
  by (simp add: i32_min_def)

lemma sint_add_exact:
  fixes a b :: i32
  assumes "- 2147483648 \<le> sint a + sint b" and "sint a + sint b \<le> 2147483647"
  shows "sint (a + b) = sint a + sint b"
  using assms sint_word_of_int_i32 [of "sint a + sint b"] by simp

lemma sint_sub_exact:
  fixes a b :: i32
  assumes "- 2147483648 \<le> sint a - sint b" and "sint a - sint b \<le> 2147483647"
  shows "sint (a - b) = sint a - sint b"
  using assms sint_word_of_int_i32 [of "sint a - sint b"] by simp

lemma i32_eqI: "sint (a :: i32) = sint b \<Longrightarrow> a = b"
  by (rule signed_word_eqI)

lemma i32_clamp_Some:
  "i32_clamp v lo hi = Some c \<Longrightarrow>
     sint lo \<le> sint c \<and> sint c \<le> sint hi \<and> (c = lo \<or> c = hi \<or> c = v)"
  by (auto simp: i32_clamp_def split: if_splits)

lemma i32_clamp_total: "sint lo \<le> sint hi \<Longrightarrow> \<exists>c. i32_clamp v lo hi = Some c"
  by (simp add: i32_clamp_def)

lemma i32_clamp_inside:
  "sint lo \<le> sint v \<Longrightarrow> sint v \<le> sint hi \<Longrightarrow> i32_clamp v lo hi = Some v"
  by (auto simp: i32_clamp_def)

section \<open>Network addresses\<close>

text \<open>\<^verbatim>\<open>std::net\<close>: an IPv4 address is its four bytes as one number, an IPv6 address its sixteen.\<close>

datatype ip_addr = V4 u32 | V6 "128 word"

record socket_addr =
  sa_ip :: ip_addr
  sa_port :: u16

section \<open>Numbers in texts\<close>

text \<open>What \<^verbatim>\<open>Display\<close> prints for an unsigned and for a signed number.\<close>

fun decimal :: "nat \<Rightarrow> string" where
  "decimal n = (if n < 10 then [char_of (48 + n)] else decimal (n div 10) @ [char_of (48 + n mod 10)])"

definition signed_decimal :: "int \<Rightarrow> string" where
  "signed_decimal z = (if z < 0 then CHR ''-'' # decimal (nat (- z)) else decimal (nat z))"

text \<open>And reading digits, which fails at anything else.\<close>

fun digits_value :: "string \<Rightarrow> nat \<Rightarrow> nat option" where
  "digits_value [] n = Some n"
| "digits_value (c # cs) n =
     (if (48 :: nat) \<le> of_char c \<and> of_char c \<le> (57 :: nat) then digits_value cs (10 * n + (of_char c - 48)) else None)"

lemma digits_value_append:
  "digits_value (xs @ ys) n = Option.bind (digits_value xs n) (digits_value ys)"
  by (induction xs n rule: digits_value.induct) auto

lemma digits_value_decimal: "digits_value (decimal n) 0 = Some n"
proof (induction n rule: decimal.induct)
  case (1 n)
  show ?case
  proof (cases "n < 10")
    case True
    then show ?thesis by (subst decimal.simps) simp
  next
    case False
    then show ?thesis
      using 1 by (subst decimal.simps) (simp add: digits_value_append del: decimal.simps)
  qed
qed

lemma decimal_nonempty: "decimal n \<noteq> []"
  by (subst decimal.simps) simp

lemma decimal_inject: "decimal m = decimal n \<longleftrightarrow> m = n"
  by (metis digits_value_decimal option.inject)

section \<open>Bytes\<close>

unbundle bit_operations_syntax

text \<open>The \<open>k\<close> low bytes of a word, most significant first, as \<^verbatim>\<open>to_be_bytes\<close> gives them.\<close>

definition be_bytes :: "nat \<Rightarrow> 'a::len word \<Rightarrow> u8 list" where
  "be_bytes k n = map (\<lambda>i. ucast (drop_bit (8 * i) n)) (rev [0..<k])"

lemma length_be_bytes [simp]: "length (be_bytes k n) = k"
  by (simp add: be_bytes_def)

lemma be_bytes_inject:
  fixes m n :: "'a::len word"
  assumes "be_bytes k m = be_bytes k n" and "LENGTH('a) \<le> 8 * k"
  shows "m = n"
proof (rule bit_word_eqI)
  fix i
  assume i: "i < LENGTH('a)"
  then have "i div 8 \<in> set (rev [0..<k])" using assms(2) by simp
  with assms(1) have "(ucast (drop_bit (8 * (i div 8)) m) :: u8) = ucast (drop_bit (8 * (i div 8)) n)"
    by (simp add: be_bytes_def)
  then have "bit (ucast (drop_bit (8 * (i div 8)) m) :: u8) (i mod 8) =
      bit (ucast (drop_bit (8 * (i div 8)) n) :: u8) (i mod 8)" by simp
  then show "bit m i = bit n i" using i by (simp add: bit_simps)
qed

text \<open>One byte of a 32-bit word, moved to its place and back.\<close>

lemma bit_byte_in_place:
  "bit (push_bit k (ucast (ucast (drop_bit k n) :: u8)) :: u32) i \<longleftrightarrow> k \<le> i \<and> i < k + 8 \<and> bit n i"
  for n :: u32
  by (auto simp: bit_simps dest: bit_imp_le_length)

definition from_be_bytes :: "u8 list \<Rightarrow> u32" where
  "from_be_bytes bs =
     push_bit 24 (ucast (bs ! 0)) OR push_bit 16 (ucast (bs ! 1)) OR
     push_bit 8 (ucast (bs ! 2)) OR push_bit 0 (ucast (bs ! 3))"

lemma from_be_bytes_round_trip: "from_be_bytes (be_bytes 4 n) = n"
proof -
  have "be_bytes 4 n = [ucast (drop_bit 24 n), ucast (drop_bit 16 n), ucast (drop_bit 8 n),
      ucast (drop_bit 0 n)]"
    by (simp add: be_bytes_def upt_rec)
  then have bytes: "be_bytes 4 n ! 0 = ucast (drop_bit 24 n)" "be_bytes 4 n ! 1 = ucast (drop_bit 16 n)"
    "be_bytes 4 n ! 2 = ucast (drop_bit 8 n)" "be_bytes 4 n ! 3 = ucast (drop_bit 0 n)"
    by simp_all
  show ?thesis
    unfolding from_be_bytes_def bytes
    by (rule bit_eqI) (simp only: bit_or_iff bit_byte_in_place, auto dest: bit_imp_le_length)
qed

section \<open>Orderings\<close>

text \<open>\<^verbatim>\<open>std::cmp::Ordering\<close> and \<^verbatim>\<open>Ord::cmp\<close> of a linear order.\<close>

datatype ordering = Less | Equal | Greater

definition cmp :: "'a::linorder \<Rightarrow> 'a \<Rightarrow> ordering" where
  "cmp a b = (if a < b then Less else if a = b then Equal else Greater)"

lemma cmp_cases:
  "(cmp a b = Less) = (a < b)" "(cmp a b = Equal) = (a = b)" "(cmp a b = Greater) = (b < a)"
  by (auto simp: cmp_def)

section \<open>Options\<close>

text \<open>Combining two optional values: a missing side leaves the other one.\<close>

fun join_opt :: "('a \<Rightarrow> 'a \<Rightarrow> 'a) \<Rightarrow> 'a option \<Rightarrow> 'a option \<Rightarrow> 'a option" where
  "join_opt f None y = y"
| "join_opt f (Some a) None = Some a"
| "join_opt f (Some a) (Some b) = Some (f a b)"

lemma join_opt_None2 [simp]: "join_opt f x None = x"
  by (cases x) simp_all

lemma join_opt_assoc:
  assumes "\<And>a b c. x = Some a \<Longrightarrow> y = Some b \<Longrightarrow> z = Some c \<Longrightarrow> f (f a b) c = f a (f b c)"
  shows "join_opt f (join_opt f x y) z = join_opt f x (join_opt f y z)"
  using assms by (cases x; cases y; cases z) simp_all

lemma join_opt_commute:
  assumes "\<And>a b. x = Some a \<Longrightarrow> y = Some b \<Longrightarrow> f a b = f b a"
  shows "join_opt f x y = join_opt f y x"
proof (cases x; cases y)
  fix a b
  assume "x = Some a" and "y = Some b"
  with assms [of a b] show ?thesis by simp
qed simp_all

lemma set_map_filter: "set (List.map_filter f xs) = {y. \<exists>x \<in> set xs. f x = Some y}"
  by (force simp: List.map_filter_def)

section \<open>Joins: what makes replicas converge\<close>

text \<open>
  A carrier of states with a join that is associative, commutative and idempotent on it.
  Merging the same states in any order, any number of times, then gives one result. The
  documents of the workspace are an instance; everything the program promises about
  convergence follows from the lemmas of this locale.
\<close>

locale semilattice_on =
  fixes carrier :: "'s \<Rightarrow> bool"
    and join :: "'s \<Rightarrow> 's \<Rightarrow> 's"
  assumes join_closed: "carrier a \<Longrightarrow> carrier b \<Longrightarrow> carrier (join a b)"
    and join_commute: "carrier a \<Longrightarrow> carrier b \<Longrightarrow> join a b = join b a"
    and join_assoc:
      "carrier a \<Longrightarrow> carrier b \<Longrightarrow> carrier c \<Longrightarrow> join (join a b) c = join a (join b c)"
    and join_idem: "carrier a \<Longrightarrow> join a a = a"
begin

lemma absorb: "carrier a \<Longrightarrow> carrier b \<Longrightarrow> join (join a b) b = join a b"
  by (simp add: join_assoc join_idem)

lemma absorb_left: "carrier a \<Longrightarrow> carrier b \<Longrightarrow> join a (join a b) = join a b"
  by (simp add: join_assoc [symmetric] join_idem)

lemma below_antisym:
  "carrier a \<Longrightarrow> carrier b \<Longrightarrow> join a b = b \<Longrightarrow> join b a = a \<Longrightarrow> a = b"
  by (metis join_commute)

lemma foldl_closed: "carrier a \<Longrightarrow> \<forall>x \<in> set xs. carrier x \<Longrightarrow> carrier (foldl join a xs)"
  by (induction xs arbitrary: a) (simp_all add: join_closed)

lemma foldl_join_out:
  "carrier a \<Longrightarrow> carrier b \<Longrightarrow> \<forall>x \<in> set xs. carrier x \<Longrightarrow>
     foldl join (join a b) xs = join a (foldl join b xs)"
proof (induction xs arbitrary: b)
  case (Cons x xs)
  then show ?case by (simp add: join_assoc join_closed)
qed simp

lemma foldl_above:
  assumes "carrier a" and "\<forall>x \<in> set xs. carrier x" and "y \<in> set xs"
  shows "join y (foldl join a xs) = foldl join a xs"
  using assms
proof (induction xs arbitrary: a)
  case (Cons x xs)
  show ?case
  proof (cases "y = x")
    case True
    have "foldl join (join a x) xs = join x (foldl join a xs)"
      using Cons.prems True by (simp add: join_commute [of a x] foldl_join_out)
    then show ?thesis
      using Cons.prems True by (simp add: absorb_left foldl_closed)
  next
    case False
    with Cons show ?thesis by (simp add: join_closed)
  qed
qed simp

lemma foldl_start_above:
  "carrier a \<Longrightarrow> \<forall>x \<in> set xs. carrier x \<Longrightarrow> join a (foldl join a xs) = foldl join a xs"
  using foldl_join_out [of a a xs] by (simp add: join_idem)

lemma foldl_least:
  assumes "carrier a" and "carrier u" and "\<forall>x \<in> set xs. carrier x"
    and "join a u = u" and "\<forall>x \<in> set xs. join x u = u"
  shows "join (foldl join a xs) u = u"
  using assms
proof (induction xs arbitrary: a)
  case (Cons x xs)
  have "join (join a x) u = u"
    using Cons.prems by (simp add: join_assoc)
  with Cons show ?case by (simp add: join_closed)
qed simp

text \<open>The order and the multiplicity of the merged states do not matter.\<close>

lemma foldl_set_eq:
  assumes "carrier a" and "\<forall>x \<in> set xs. carrier x" and "set xs = set ys"
  shows "foldl join a xs = foldl join a ys"
proof (rule below_antisym)
  have ys: "\<forall>y \<in> set ys. carrier y" using assms(2,3) by simp
  show cx: "carrier (foldl join a xs)" and cy: "carrier (foldl join a ys)"
    using assms ys by (simp_all add: foldl_closed)
  show "join (foldl join a xs) (foldl join a ys) = foldl join a ys"
    using assms ys cy by (intro foldl_least) (auto simp: foldl_above foldl_start_above)
  show "join (foldl join a ys) (foldl join a xs) = foldl join a xs"
    using assms ys cx by (intro foldl_least) (auto simp: foldl_above foldl_start_above)
qed

lemma foldl_start_irrelevant:
  assumes "\<forall>x \<in> set xs. carrier x" and "a \<in> set xs" and "b \<in> set xs"
  shows "foldl join a xs = foldl join b xs"
proof (rule below_antisym)
  have ab: "carrier a" "carrier b" using assms by auto
  show cx: "carrier (foldl join a xs)" and cy: "carrier (foldl join b xs)"
    using assms(1) ab by (simp_all add: foldl_closed)
  show "join (foldl join a xs) (foldl join b xs) = foldl join b xs"
    using assms ab cy by (intro foldl_least) (auto simp: foldl_above)
  show "join (foldl join b xs) (foldl join a xs) = foldl join a xs"
    using assms ab cx by (intro foldl_least) (auto simp: foldl_above)
qed

end

text \<open>
  The same for single updates: steps that commute and can be repeated give a state that
  depends on the set of updates delivered, not on their order or their number.
\<close>

locale commuting_steps =
  fixes good :: "'s \<Rightarrow> bool"
    and known :: "'u \<Rightarrow> bool"
    and step :: "'u \<Rightarrow> 's \<Rightarrow> 's"
  assumes step_good: "good s \<Longrightarrow> known u \<Longrightarrow> good (step u s)"
    and step_commute:
      "good s \<Longrightarrow> known u \<Longrightarrow> known v \<Longrightarrow> step u (step v s) = step v (step u s)"
    and step_repeat: "good s \<Longrightarrow> known u \<Longrightarrow> step u (step u s) = step u s"
begin

lemma fold_good: "good s \<Longrightarrow> \<forall>u \<in> set us. known u \<Longrightarrow> good (fold step us s)"
  by (induction us arbitrary: s) (simp_all add: step_good)

lemma fold_step_out:
  "good s \<Longrightarrow> known v \<Longrightarrow> \<forall>u \<in> set us. known u \<Longrightarrow>
     fold step us (step v s) = step v (fold step us s)"
proof (induction us arbitrary: s)
  case (Cons u us)
  then have "fold step us (step u (step v s)) = fold step us (step v (step u s))"
    by (simp add: step_commute)
  with Cons show ?case by (simp add: step_good)
qed simp

lemma fold_absorb:
  "good s \<Longrightarrow> \<forall>u \<in> set us. known u \<Longrightarrow> v \<in> set us \<Longrightarrow> fold step us (step v s) = fold step us s"
proof (induction us arbitrary: s)
  case (Cons u us)
  show ?case
  proof (cases "v = u")
    case True
    with Cons.prems show ?thesis by (simp add: step_repeat)
  next
    case False
    have "step u (step v s) = step v (step u s)"
      using Cons.prems by (intro step_commute) auto
    with Cons False show ?thesis by (simp add: step_good)
  qed
qed simp

lemma fold_removeAll:
  "good s \<Longrightarrow> known v \<Longrightarrow> \<forall>u \<in> set us. known u \<Longrightarrow>
     fold step us (step v s) = fold step (removeAll v us) (step v s)"
proof (induction us arbitrary: s)
  case (Cons u us)
  show ?case
  proof (cases "v = u")
    case True
    with Cons show ?thesis by (simp add: step_repeat)
  next
    case False
    have "fold step us (step v (step u s)) = fold step (removeAll v us) (step v (step u s))"
      using Cons by (simp add: step_good)
    with Cons.prems False show ?thesis by (simp add: step_commute)
  qed
qed simp

lemma fold_set_eq:
  "good s \<Longrightarrow> \<forall>u \<in> set us. known u \<Longrightarrow> set us = set vs \<Longrightarrow> fold step us s = fold step vs s"
proof (induction us arbitrary: s vs)
  case (Cons u us)
  note prems = Cons.prems
  have vs: "\<forall>v \<in> set vs. known v" and u: "u \<in> set vs" "known u"
    and us: "\<forall>v \<in> set us. known v" and good: "good (step u s)"
    using prems by (auto simp: step_good)
  have "fold step vs s = fold step vs (step u s)"
    by (rule fold_absorb [OF prems(1) vs u(1), symmetric])
  also have "\<dots> = fold step us (step u s)"
  proof (cases "u \<in> set us")
    case True
    with prems(3) have "set us = set vs" by auto
    then show ?thesis by (rule Cons.IH [OF good us, symmetric])
  next
    case False
    with prems(3) have "set us = set (removeAll u vs)" by auto
    then have "fold step us (step u s) = fold step (removeAll u vs) (step u s)"
      by (rule Cons.IH [OF good us])
    then show ?thesis using fold_removeAll [OF prems(1) u(2) vs] by simp
  qed
  finally show ?case by simp
qed simp

end

end
