(* ===== verification/Geometry.thy ===== *)
theory Geometry
  imports Prelude
begin

text \<open>
  Points, rectangles and displays in workspace coordinates
  (\<^verbatim>\<open>crates/is-core/src/model.rs\<close>, first part).

  Coordinates are \<^verbatim>\<open>i32\<close> and sizes \<^verbatim>\<open>u32\<close>. The cast \<^verbatim>\<open>width as i32\<close> keeps the 32 bits, so a
  width of \<open>2 ^ 31\<close> or more becomes negative: \<open>sane\<close> is the condition that it does not.
\<close>

section \<open>Points\<close>

record point =
  px :: i32
  py :: i32

definition point_new :: "i32 \<Rightarrow> i32 \<Rightarrow> point" where
  "point_new x y = \<lparr>px = x, py = y\<rparr>"

lemma point_new_simps [simp]: "px (point_new x y) = x" "py (point_new x y) = y"
  by (simp_all add: point_new_def)

lemma point_eqI: "px p = px q \<Longrightarrow> py p = py q \<Longrightarrow> (p :: point) = q"
  by simp

section \<open>Rectangles\<close>

record rect =
  rx :: i32
  ry :: i32
  rwidth :: u32
  rheight :: u32

definition rect_new :: "i32 \<Rightarrow> i32 \<Rightarrow> u32 \<Rightarrow> u32 \<Rightarrow> rect" where
  "rect_new x y w h = \<lparr>rx = x, ry = y, rwidth = w, rheight = h\<rparr>"

definition max_x :: "rect \<Rightarrow> i32" where
  "max_x r = i32_saturating_add (rx r) (rwidth r)"

definition max_y :: "rect \<Rightarrow> i32" where
  "max_y r = i32_saturating_add (ry r) (rheight r)"

definition contains :: "rect \<Rightarrow> point \<Rightarrow> bool" where
  "contains r p \<longleftrightarrow>
     sint (rx r) \<le> sint (px p) \<and> sint (px p) < sint (max_x r) \<and>
     sint (ry r) \<le> sint (py p) \<and> sint (py p) < sint (max_y r)"

text \<open>
  \<^verbatim>\<open>Rect::clamp\<close> calls \<^verbatim>\<open>i32::clamp\<close>, which panics on crossed bounds; \<open>clamp_checked\<close> keeps
  that as None. Lemma \<open>clamp_checked_total\<close> shows the panic is never reached, so the rest
  of the model uses \<open>clamp\<close>.
\<close>

definition clamp_hi_x :: "rect \<Rightarrow> i32" where
  "clamp_hi_x r = i32_max (i32_saturating_sub (max_x r) 1) (rx r)"

definition clamp_hi_y :: "rect \<Rightarrow> i32" where
  "clamp_hi_y r = i32_max (i32_saturating_sub (max_y r) 1) (ry r)"

definition clamp_checked :: "rect \<Rightarrow> point \<Rightarrow> point option" where
  "clamp_checked r p =
     Option.bind (i32_clamp (px p) (rx r) (clamp_hi_x r)) (\<lambda>x.
     Option.bind (i32_clamp (py p) (ry r) (clamp_hi_y r)) (\<lambda>y.
     Some \<lparr>px = x, py = y\<rparr>))"

definition clamp :: "rect \<Rightarrow> point \<Rightarrow> point" where
  "clamp r p = (case clamp_checked r p of Some q \<Rightarrow> q | None \<Rightarrow> p)"

definition translate :: "rect \<Rightarrow> point \<Rightarrow> rect" where
  "translate r by =
     r\<lparr>rx := i32_saturating_add (rx r) (px by), ry := i32_saturating_add (ry r) (py by)\<rparr>"

text \<open>
  \<^verbatim>\<open>Rect::union\<close>. The subtraction of the far and near edges wraps in the release build; the
  cast of the non-negative difference to \<^verbatim>\<open>u32\<close> keeps its bits.
\<close>

definition rect_union :: "rect \<Rightarrow> rect \<Rightarrow> rect" where
  "rect_union r s =
     (let x = i32_min (rx r) (rx s); y = i32_min (ry r) (ry s);
          mx = i32_max (max_x r) (max_x s); my = i32_max (max_y r) (max_y s)
      in \<lparr>rx = x, ry = y, rwidth = i32_max (mx - x) 0, rheight = i32_max (my - y) 0\<rparr>)"

section \<open>Displays\<close>

text \<open>
  \<^verbatim>\<open>scale\<close> is an \<^verbatim>\<open>f32\<close>, carried as its IEEE-754 bit pattern: the program stores it and
  compares it, and never computes with it in the parts modelled here.
\<close>

type_synonym f32 = "32 word"

record display_info =
  di_id :: string
  di_name :: string
  di_x :: i32
  di_y :: i32
  di_width :: u32
  di_height :: u32
  di_scale :: f32
  di_primary :: bool

definition display_rect :: "display_info \<Rightarrow> rect" where
  "display_rect d = rect_new (di_x d) (di_y d) (di_width d) (di_height d)"

section \<open>Edges of a rectangle\<close>

text \<open>
  A rectangle is sane when its size reads as non-negative and its far edges do not saturate,
  which every real desktop satisfies.
\<close>

definition sane :: "rect \<Rightarrow> bool" where
  "sane r \<longleftrightarrow> 0 \<le> sint (rwidth r) \<and> 0 \<le> sint (rheight r) \<and>
     sint (rx r) + sint (rwidth r) \<le> 2147483647 \<and> sint (ry r) + sint (rheight r) \<le> 2147483647"

lemma sint_max_x: "sane r \<Longrightarrow> sint (max_x r) = sint (rx r) + sint (rwidth r)"
  using sint_i32_lower [of "rx r"] by (simp add: max_x_def sane_def i32_simps)

lemma sint_max_y: "sane r \<Longrightarrow> sint (max_y r) = sint (ry r) + sint (rheight r)"
  using sint_i32_lower [of "ry r"] by (simp add: max_y_def sane_def i32_simps)

lemma sint_clamp_hi_x: "sint (clamp_hi_x r) = max (max (-2147483648) (sint (max_x r) - 1)) (sint (rx r))"
  using sint_i32_upper [of "max_x r"] by (simp add: clamp_hi_x_def i32_simps)

lemma sint_clamp_hi_y: "sint (clamp_hi_y r) = max (max (-2147483648) (sint (max_y r) - 1)) (sint (ry r))"
  using sint_i32_upper [of "max_y r"] by (simp add: clamp_hi_y_def i32_simps)

lemma clamp_hi_ge: "sint (rx r) \<le> sint (clamp_hi_x r)" "sint (ry r) \<le> sint (clamp_hi_y r)"
  by (simp_all add: sint_clamp_hi_x sint_clamp_hi_y)

lemma clamp_checked_total: "clamp_checked r p = Some (clamp r p)"
  using i32_clamp_total [OF clamp_hi_ge(1) [of r], of "px p"]
    i32_clamp_total [OF clamp_hi_ge(2) [of r], of "py p"]
  by (auto simp: clamp_def clamp_checked_def)

lemma clamp_coordinates:
  "i32_clamp (px p) (rx r) (clamp_hi_x r) = Some (px (clamp r p))"
  "i32_clamp (py p) (ry r) (clamp_hi_y r) = Some (py (clamp r p))"
  using clamp_checked_total [of r p]
  by (cases "clamp r p"; auto simp: clamp_checked_def bind_eq_Some_conv)+

lemmas clamp_x = clamp_coordinates(1) [THEN i32_clamp_Some]
lemmas clamp_y = clamp_coordinates(2) [THEN i32_clamp_Some]

definition nonempty :: "rect \<Rightarrow> bool" where
  "nonempty r \<longleftrightarrow> sint (rx r) < sint (max_x r) \<and> sint (ry r) < sint (max_y r)"

lemma contains_nonempty: "contains r p \<Longrightarrow> nonempty r"
  by (auto simp: contains_def nonempty_def)

lemma clamp_contains: "nonempty r \<Longrightarrow> contains r (clamp r p)"
  using clamp_x [of r p] clamp_y [of r p]
    sint_i32_lower [of "rx r"] sint_i32_lower [of "ry r"]
  by (auto simp: contains_def nonempty_def sint_clamp_hi_x sint_clamp_hi_y)

lemma clamp_x_eq:
  "sint (px (clamp r p)) =
     (if sint (px p) < sint (rx r) then sint (rx r)
      else if sint (clamp_hi_x r) < sint (px p) then sint (clamp_hi_x r) else sint (px p))"
  using clamp_coordinates(1) [of p r] by (simp add: i32_clamp_def split: if_splits)

lemma clamp_y_eq:
  "sint (py (clamp r p)) =
     (if sint (py p) < sint (ry r) then sint (ry r)
      else if sint (clamp_hi_y r) < sint (py p) then sint (clamp_hi_y r) else sint (py p))"
  using clamp_coordinates(2) [of p r] by (simp add: i32_clamp_def split: if_splits)

lemmas clamp_eqs = clamp_x_eq clamp_y_eq

lemma contains_clamp_hi:
  "contains r q \<Longrightarrow> sint (px q) \<le> sint (clamp_hi_x r) \<and> sint (py q) \<le> sint (clamp_hi_y r)"
  by (auto simp: contains_def sint_clamp_hi_x sint_clamp_hi_y)

lemma clamp_inside: "contains r p \<Longrightarrow> clamp r p = p"
  using contains_clamp_hi [of r p]
  by (intro point_eqI i32_eqI) (auto simp: clamp_eqs contains_def)

section \<open>Rectangles of a desk\<close>

text \<open>
  A desk is a workspace whose coordinates stay within \<open>2 ^ 30\<close> of the origin, far beyond
  any real arrangement of screens. Inside it no operation saturates or wraps, so the
  debug build (which panics on overflow) and the release build agree.
\<close>

definition in_desk :: "rect \<Rightarrow> bool" where
  "in_desk r \<longleftrightarrow> - 1073741824 \<le> sint (rx r) \<and> - 1073741824 \<le> sint (ry r) \<and>
     0 \<le> sint (rwidth r) \<and> 0 \<le> sint (rheight r) \<and>
     sint (rx r) + sint (rwidth r) \<le> 1073741823 \<and> sint (ry r) + sint (rheight r) \<le> 1073741823"

lemma in_desk_sane: "in_desk r \<Longrightarrow> sane r"
  by (simp add: in_desk_def sane_def)

lemmas desk_edges = sint_max_x [OF in_desk_sane] sint_max_y [OF in_desk_sane]

lemma in_desk_edges:
  "in_desk r \<longleftrightarrow> sane r \<and> - 1073741824 \<le> sint (rx r) \<and> - 1073741824 \<le> sint (ry r) \<and>
     sint (max_x r) \<le> 1073741823 \<and> sint (max_y r) \<le> 1073741823"
  by (auto simp: in_desk_sane sint_max_x sint_max_y) (auto simp: in_desk_def sane_def)

lemma desk_order: "in_desk r \<Longrightarrow> sint (rx r) \<le> sint (max_x r) \<and> sint (ry r) \<le> sint (max_y r)"
  by (simp add: desk_edges) (simp add: in_desk_def)

lemma union_simps:
  "sint (rx (rect_union r s)) = min (sint (rx r)) (sint (rx s))"
  "sint (ry (rect_union r s)) = min (sint (ry r)) (sint (ry s))"
  by (simp_all add: rect_union_def Let_def i32_simps)

lemma union_size:
  assumes "in_desk r" and "in_desk s"
  shows "sint (rwidth (rect_union r s)) =
           max (sint (max_x r)) (sint (max_x s)) - min (sint (rx r)) (sint (rx s))"
    and "sint (rheight (rect_union r s)) =
           max (sint (max_y r)) (sint (max_y s)) - min (sint (ry r)) (sint (ry s))"
  using assms desk_order [OF assms(1)] desk_order [OF assms(2)]
  by (auto simp: rect_union_def Let_def i32_simps in_desk_edges sint_sub_exact)

lemma union_in_desk: "in_desk r \<Longrightarrow> in_desk s \<Longrightarrow> in_desk (rect_union r s)"
  using union_size [of r s] desk_order [of r] desk_order [of s]
  by (simp add: in_desk_def [of "rect_union r s"] union_simps) (auto simp: in_desk_edges)

lemma union_edges:
  assumes "in_desk r" and "in_desk s"
  shows "sint (max_x (rect_union r s)) = max (sint (max_x r)) (sint (max_x s))"
    and "sint (max_y (rect_union r s)) = max (sint (max_y r)) (sint (max_y s))"
  using assms by (simp_all add: desk_edges(1) [OF union_in_desk] desk_edges(2) [OF union_in_desk]
      union_size union_simps)

lemma union_covers:
  "in_desk r \<Longrightarrow> in_desk s \<Longrightarrow> contains r p \<or> contains s p \<Longrightarrow> contains (rect_union r s) p"
  by (auto simp: contains_def union_simps union_edges)

end
