(* ===== verification/Ordered_Map.thy ===== *)
theory Ordered_Map
  imports Prelude
begin

text \<open>
  Rust's \<^verbatim>\<open>BTreeMap\<close> as the program uses it: lookup, insertion, removal and iteration in
  key order. The map is an association list whose keys are strictly increasing, so two
  maps with the same entries are the same list and equality of documents is equality of
  their contents. The locale \<open>ordered_map\<close> states what the clients rely on; \<open>keyed_merge\<close>
  extends it with an insertion that combines with the value already stored, which is the
  shape of the merge of machine slots.
\<close>

section \<open>The representation\<close>

type_synonym ('k, 'v) btree_map = "('k \<times> 'v) list"

definition bt_empty :: "('k, 'v) btree_map" where
  "bt_empty = []"

definition bt_get :: "('k, 'v) btree_map \<Rightarrow> 'k \<Rightarrow> 'v option" where
  "bt_get m = map_of m"

fun bt_insert :: "'k::linorder \<Rightarrow> 'v \<Rightarrow> ('k, 'v) btree_map \<Rightarrow> ('k, 'v) btree_map" where
  "bt_insert k v [] = [(k, v)]"
| "bt_insert k v ((k', v') # m) =
     (if k < k' then (k, v) # (k', v') # m
      else if k = k' then (k, v) # m
      else (k', v') # bt_insert k v m)"

definition bt_remove :: "'k \<Rightarrow> ('k, 'v) btree_map \<Rightarrow> ('k, 'v) btree_map" where
  "bt_remove k m = filter (\<lambda>e. fst e \<noteq> k) m"

text \<open>\<^verbatim>\<open>get_mut\<close>, \<^verbatim>\<open>entry().or_insert_with()\<close> followed by a change, and \<^verbatim>\<open>iter_mut\<close>.\<close>

definition bt_adjust :: "'k \<Rightarrow> ('v \<Rightarrow> 'v) \<Rightarrow> ('k, 'v) btree_map \<Rightarrow> ('k, 'v) btree_map" where
  "bt_adjust k f m = map (\<lambda>(l, v). (l, if l = k then f v else v)) m"

definition bt_each :: "('k \<Rightarrow> 'v \<Rightarrow> 'v) \<Rightarrow> ('k, 'v) btree_map \<Rightarrow> ('k, 'v) btree_map" where
  "bt_each f m = map (\<lambda>(l, v). (l, f l v)) m"

definition bt_entry ::
  "'k::linorder \<Rightarrow> 'v \<Rightarrow> ('v \<Rightarrow> 'v) \<Rightarrow> ('k, 'v) btree_map \<Rightarrow> ('k, 'v) btree_map" where
  "bt_entry k new f m =
     bt_insert k (f (case bt_get m k of Some v \<Rightarrow> v | None \<Rightarrow> new)) m"

definition bt_keys :: "('k, 'v) btree_map \<Rightarrow> 'k list" where
  "bt_keys m = map fst m"

definition bt_values :: "('k, 'v) btree_map \<Rightarrow> 'v list" where
  "bt_values m = map snd m"

definition bt_ok :: "('k::linorder, 'v) btree_map \<Rightarrow> bool" where
  "bt_ok m \<longleftrightarrow> sorted_wrt (<) (map fst m)"

lemma bt_ok_Nil [simp]: "bt_ok []"
  by (simp add: bt_ok_def)

lemma bt_ok_Cons: "bt_ok ((k, v) # m) \<longleftrightarrow> (\<forall>k' \<in> fst ` set m. k < k') \<and> bt_ok m"
  by (auto simp: bt_ok_def)

lemma set_bt_insert_keys: "fst ` set (bt_insert k v m) = insert k (fst ` set m)"
  by (induction k v m rule: bt_insert.induct) (simp_all add: insert_commute)

lemma bt_ok_insert: "bt_ok m \<Longrightarrow> bt_ok (bt_insert k v m)"
proof (induction m)
  case (Cons e m)
  then show ?case
    by (cases e) (auto simp: bt_ok_Cons set_bt_insert_keys)
qed (simp add: bt_ok_Cons)

lemma bt_get_insert: "bt_ok m \<Longrightarrow> bt_get (bt_insert k v m) = (bt_get m)(k \<mapsto> v)"
proof (induction m)
  case (Cons e m)
  obtain k' v' where e: "e = (k', v')" by (cases e)
  with Cons.prems have ok: "bt_ok m" by (simp add: bt_ok_Cons)
  from Cons.IH [OF ok] have "map_of (bt_insert k v m) = (map_of m)(k \<mapsto> v)"
    unfolding bt_get_def .
  with e show ?case by (auto simp: bt_get_def fun_eq_iff)
qed (simp add: bt_get_def)

lemma bt_ok_remove: "bt_ok m \<Longrightarrow> bt_ok (bt_remove k m)"
  by (induction m) (auto simp: bt_ok_Cons bt_remove_def)

lemma bt_get_remove: "bt_get (bt_remove k m) = (bt_get m)(k := None)"
  by (induction m) (auto simp: bt_get_def bt_remove_def fun_eq_iff)

lemma bt_distinct: "bt_ok m \<Longrightarrow> distinct (map fst m)"
  by (simp add: bt_ok_def strict_sorted_iff)

lemma bt_dom: "dom (bt_get m) = fst ` set m"
  by (simp add: bt_get_def dom_map_of_conv_image_fst)

lemma bt_get_head:
  "bt_ok ((k, v) # m) \<Longrightarrow> bt_get m k = None"
  by (auto simp: bt_ok_Cons bt_get_def map_of_eq_None_iff)

lemma bt_set_eq:
  assumes "bt_ok m" and "bt_ok n" and "bt_get m = bt_get n"
  shows "set m = set n"
proof -
  have "(k, v) \<in> set m \<longleftrightarrow> (k, v) \<in> set n" for k v
    using assms(3) map_of_eq_Some_iff [OF bt_distinct [OF assms(1)], of k v]
      map_of_eq_Some_iff [OF bt_distinct [OF assms(2)], of k v]
    by (simp add: bt_get_def)
  then show ?thesis by auto
qed

lemma bt_ext:
  assumes "bt_ok m" and "bt_ok n" and "bt_get m = bt_get n"
  shows "m = n"
proof (rule map_sorted_distinct_set_unique)
  have eq: "set m = set n" by (rule bt_set_eq [OF assms])
  then show "inj_on fst (set m \<union> set n)"
    using bt_distinct [OF assms(1)] by (simp add: distinct_map)
  show "sorted (map fst m)" and "sorted (map fst n)"
    and "distinct (map fst m)" and "distinct (map fst n)"
    using assms(1,2) by (simp_all add: bt_ok_def strict_sorted_iff)
  show "set m = set n" by (rule eq)
qed

lemma bt_keys_each: "map fst (bt_each f m) = map fst m"
  by (simp add: bt_each_def split_def)

lemma bt_adjust_each: "bt_adjust k f m = bt_each (\<lambda>l v. if l = k then f v else v) m"
  by (simp add: bt_adjust_def bt_each_def)

lemma bt_ok_each: "bt_ok (bt_each f m) \<longleftrightarrow> bt_ok m"
  by (simp add: bt_ok_def bt_keys_each)

lemma bt_get_each: "bt_get (bt_each f m) k = map_option (f k) (bt_get m k)"
  by (induction m) (auto simp: bt_get_def bt_each_def)

lemma bt_get_adjust: "bt_get (bt_adjust k f m) = (bt_get m)(k := map_option f (bt_get m k))"
  by (auto simp: fun_eq_iff bt_adjust_each bt_get_each option.map_ident split: option.split)

lemma bt_ok_adjust: "bt_ok (bt_adjust k f m) \<longleftrightarrow> bt_ok m"
  by (simp add: bt_adjust_each bt_ok_each)

lemma bt_ok_entry: "bt_ok m \<Longrightarrow> bt_ok (bt_entry k new f m)"
  by (simp add: bt_entry_def bt_ok_insert)

lemma bt_get_entry:
  "bt_ok m \<Longrightarrow> bt_get (bt_entry k new f m) =
     (bt_get m)(k \<mapsto> f (case bt_get m k of Some v \<Rightarrow> v | None \<Rightarrow> new))"
  by (simp add: bt_entry_def bt_get_insert)

section \<open>The interface\<close>

locale ordered_map =
  fixes empty :: "'m"
    and get :: "'m \<Rightarrow> 'k::linorder \<Rightarrow> 'v option"
    and put :: "'k \<Rightarrow> 'v \<Rightarrow> 'm \<Rightarrow> 'm"
    and remove :: "'k \<Rightarrow> 'm \<Rightarrow> 'm"
    and entries :: "'m \<Rightarrow> ('k \<times> 'v) list"
    and ok :: "'m \<Rightarrow> bool"
  assumes ok_empty: "ok empty"
    and get_empty: "get empty k = None"
    and ok_put: "ok m \<Longrightarrow> ok (put k v m)"
    and get_put: "ok m \<Longrightarrow> get (put k v m) = (get m)(k \<mapsto> v)"
    and ok_remove: "ok m \<Longrightarrow> ok (remove k m)"
    and get_remove: "ok m \<Longrightarrow> get (remove k m) = (get m)(k := None)"
    and entries_sorted: "ok m \<Longrightarrow> sorted_wrt (<) (map fst (entries m))"
    and entries_get: "ok m \<Longrightarrow> map_of (entries m) = get m"
    and ext: "ok m \<Longrightarrow> ok n \<Longrightarrow> get m = get n \<Longrightarrow> m = n"
begin

lemma put_put: "ok m \<Longrightarrow> put k v (put k w m) = put k v m"
  by (rule ext) (simp_all add: ok_put get_put)

lemma put_swap: "ok m \<Longrightarrow> k \<noteq> l \<Longrightarrow> put k v (put l w m) = put l w (put k v m)"
  by (rule ext) (simp_all add: ok_put get_put fun_upd_twist)

lemma put_same: "ok m \<Longrightarrow> get m k = Some v \<Longrightarrow> put k v m = m"
  by (rule ext) (simp_all add: ok_put get_put fun_upd_idem)

lemma remove_put: "ok m \<Longrightarrow> get m k = None \<Longrightarrow> remove k (put k v m) = m"
  by (rule ext) (simp_all add: ok_put get_put ok_remove get_remove fun_upd_idem)

lemma entries_distinct: "ok m \<Longrightarrow> distinct (map fst (entries m))"
  using entries_sorted [of m] by (simp add: strict_sorted_iff)

lemma entries_iff: "ok m \<Longrightarrow> (k, v) \<in> set (entries m) \<longleftrightarrow> get m k = Some v"
  using map_of_eq_Some_iff [OF entries_distinct, of m k v] by (simp add: entries_get)

end

text \<open>
  An insertion that combines with what is stored. Merging a whole map is one such insertion
  per entry, in the order of iteration; the result at a key depends on the two values
  stored there and on nothing else.
\<close>

locale keyed_merge = ordered_map +
  fixes join :: "'c \<Rightarrow> 'c \<Rightarrow> 'c"
    and upsert :: "'b::linorder \<Rightarrow> 'c \<Rightarrow> 'a \<Rightarrow> 'a"
  assumes ok_upsert: "ok m \<Longrightarrow> ok (upsert k v m)"
    and get_upsert: "ok m \<Longrightarrow> get (upsert k v m) = (get m)(k := join_opt join (get m k) (Some v))"
begin

lemma ok_upsert_all: "ok m \<Longrightarrow> ok (fold (\<lambda>(k, v). upsert k v) es m)"
  by (induction es arbitrary: m) (auto simp: ok_upsert)

lemma get_upsert_all:
  "ok m \<Longrightarrow> distinct (map fst es) \<Longrightarrow>
     get (fold (\<lambda>(k, v). upsert k v) es m) k = join_opt join (get m k) (map_of es k)"
proof (induction es arbitrary: m)
  case (Cons e es)
  obtain k' v where e: "e = (k', v)" by (cases e)
  from Cons.prems e have "map_of es k' = None"
    by (auto simp: map_of_eq_None_iff)
  with Cons e show ?case by (auto simp: ok_upsert get_upsert)
qed simp

lemma get_merge:
  "ok m \<Longrightarrow> ok n \<Longrightarrow>
     get (fold (\<lambda>(k, v). upsert k v) (entries n) m) k = join_opt join (get m k) (get n k)"
  by (simp add: get_upsert_all entries_distinct entries_get)

end

section \<open>The model implements the interface\<close>

interpretation bt: ordered_map bt_empty bt_get bt_insert bt_remove "\<lambda>m. m" bt_ok
proof unfold_locales
  fix m n :: "('k::linorder, 'v) btree_map" and k :: 'k and v :: 'v
  show "bt_ok (bt_empty :: ('k, 'v) btree_map)" and "bt_get (bt_empty :: ('k, 'v) btree_map) k = None"
    by (simp_all add: bt_empty_def bt_get_def)
  show "bt_get (bt_remove k m) = (bt_get m)(k := None)" by (rule bt_get_remove)
  show "map_of m = bt_get m" by (simp add: bt_get_def)
  assume ok: "bt_ok m"
  then show "bt_ok (bt_insert k v m)" by (rule bt_ok_insert)
  show "bt_get (bt_insert k v m) = (bt_get m)(k \<mapsto> v)" by (rule bt_get_insert [OF ok])
  show "bt_ok (bt_remove k m)" using ok by (rule bt_ok_remove)
  show "sorted_wrt (<) (map fst m)" using ok by (simp add: bt_ok_def)
  assume "bt_ok n" and "bt_get m = bt_get n"
  with ok show "m = n" by (rule bt_ext)
qed

end
