(* ===== verification/Stamp.thy ===== *)
theory Stamp
  imports Prelude "HOL-Library.Product_Lexorder"
begin

text \<open>
  Lamport stamps and last-writer-wins registers (\<^verbatim>\<open>crates/is-core/src/stamp.rs\<close>).

  A stamp is compared by \<^verbatim>\<open>(lamport, origin)\<close> alone; the wall clock is carried and never
  compared, so the comparison is a preorder on stamps and not a linear order: two stamps
  that differ in the wall clock only are equivalent. The locale \<open>lww_choice\<close> states what
  "keep the one with the higher stamp" gives for any value that carries a stamp; registers
  here and machine slots in the workspace theory are its two instances.
\<close>

section \<open>Stamps\<close>

record stamp =
  st_lamport :: u64
  st_origin :: machine_id
  st_wall_clock_ms :: u64

text \<open>\<^verbatim>\<open>Stamp::new\<close>; the wall clock \<^verbatim>\<open>now_ms()\<close> is an argument.\<close>

definition stamp_new :: "u64 \<Rightarrow> u64 \<Rightarrow> machine_id \<Rightarrow> stamp" where
  "stamp_new now lamport origin =
     \<lparr>st_lamport = lamport, st_origin = origin, st_wall_clock_ms = now\<rparr>"

definition stamp_key :: "'a stamp_scheme \<Rightarrow> u64 \<times> machine_id" where
  "stamp_key s = (st_lamport s, st_origin s)"

definition stamp_eq :: "stamp \<Rightarrow> stamp \<Rightarrow> bool" where
  "stamp_eq a b \<longleftrightarrow> stamp_key a = stamp_key b"

definition stamp_cmp :: "stamp \<Rightarrow> stamp \<Rightarrow> ordering" where
  "stamp_cmp a b = cmp (stamp_key a) (stamp_key b)"

instantiation stamp_ext :: (type) preorder
begin

definition less_eq_stamp_ext :: "'a stamp_scheme \<Rightarrow> 'a stamp_scheme \<Rightarrow> bool" where
  "less_eq_stamp_ext a b \<longleftrightarrow> stamp_key a \<le> stamp_key b"

definition less_stamp_ext :: "'a stamp_scheme \<Rightarrow> 'a stamp_scheme \<Rightarrow> bool" where
  "less_stamp_ext a b \<longleftrightarrow> stamp_key a < stamp_key b"

instance
  by standard (auto simp: less_eq_stamp_ext_def less_stamp_ext_def)

end

lemmas stamp_order_defs = less_eq_stamp_ext_def less_stamp_ext_def

lemma stamp_total: "(a :: stamp) \<le> b \<or> b \<le> a"
  by (auto simp: stamp_order_defs)

lemma stamp_not_less: "\<not> (a :: stamp) < b \<longleftrightarrow> b \<le> a"
  by (auto simp: stamp_order_defs)

lemma stamp_equiv: "(a :: stamp) \<le> b \<and> b \<le> a \<longleftrightarrow> stamp_key a = stamp_key b"
  by (auto simp: stamp_order_defs)

lemma stamp_cmp_less: "stamp_cmp a b = Less \<longleftrightarrow> a < b"
  by (simp add: stamp_cmp_def cmp_cases stamp_order_defs)

lemma stamp_less_iff:
  "(a :: stamp) < b \<longleftrightarrow>
     st_lamport a < st_lamport b \<or> (st_lamport a = st_lamport b \<and> st_origin a < st_origin b)"
  by (auto simp: stamp_order_defs stamp_key_def)

section \<open>The rule that picks a winner\<close>

locale lww_choice =
  fixes st :: "'a \<Rightarrow> stamp"
    and pick :: "'a \<Rightarrow> 'a \<Rightarrow> 'a"
  assumes pick_def: "pick a b = (if st a < st b then b else a)"
begin

lemma pick_idem: "pick a a = a"
  by (simp add: pick_def)

lemma pick_stamp_ge: "st a \<le> st (pick a b)" "st b \<le> st (pick a b)"
  using stamp_not_less [of "st a" "st b"] by (auto simp: pick_def less_imp_le)

lemma pick_in: "pick a b = a \<or> pick a b = b"
  by (simp add: pick_def)

lemma pick_older: "st b \<le> st a \<Longrightarrow> pick a b = a"
  using stamp_not_less [of "st a" "st b"] by (auto simp: pick_def)

lemma pick_newer: "st a < st b \<Longrightarrow> pick a b = b"
  by (simp add: pick_def)

lemma pick_assoc: "pick (pick a b) c = pick a (pick b c)"
proof (cases "st b < st c")
  case True
  then show ?thesis by (auto simp: pick_def dest: less_trans)
next
  case False
  then have "\<not> st a < st b \<Longrightarrow> \<not> st a < st c"
    by (auto simp: stamp_not_less dest: order_trans)
  with False show ?thesis by (auto simp: pick_def)
qed

text \<open>
  Equal stamps are taken to mean the same write seen twice. Where that holds, the choice
  does not depend on the order of the two values.
\<close>

lemma pick_commute:
  "(stamp_key (st a) = stamp_key (st b) \<Longrightarrow> a = b) \<Longrightarrow> pick a b = pick b a"
  by (auto simp: pick_def stamp_order_defs)

text \<open>Without it, each side keeps its own value.\<close>

lemma pick_conflict: "stamp_key (st a) = stamp_key (st b) \<Longrightarrow> pick a b = a \<and> pick b a = b"
  by (simp add: pick_def stamp_order_defs)

end

section \<open>Registers\<close>

record 'a lww =
  lww_value :: 'a
  lww_stamp :: stamp

definition lww_new :: "'a \<Rightarrow> stamp \<Rightarrow> 'a lww" where
  "lww_new v s = \<lparr>lww_value = v, lww_stamp = s\<rparr>"

text \<open>\<^verbatim>\<open>Lww::merge\<close>: the new register and whether it changed.\<close>

definition lww_merge :: "'a lww \<Rightarrow> 'a lww \<Rightarrow> 'a lww \<times> bool" where
  "lww_merge self incoming =
     (if lww_stamp self < lww_stamp incoming then (incoming, True) else (self, False))"

lemma lww_new_simps [simp]:
  "lww_value (lww_new v s) = v" "lww_stamp (lww_new v s) = s"
  by (simp_all add: lww_new_def)

interpretation reg: lww_choice lww_stamp "\<lambda>a b. fst (lww_merge a b)"
  by unfold_locales (simp add: lww_merge_def)

lemma lww_merge_changed: "snd (lww_merge a b) \<longleftrightarrow> lww_stamp a < lww_stamp b"
  by (simp add: lww_merge_def)

lemma lww_merge_unchanged: "\<not> snd (lww_merge a b) \<Longrightarrow> fst (lww_merge a b) = a"
  by (simp add: lww_merge_def split: if_splits)

end
