(* ===== verification/Workspace.thy ===== *)
theory Workspace
  imports Geometry Ordered_Map Stamp
begin

text \<open>
  The synchronized workspace document (\<^verbatim>\<open>crates/is-core/src/model.rs\<close>, with the error type
  of \<^verbatim>\<open>error.rs\<close>): its records, every operation on it, and the merge two machines run when
  they reconnect.

  A mutating method \<^verbatim>\<open>f(&mut self, ...)\<close> is a function that returns the new document with
  the method's result; a method that can fail returns \<open>core_error + ...\<close>. \<^verbatim>\<open>now_ms()\<close> and the
  fresh \<^verbatim>\<open>Uuid\<close> of a new workspace are arguments.
\<close>

section \<open>Errors\<close>

datatype io_error_kind = NotFound | OtherIo

datatype core_error =
    Io string io_error_kind
  | PlainIo io_error_kind
  | ParseError string
  | SerializeError
  | NoConfigDir
  | HexError string
  | BadKey string
  | KeyLength nat nat
  | WorkspaceMismatch workspace_id workspace_id
  | SchemaVersion u32 u32

section \<open>Machines and settings\<close>

datatype platform = Windows | MacOs | Linux | OtherPlatform

datatype pub_key = PubKey (key_bytes: "u8 list")

record input_assignment =
  provides_keyboard :: bool
  provides_mouse :: bool

definition input_assignment_default :: input_assignment where
  "input_assignment_default = \<lparr>provides_keyboard = False, provides_mouse = False\<rparr>"

record machine_record =
  mr_id :: machine_id
  mr_display_name :: string
  mr_platform :: platform
  mr_public_key :: pub_key
  mr_position :: point
  mr_displays :: "display_info list"
  mr_input :: input_assignment
  mr_paired_at_ms :: u64

text \<open>\<^verbatim>\<open>Iterator::reduce\<close>: None on an empty iterator, otherwise a left fold.\<close>

fun reduce :: "('a \<Rightarrow> 'a \<Rightarrow> 'a) \<Rightarrow> 'a list \<Rightarrow> 'a option" where
  "reduce f [] = None"
| "reduce f (x # xs) = Some (foldl f x xs)"

definition placed_displays :: "machine_record \<Rightarrow> rect list" where
  "placed_displays m = map (\<lambda>d. translate (display_rect d) (mr_position m)) (mr_displays m)"

definition bounds :: "machine_record \<Rightarrow> rect option" where
  "bounds m = reduce rect_union (placed_displays m)"

datatype slot_state = Present machine_record | Removed

record machine_slot =
  slot_stamp :: stamp
  slot_content :: slot_state

datatype offline_edge_behavior = Block | SkipOver

record workspace_settings =
  clipboard_sync :: bool
  offline_edge :: offline_edge_behavior
  discovery_port :: u16
  transport_port :: u16
  preferred_interfaces :: "string list"
  autostart :: bool

definition workspace_settings_default :: workspace_settings where
  "workspace_settings_default =
     \<lparr>clipboard_sync = True, offline_edge = Block, discovery_port = 47451,
      transport_port = 47452, preferred_interfaces = [], autostart = True\<rparr>"

section \<open>Updates and the document\<close>

datatype op =
    SetName string
  | UpsertMachine machine_record
  | RemoveMachine machine_id
  | SetSettings workspace_settings

record workspace_update =
  upd_workspace_id :: workspace_id
  prev_lamport :: u64
  upd_stamp :: stamp
  upd_op :: op

record workspace_doc =
  doc_workspace_id :: workspace_id
  schema_version :: u32
  doc_name :: "string lww"
  doc_lamport :: u64
  machines :: "(machine_id, machine_slot) btree_map"
  settings :: "workspace_settings lww"

definition SCHEMA_VERSION :: u32 where
  "SCHEMA_VERSION = 1"

definition create :: "u64 \<Rightarrow> workspace_id \<Rightarrow> string \<Rightarrow> machine_record \<Rightarrow> workspace_doc" where
  "create now fresh name founder =
     (let origin = mr_id founder; stamp = stamp_new now 1 origin
      in \<lparr>doc_workspace_id = fresh, schema_version = SCHEMA_VERSION,
          doc_name = lww_new name stamp, doc_lamport = 1,
          machines = bt_insert origin
            \<lparr>slot_stamp = stamp, slot_content = Present founder\<rparr> bt_empty,
          settings = lww_new workspace_settings_default stamp\<rparr>)"

text \<open>\<^verbatim>\<open>tick\<close>: the increment wraps at \<open>2 ^ 64\<close> in the release build.\<close>

definition tick :: "u64 \<Rightarrow> machine_id \<Rightarrow> workspace_doc \<Rightarrow> workspace_doc \<times> stamp" where
  "tick now origin d =
     (let l = doc_lamport d + 1 in (d\<lparr>doc_lamport := l\<rparr>, stamp_new now l origin))"

definition observe :: "u64 \<Rightarrow> workspace_doc \<Rightarrow> workspace_doc" where
  "observe l d = d\<lparr>doc_lamport := max (doc_lamport d) l\<rparr>"

definition set_name ::
  "u64 \<Rightarrow> machine_id \<Rightarrow> string \<Rightarrow> workspace_doc \<Rightarrow> workspace_doc \<times> workspace_update" where
  "set_name now origin name d =
     (let prev = doc_lamport d; (d1, stamp) = tick now origin d
      in (d1\<lparr>doc_name := lww_new name stamp\<rparr>,
          \<lparr>upd_workspace_id = doc_workspace_id d1, prev_lamport = prev,
           upd_stamp = stamp, upd_op = SetName name\<rparr>))"

definition set_settings ::
  "u64 \<Rightarrow> machine_id \<Rightarrow> workspace_settings \<Rightarrow> workspace_doc \<Rightarrow> workspace_doc \<times> workspace_update" where
  "set_settings now origin s d =
     (let prev = doc_lamport d; (d1, stamp) = tick now origin d
      in (d1\<lparr>settings := lww_new s stamp\<rparr>,
          \<lparr>upd_workspace_id = doc_workspace_id d1, prev_lamport = prev,
           upd_stamp = stamp, upd_op = SetSettings s\<rparr>))"

definition upsert_machine ::
  "u64 \<Rightarrow> machine_id \<Rightarrow> machine_record \<Rightarrow> workspace_doc \<Rightarrow> workspace_doc \<times> workspace_update" where
  "upsert_machine now origin r d =
     (let prev = doc_lamport d; (d1, stamp) = tick now origin d
      in (d1\<lparr>machines := bt_insert (mr_id r)
              \<lparr>slot_stamp = stamp, slot_content = Present r\<rparr> (machines d1)\<rparr>,
          \<lparr>upd_workspace_id = doc_workspace_id d1, prev_lamport = prev,
           upd_stamp = stamp, upd_op = UpsertMachine r\<rparr>))"

definition remove_machine ::
  "u64 \<Rightarrow> machine_id \<Rightarrow> machine_id \<Rightarrow> workspace_doc \<Rightarrow> workspace_doc \<times> workspace_update" where
  "remove_machine now origin i d =
     (let prev = doc_lamport d; (d1, stamp) = tick now origin d
      in (d1\<lparr>machines := bt_insert i
              \<lparr>slot_stamp = stamp, slot_content = Removed\<rparr> (machines d1)\<rparr>,
          \<lparr>upd_workspace_id = doc_workspace_id d1, prev_lamport = prev,
           upd_stamp = stamp, upd_op = RemoveMachine i\<rparr>))"

definition check_workspace :: "workspace_id \<Rightarrow> workspace_doc \<Rightarrow> core_error + unit" where
  "check_workspace incoming d =
     (if incoming = doc_workspace_id d then Inr ()
      else Inl (WorkspaceMismatch incoming (doc_workspace_id d)))"

text \<open>
  \<^verbatim>\<open>merge_slot\<close> on the map of slots: an existing slot whose stamp is not older is kept.
\<close>

definition put_slot ::
  "machine_id \<Rightarrow> machine_slot \<Rightarrow> (machine_id, machine_slot) btree_map
     \<Rightarrow> (machine_id, machine_slot) btree_map \<times> bool" where
  "put_slot i incoming m =
     (case bt_get m i of
        Some existing \<Rightarrow>
          if slot_stamp incoming \<le> slot_stamp existing then (m, False)
          else (bt_insert i incoming m, True)
      | None \<Rightarrow> (bt_insert i incoming m, True))"

definition merge_slot :: "machine_id \<Rightarrow> machine_slot \<Rightarrow> workspace_doc \<Rightarrow> workspace_doc \<times> bool" where
  "merge_slot i incoming d =
     (let (m, changed) = put_slot i incoming (machines d) in (d\<lparr>machines := m\<rparr>, changed))"

definition merge_name :: "string lww \<Rightarrow> workspace_doc \<Rightarrow> workspace_doc \<times> bool" where
  "merge_name incoming d =
     (let (n, changed) = lww_merge (doc_name d) incoming in (d\<lparr>doc_name := n\<rparr>, changed))"

definition merge_settings :: "workspace_settings lww \<Rightarrow> workspace_doc \<Rightarrow> workspace_doc \<times> bool" where
  "merge_settings incoming d =
     (let (s, changed) = lww_merge (settings d) incoming in (d\<lparr>settings := s\<rparr>, changed))"

fun apply_op :: "op \<Rightarrow> stamp \<Rightarrow> workspace_doc \<Rightarrow> workspace_doc \<times> bool" where
  "apply_op (SetName name) stamp d = merge_name (lww_new name stamp) d"
| "apply_op (SetSettings s) stamp d = merge_settings (lww_new s stamp) d"
| "apply_op (UpsertMachine r) stamp d =
     merge_slot (mr_id r) \<lparr>slot_stamp = stamp, slot_content = Present r\<rparr> d"
| "apply_op (RemoveMachine i) stamp d =
     merge_slot i \<lparr>slot_stamp = stamp, slot_content = Removed\<rparr> d"

text \<open>\<^verbatim>\<open>apply\<close>: on an error the document is untouched.\<close>

definition apply_update ::
  "workspace_update \<Rightarrow> workspace_doc \<Rightarrow> core_error + (workspace_doc \<times> bool)" where
  "apply_update u d =
     (case check_workspace (upd_workspace_id u) d of
        Inl e \<Rightarrow> Inl e
      | Inr _ \<Rightarrow> Inr (apply_op (upd_op u) (upd_stamp u)
                       (observe (st_lamport (upd_stamp u)) d)))"

text \<open>The loop of \<^verbatim>\<open>merge\<close> over the other document's machines.\<close>

fun merge_slots ::
  "(machine_id \<times> machine_slot) list \<Rightarrow> workspace_doc \<times> bool \<Rightarrow> workspace_doc \<times> bool" where
  "merge_slots [] acc = acc"
| "merge_slots ((i, slot) # es) (d, changed) =
     (let d1 = observe (st_lamport (slot_stamp slot)) d; (d2, c) = merge_slot i slot d1
      in merge_slots es (d2, changed \<or> c))"

definition merge_doc :: "workspace_doc \<Rightarrow> workspace_doc \<Rightarrow> core_error + (workspace_doc \<times> bool)" where
  "merge_doc d other =
     (case check_workspace (doc_workspace_id other) d of
        Inl e \<Rightarrow> Inl e
      | Inr _ \<Rightarrow>
          (let d0 = observe (doc_lamport other) d;
               (d1, c1) = merge_name (doc_name other) d0;
               (d2, c2) = merge_settings (settings other) d1
           in Inr (merge_slots (machines other) (d2, c1 \<or> c2))))"

fun present :: "slot_state \<Rightarrow> machine_record option" where
  "present (Present r) = Some r"
| "present Removed = None"

definition machine :: "machine_id \<Rightarrow> workspace_doc \<Rightarrow> machine_record option" where
  "machine i d =
     (case bt_get (machines d) i of
        Some slot \<Rightarrow> present (slot_content slot)
      | None \<Rightarrow> None)"

definition machines_present :: "workspace_doc \<Rightarrow> machine_record list" where
  "machines_present d = List.map_filter (\<lambda>slot. present (slot_content slot)) (bt_values (machines d))"

definition is_removed :: "machine_id \<Rightarrow> workspace_doc \<Rightarrow> bool" where
  "is_removed i d = (map_option slot_content (bt_get (machines d) i) = Some Removed)"

section \<open>Slots\<close>

text \<open>The slot \<^verbatim>\<open>merge_slot\<close> leaves when one is already there.\<close>

definition slot_pick :: "machine_slot \<Rightarrow> machine_slot \<Rightarrow> machine_slot" where
  "slot_pick a b = (if slot_stamp b \<le> slot_stamp a then a else b)"

interpretation slot: lww_choice slot_stamp slot_pick
proof
  fix a b
  show "slot_pick a b = (if slot_stamp a < slot_stamp b then b else a)"
    using stamp_not_less [of "slot_stamp a" "slot_stamp b"] by (auto simp: slot_pick_def)
qed

lemma ok_put_slot: "bt_ok m \<Longrightarrow> bt_ok (fst (put_slot i s m))"
  by (auto simp: put_slot_def bt_ok_insert split: option.splits)

lemma get_put_slot:
  "bt_ok m \<Longrightarrow>
     bt_get (fst (put_slot i s m)) = (bt_get m)(i := join_opt slot_pick (bt_get m i) (Some s))"
  by (auto simp: put_slot_def slot_pick_def bt_get_insert fun_eq_iff split: option.splits)

lemma put_slot_unchanged: "\<not> snd (put_slot i s m) \<Longrightarrow> fst (put_slot i s m) = m"
  by (auto simp: put_slot_def split: option.splits if_splits)

lemma put_slot_changed:
  "snd (put_slot i s m) \<longleftrightarrow> (case bt_get m i of None \<Rightarrow> True | Some t \<Rightarrow> slot_stamp t < slot_stamp s)"
  using stamp_not_less by (auto simp: put_slot_def split: option.splits)

interpretation slots: keyed_merge bt_empty bt_get bt_insert bt_remove "\<lambda>m. m" bt_ok
    slot_pick "\<lambda>i s m. fst (put_slot i s m)"
  by unfold_locales (simp_all add: ok_put_slot get_put_slot)

section \<open>What the operations do to the fields\<close>

lemma observe_simps [simp]:
  "doc_workspace_id (observe l d) = doc_workspace_id d"
  "schema_version (observe l d) = schema_version d"
  "doc_name (observe l d) = doc_name d"
  "doc_lamport (observe l d) = max (doc_lamport d) l"
  "machines (observe l d) = machines d"
  "settings (observe l d) = settings d"
  by (simp_all add: observe_def)

lemma merge_name_eq:
  "merge_name r d = (d\<lparr>doc_name := fst (lww_merge (doc_name d) r)\<rparr>, snd (lww_merge (doc_name d) r))"
  by (simp add: merge_name_def split_def Let_def)

lemma merge_settings_eq:
  "merge_settings r d =
     (d\<lparr>settings := fst (lww_merge (settings d) r)\<rparr>, snd (lww_merge (settings d) r))"
  by (simp add: merge_settings_def split_def Let_def)

lemma merge_slot_eq:
  "merge_slot i s d =
     (d\<lparr>machines := fst (put_slot i s (machines d))\<rparr>, snd (put_slot i s (machines d)))"
  by (simp add: merge_slot_def split_def Let_def)

lemmas merge_part_eqs = merge_name_eq merge_settings_eq merge_slot_eq

definition slots_clock :: "(machine_id \<times> machine_slot) list \<Rightarrow> u64 \<Rightarrow> u64" where
  "slots_clock es l = fold (\<lambda>e. max (st_lamport (slot_stamp (snd e)))) es l"

lemma merge_slots_fst:
  "fst (merge_slots es (d, c)) =
     d\<lparr>machines := fold (\<lambda>(i, s) m. fst (put_slot i s m)) es (machines d),
       doc_lamport := slots_clock es (doc_lamport d)\<rparr>"
proof (induction es arbitrary: d c)
  case (Cons e es)
  obtain i s where "e = (i, s)" by (cases e)
  with Cons.IH show ?case
    by (simp add: merge_slot_eq Let_def slots_clock_def observe_def max.commute)
qed (simp add: slots_clock_def)

lemma slots_clock_bounded:
  "\<forall>e \<in> set es. st_lamport (slot_stamp (snd e)) \<le> l \<Longrightarrow> slots_clock es l = l"
  by (induction es) (auto simp: slots_clock_def max_def)

text \<open>The document a successful merge leaves.\<close>

definition doc_join :: "workspace_doc \<Rightarrow> workspace_doc \<Rightarrow> workspace_doc" where
  "doc_join d e = (case merge_doc d e of Inl _ \<Rightarrow> d | Inr (d', _) \<Rightarrow> d')"

lemma merge_doc_same_workspace:
  "doc_workspace_id d = doc_workspace_id e \<Longrightarrow> \<exists>c. merge_doc d e = Inr (doc_join d e, c)"
  by (simp add: doc_join_def merge_doc_def check_workspace_def Let_def split_def)
    (metis prod.collapse)

lemma doc_join_eq:
  assumes "doc_workspace_id d = doc_workspace_id e"
  shows "doc_join d e =
    d\<lparr>doc_name := fst (lww_merge (doc_name d) (doc_name e)),
      doc_lamport := slots_clock (machines e) (max (doc_lamport d) (doc_lamport e)),
      machines := fold (\<lambda>(i, s) m. fst (put_slot i s m)) (machines e) (machines d),
      settings := fst (lww_merge (settings d) (settings e))\<rparr>"
  using assms
  by (simp add: doc_join_def merge_doc_def check_workspace_def Let_def merge_name_eq
      merge_settings_eq case_prod_beta merge_slots_fst observe_def)

section \<open>Well-formed documents\<close>

text \<open>
  The clock is at or past every stamp of the document, every record sits under its own
  identifier, and the map of machines is in order.
\<close>

definition slot_wf :: "u64 \<Rightarrow> machine_id \<times> machine_slot \<Rightarrow> bool" where
  "slot_wf l e \<longleftrightarrow> st_lamport (slot_stamp (snd e)) \<le> l \<and>
     (case slot_content (snd e) of Present r \<Rightarrow> mr_id r = fst e | Removed \<Rightarrow> True)"

definition doc_wf :: "workspace_doc \<Rightarrow> bool" where
  "doc_wf d \<longleftrightarrow> bt_ok (machines d) \<and>
     st_lamport (lww_stamp (doc_name d)) \<le> doc_lamport d \<and>
     st_lamport (lww_stamp (settings d)) \<le> doc_lamport d \<and>
     list_all (slot_wf (doc_lamport d)) (machines d)"

lemma doc_wf_ok: "doc_wf d \<Longrightarrow> bt_ok (machines d)"
  by (simp add: doc_wf_def)

lemma doc_wf_slot:
  "doc_wf d \<Longrightarrow> bt_get (machines d) i = Some s \<Longrightarrow> slot_wf (doc_lamport d) (i, s)"
  by (auto simp: doc_wf_def list_all_iff bt_get_def dest: map_of_SomeD)

lemma slot_wf_mono: "slot_wf l e \<Longrightarrow> l \<le> l' \<Longrightarrow> slot_wf l' e"
  by (auto simp: slot_wf_def)

lemma doc_wfI:
  assumes "bt_ok (machines d)"
    and "st_lamport (lww_stamp (doc_name d)) \<le> doc_lamport d"
    and "st_lamport (lww_stamp (settings d)) \<le> doc_lamport d"
    and "\<And>i s. bt_get (machines d) i = Some s \<Longrightarrow> slot_wf (doc_lamport d) (i, s)"
  shows "doc_wf d"
  using assms by (auto simp: doc_wf_def list_all_iff bt.entries_iff)

lemma slots_clock_wf:
  "doc_wf e \<Longrightarrow> doc_lamport e \<le> l \<Longrightarrow> slots_clock (machines e) l = l"
  by (intro slots_clock_bounded)
    (auto simp: doc_wf_def list_all_iff slot_wf_def intro: order_trans)

lemma doc_join_fields:
  assumes "doc_workspace_id d = doc_workspace_id e" and "doc_wf e"
  shows "doc_workspace_id (doc_join d e) = doc_workspace_id d"
    and "schema_version (doc_join d e) = schema_version d"
    and "doc_name (doc_join d e) = fst (lww_merge (doc_name d) (doc_name e))"
    and "settings (doc_join d e) = fst (lww_merge (settings d) (settings e))"
    and "doc_lamport (doc_join d e) = max (doc_lamport d) (doc_lamport e)"
  using assms by (simp_all add: doc_join_eq slots_clock_wf)

lemma doc_join_machines:
  assumes "doc_workspace_id d = doc_workspace_id e" and "bt_ok (machines d)" and "bt_ok (machines e)"
  shows "bt_ok (machines (doc_join d e))"
    and "bt_get (machines (doc_join d e)) i =
           join_opt slot_pick (bt_get (machines d) i) (bt_get (machines e) i)"
  using assms slots.ok_upsert_all [of "machines d" "machines e"]
    slots.get_merge [of "machines d" "machines e" i]
  by (simp_all add: doc_join_eq)

lemma join_slot_wf:
  "(\<And>s. x = Some s \<Longrightarrow> slot_wf l (i, s)) \<Longrightarrow> (\<And>s. y = Some s \<Longrightarrow> slot_wf l (i, s)) \<Longrightarrow>
     join_opt slot_pick x y = Some t \<Longrightarrow> slot_wf l (i, t)"
  by (cases x; cases y) (auto simp: slot_pick_def split: if_splits)

lemma doc_join_wf [wf_intros]:
  assumes ws: "doc_workspace_id d = doc_workspace_id e" and "doc_wf d" and "doc_wf e"
  shows "doc_wf (doc_join d e)"
proof (rule doc_wfI)
  note wf = \<open>doc_wf d\<close> \<open>doc_wf e\<close>
  note fields = doc_join_fields [OF ws wf(2)] doc_join_machines [OF ws wf [THEN doc_wf_ok]]
  show "bt_ok (machines (doc_join d e))" by (rule fields)
  show "st_lamport (lww_stamp (doc_name (doc_join d e))) \<le> doc_lamport (doc_join d e)"
    and "st_lamport (lww_stamp (settings (doc_join d e))) \<le> doc_lamport (doc_join d e)"
    using wf by (auto simp: fields doc_wf_def lww_merge_def max_def)
  fix i s
  assume "bt_get (machines (doc_join d e)) i = Some s"
  then have "join_opt slot_pick (bt_get (machines d) i) (bt_get (machines e) i) = Some s"
    by (simp add: fields)
  then show "slot_wf (doc_lamport (doc_join d e)) (i, s)"
    by (rule join_slot_wf [rotated 2])
      (auto simp: fields intro: slot_wf_mono dest: wf [THEN doc_wf_slot])
qed

section \<open>Local edits\<close>

text \<open>The four local edits behind one name, for the facts they share.\<close>

fun local_edit ::
  "u64 \<Rightarrow> machine_id \<Rightarrow> op \<Rightarrow> workspace_doc \<Rightarrow> workspace_doc \<times> workspace_update" where
  "local_edit now origin (SetName n) d = set_name now origin n d"
| "local_edit now origin (SetSettings s) d = set_settings now origin s d"
| "local_edit now origin (UpsertMachine r) d = upsert_machine now origin r d"
| "local_edit now origin (RemoveMachine i) d = remove_machine now origin i d"

lemmas edit_defs = set_name_def set_settings_def upsert_machine_def remove_machine_def tick_def

lemma local_edit_update:
  "snd (local_edit now origin op d) =
     \<lparr>upd_workspace_id = doc_workspace_id d, prev_lamport = doc_lamport d,
      upd_stamp = stamp_new now (doc_lamport d + 1) origin, upd_op = op\<rparr>"
  by (cases op) (simp_all add: edit_defs Let_def)

lemma local_edit_fields [simp]:
  "doc_workspace_id (fst (local_edit now origin op d)) = doc_workspace_id d"
  "schema_version (fst (local_edit now origin op d)) = schema_version d"
  "doc_lamport (fst (local_edit now origin op d)) = doc_lamport d + 1"
  by (cases op; simp add: edit_defs Let_def)+

lemma stamp_new_simps [simp]:
  "st_lamport (stamp_new now l org) = l" "st_origin (stamp_new now l org) = org"
  "st_wall_clock_ms (stamp_new now l org) = now"
  by (simp_all add: stamp_new_def)

lemma u64_next: "(l :: u64) \<noteq> - 1 \<Longrightarrow> l < l + 1"
  using inc_less_eq_self_iff_eq [of l] by (simp add: not_le [symmetric])

text \<open>Every stamp a document holds.\<close>

definition doc_stamps :: "workspace_doc \<Rightarrow> stamp list" where
  "doc_stamps d =
     lww_stamp (doc_name d) # lww_stamp (settings d) # map (\<lambda>e. slot_stamp (snd e)) (machines d)"

lemma doc_stamps_le: "doc_wf d \<Longrightarrow> s \<in> set (doc_stamps d) \<Longrightarrow> st_lamport s \<le> doc_lamport d"
  by (auto simp: doc_stamps_def doc_wf_def list_all_iff slot_wf_def)

lemma older_than_new:
  "doc_wf d \<Longrightarrow> doc_lamport d \<noteq> - 1 \<Longrightarrow> s \<in> set (doc_stamps d) \<Longrightarrow>
     s < stamp_new now (doc_lamport d + 1) origin"
  using doc_stamps_le [of d s] u64_next [of "doc_lamport d"]
  by (auto simp: stamp_less_iff dest: le_less_trans)

lemma name_older:
  "doc_wf d \<Longrightarrow> doc_lamport d \<noteq> - 1 \<Longrightarrow>
     lww_stamp (doc_name d) < stamp_new now (doc_lamport d + 1) origin"
  by (rule older_than_new) (simp_all add: doc_stamps_def)

lemma settings_older:
  "doc_wf d \<Longrightarrow> doc_lamport d \<noteq> - 1 \<Longrightarrow>
     lww_stamp (settings d) < stamp_new now (doc_lamport d + 1) origin"
  by (rule older_than_new) (simp_all add: doc_stamps_def)

lemma slot_older:
  "doc_wf d \<Longrightarrow> doc_lamport d \<noteq> - 1 \<Longrightarrow> bt_get (machines d) i = Some s \<Longrightarrow>
     slot_stamp s < stamp_new now (doc_lamport d + 1) origin"
  by (rule older_than_new) (force simp: doc_stamps_def bt_get_def dest: map_of_SomeD)+

lemma put_newer_slot:
  assumes "doc_wf d" and "doc_lamport d \<noteq> - 1"
    and "slot_stamp s = stamp_new now (doc_lamport d + 1) origin"
  shows "put_slot i s (machines d) = (bt_insert i s (machines d), True)"
  using slot_older [OF assms(1,2), of i _ now origin] assms(3)
  by (auto simp: put_slot_def less_le_not_le split: option.splits)

lemma apply_update_eq:
  "upd_workspace_id u = doc_workspace_id d \<Longrightarrow>
     apply_update u d = Inr (apply_op (upd_op u) (upd_stamp u) (observe (st_lamport (upd_stamp u)) d))"
  by (simp add: apply_update_def check_workspace_def)

lemma edit_is_apply:
  assumes "doc_wf d" and "doc_lamport d \<noteq> - 1"
  shows "apply_update (snd (local_edit now origin op d)) d =
           Inr (fst (local_edit now origin op d), True)"
proof -
  let ?s = "stamp_new now (doc_lamport d + 1) origin"
  have clock: "max (doc_lamport d) (doc_lamport d + 1) = doc_lamport d + 1"
    using u64_next [OF assms(2)] by (simp add: max_def)
  note newer = name_older [OF assms, of now origin] settings_older [OF assms, of now origin]
    put_newer_slot [OF assms]
  show ?thesis
    by (cases op)
      (simp_all add: apply_update_eq local_edit_update edit_defs Let_def merge_part_eqs
        lww_merge_def newer observe_def clock)
qed

section \<open>The operations keep documents well-formed\<close>

lemma doc_wf_create [wf_intros]: "doc_wf (create now fresh name founder)"
  by (simp add: create_def Let_def doc_wf_def bt_empty_def bt_ok_Cons slot_wf_def)

lemma apply_update_wf [wf_intros]:
  assumes "doc_wf d" and "apply_update u d = Inr (d', c)"
  shows "doc_wf d'"
proof -
  let ?l = "max (doc_lamport d) (st_lamport (upd_stamp u))"
  have ok: "bt_ok (machines d)" using assms(1) by (rule doc_wf_ok)
  have d': "d' = fst (apply_op (upd_op u) (upd_stamp u) (observe (st_lamport (upd_stamp u)) d))"
    using assms(2) by (simp add: apply_update_def check_workspace_def split: if_splits)
  have name: "st_lamport (lww_stamp (doc_name d)) \<le> ?l"
    and settings: "st_lamport (lww_stamp (settings d)) \<le> ?l"
    using assms(1) by (auto simp: doc_wf_def le_max_iff_disj)
  have slot: "slot_wf ?l (i, s)" if "bt_get (machines d) i = Some s" for i s
    using doc_wf_slot [OF assms(1) that] by (rule slot_wf_mono) simp
  have put: "slot_wf ?l (i, t)"
    if "join_opt slot_pick (bt_get (machines d) i) (Some s) = Some t" and "slot_wf ?l (i, s)" for i s t
    using join_slot_wf [OF slot _ that(1)] that(2) by simp
  have new: "slot_wf ?l (mr_id r, \<lparr>slot_stamp = upd_stamp u, slot_content = Present r\<rparr>)"
    "slot_wf ?l (i, \<lparr>slot_stamp = upd_stamp u, slot_content = Removed\<rparr>)" for r i
    by (simp_all add: slot_wf_def)
  show ?thesis
    using name settings ok unfolding d'
    by (cases "upd_op u")
      (auto intro!: doc_wfI simp: merge_part_eqs lww_merge_def ok_put_slot get_put_slot
        split: if_splits dest: slot put [OF _ new(1)] put [OF _ new(2)])
qed

text \<open>
  A local edit keeps the document well-formed as long as the clock is not at its last
  value, where the release build's increment would wrap to 0.
\<close>

lemma local_edit_wf [wf_intros]:
  "doc_wf d \<Longrightarrow> doc_lamport d \<noteq> - 1 \<Longrightarrow> doc_wf (fst (local_edit now origin op d))"
  using apply_update_wf [OF _ edit_is_apply] by blast

section \<open>What a merge reports\<close>

text \<open>The slots of a document only ever get newer.\<close>

definition slot_advance :: "machine_slot option \<Rightarrow> machine_slot option \<Rightarrow> bool" where
  "slot_advance x y \<longleftrightarrow> (case y of None \<Rightarrow> False
     | Some t \<Rightarrow> (case x of None \<Rightarrow> True | Some s \<Rightarrow> slot_stamp s < slot_stamp t))"

lemma slot_advance_irrefl: "\<not> slot_advance x x"
  by (cases x) (simp_all add: slot_advance_def)

lemma slot_advance_pick:
  "slot_advance x y \<Longrightarrow> slot_advance x (join_opt slot_pick y z)"
proof (cases x; cases y; cases z)
  fix s t u
  assume "slot_advance x y" and x: "x = Some s" and y: "y = Some t" and z: "z = Some u"
  then have "slot_stamp s < slot_stamp t" by (simp add: slot_advance_def)
  also have "slot_stamp t \<le> slot_stamp (slot_pick t u)" by (rule slot.pick_stamp_ge)
  finally show ?thesis using x y z by (simp add: slot_advance_def)
qed (simp_all add: slot_advance_def)

lemma put_slot_advance:
  assumes "bt_ok m" and "snd (put_slot i s m)"
  shows "slot_advance (bt_get m i) (bt_get (fst (put_slot i s m)) i)"
  using assms
  by (auto simp: get_put_slot put_slot_changed slot_advance_def slot.pick_newer split: option.splits)

lemma merge_slots_unchanged:
  "\<not> snd (merge_slots es (d, c)) \<Longrightarrow> machines (fst (merge_slots es (d, c))) = machines d \<and> \<not> c"
proof (induction es arbitrary: d c)
  case (Cons e es)
  obtain i s where "e = (i, s)" by (cases e)
  with Cons show ?case
    by (fastforce simp: merge_slot_eq Let_def dest: put_slot_unchanged)
qed simp

lemma merge_slots_keep_advance:
  "bt_ok (machines d) \<Longrightarrow> slot_advance x (bt_get (machines d) i) \<Longrightarrow>
     slot_advance x (bt_get (machines (fst (merge_slots es (d, c)))) i)"
proof (induction es arbitrary: d c)
  case (Cons e es)
  obtain j s where "e = (j, s)" by (cases e)
  moreover have "slot_advance x (bt_get (fst (put_slot j s (machines d))) i)"
    using Cons.prems by (auto simp: get_put_slot intro: slot_advance_pick)
  ultimately show ?case
    using Cons by (simp add: merge_slot_eq Let_def ok_put_slot)
qed simp

lemma merge_slots_changed:
  "bt_ok (machines d) \<Longrightarrow> snd (merge_slots es (d, False)) \<Longrightarrow>
     \<exists>i. slot_advance (bt_get (machines d) i) (bt_get (machines (fst (merge_slots es (d, False)))) i)"
proof (induction es arbitrary: d)
  case (Cons e es)
  obtain i s where e: "e = (i, s)" by (cases e)
  let ?d = "d\<lparr>doc_lamport := max (doc_lamport d) (st_lamport (slot_stamp s)),
    machines := fst (put_slot i s (machines d))\<rparr>"
  have step: "merge_slots (e # es) (d, False) = merge_slots es (?d, snd (put_slot i s (machines d)))"
    by (simp add: e merge_slot_eq Let_def observe_def)
  have ok: "bt_ok (machines ?d)" using Cons.prems(1) by (simp add: ok_put_slot)
  show ?case
  proof (cases "snd (put_slot i s (machines d))")
    case True
    have "slot_advance (bt_get (machines d) i) (bt_get (machines ?d) i)"
      using put_slot_advance [OF Cons.prems(1) True] by simp
    from merge_slots_keep_advance [OF ok this] show ?thesis unfolding step by blast
  next
    case False
    then have "machines ?d = machines d" by (simp add: put_slot_unchanged)
    with Cons.IH [OF ok] Cons.prems(2) False step show ?thesis by simp
  qed
qed simp

text \<open>
  The flag a merge returns says exactly whether the name, the settings or a machine slot
  changed.
\<close>

lemma merge_flag_iff:
  assumes "bt_ok (machines d)" and "merge_doc d e = Inr (d', c)"
  shows "c \<longleftrightarrow> d' \<noteq> d\<lparr>doc_lamport := doc_lamport d'\<rparr>"
proof -
  let ?n = "lww_merge (doc_name d) (doc_name e)" and ?s = "lww_merge (settings d) (settings e)"
  define b where "b = d\<lparr>doc_lamport := max (doc_lamport d) (doc_lamport e), doc_name := fst ?n,
    settings := fst ?s\<rparr>"
  have d': "(d', c) = merge_slots (machines e) (b, snd ?n \<or> snd ?s)"
    using assms(2)
    by (auto simp: merge_doc_def check_workspace_def merge_name_eq merge_settings_eq Let_def b_def
        observe_def split: if_splits)
  have fields: "doc_name d' = fst ?n" "settings d' = fst ?s"
      "schema_version d' = schema_version d" "doc_workspace_id d' = doc_workspace_id d"
    using arg_cong [OF d', of fst] by (simp_all add: merge_slots_fst b_def)
  have mach: "machines b = machines d" by (simp add: b_def)
  show ?thesis
  proof
    assume c
    show "d' \<noteq> d\<lparr>doc_lamport := doc_lamport d'\<rparr>"
    proof (cases "snd ?n \<or> snd ?s")
      case True
      then have "doc_name d' \<noteq> doc_name d \<or> settings d' \<noteq> settings d"
        by (auto simp: fields lww_merge_def split: if_splits)
      then show ?thesis by (metis workspace_doc.select_convs(3,6) workspace_doc.surjective workspace_doc.update_convs(4))
    next
      case False
      with d' \<open>c\<close> have "snd (merge_slots (machines e) (b, False))" and fst: "d' = fst (merge_slots (machines e) (b, False))"
        by (metis fst_conv snd_conv)+
      then obtain i where "slot_advance (bt_get (machines d) i) (bt_get (machines d') i)"
        using merge_slots_changed [of b "machines e"] assms(1) mach by auto
      then have "machines d' \<noteq> machines d" by (auto simp: slot_advance_irrefl)
      then show ?thesis by (metis workspace_doc.select_convs(5) workspace_doc.surjective workspace_doc.update_convs(4))
    qed
  next
    assume neq: "d' \<noteq> d\<lparr>doc_lamport := doc_lamport d'\<rparr>"
    show c
    proof (rule ccontr)
      assume "\<not> c"
      then have "\<not> snd (merge_slots (machines e) (b, snd ?n \<or> snd ?s))"
        using d' by (metis snd_conv)
      from merge_slots_unchanged [OF this] d' have "machines d' = machines d" "\<not> snd ?n" "\<not> snd ?s"
        using mach by (metis fst_conv, blast, blast)
      then have "d' = d\<lparr>doc_lamport := doc_lamport d'\<rparr>"
        by (intro workspace_doc.equality) (simp_all add: fields lww_merge_unchanged)
      with neq show False by simp
    qed
  qed
qed

section \<open>What a merge does to one machine\<close>

text \<open>
  The slot of one machine after a merge: the incoming one when it is strictly newer or the
  only one, the local one otherwise. A tombstone therefore outlives every merge with a
  peer whose memory of the machine is not newer.
\<close>

definition newer_slot :: "machine_id \<Rightarrow> workspace_doc \<Rightarrow> workspace_doc \<Rightarrow> bool" where
  "newer_slot i e d \<longleftrightarrow> slot_advance (bt_get (machines d) i) (bt_get (machines e) i)"

lemma join_opt_slot_pick:
  "join_opt slot_pick x y = (if slot_advance x y then y else x)"
  by (cases x; cases y) (simp_all add: slot_advance_def slot.pick_def)

lemma slot_after_merge:
  assumes "bt_ok (machines d)" and "bt_ok (machines e)" and "merge_doc d e = Inr (d', c)"
  shows "bt_get (machines d') i = bt_get (machines (if newer_slot i e d then e else d)) i"
proof -
  have "doc_workspace_id d = doc_workspace_id e"
    using assms(3) by (simp add: merge_doc_def check_workspace_def split: if_splits)
  moreover have "d' = doc_join d e" using assms(3) by (simp add: doc_join_def)
  ultimately show ?thesis
    using doc_join_machines(2) [OF _ assms(1,2), of i]
    by (simp add: join_opt_slot_pick newer_slot_def)
qed

lemma machine_after_merge:
  assumes "bt_ok (machines d)" and "bt_ok (machines e)" and "merge_doc d e = Inr (d', c)"
  shows "machine i d' = machine i (if newer_slot i e d then e else d)"
    and "is_removed i d' = is_removed i (if newer_slot i e d then e else d)"
  using slot_after_merge [OF assms, of i] by (simp_all add: machine_def is_removed_def)

section \<open>Sample documents\<close>

text \<open>Two founders and a third machine, one screen each, for the concrete runs below.\<close>

definition sample_display :: display_info where
  "sample_display = \<lparr>di_id = ''d'', di_name = ''screen'', di_x = 0, di_y = 0,
     di_width = 1920, di_height = 1080, di_scale = 0x3F800000, di_primary = True\<rparr>"

definition sample_machine :: "machine_id \<Rightarrow> i32 \<Rightarrow> machine_record" where
  "sample_machine i x = \<lparr>mr_id = i, mr_display_name = ''pc'', mr_platform = Windows,
     mr_public_key = PubKey [], mr_position = \<lparr>px = x, py = 0\<rparr>, mr_displays = [sample_display],
     mr_input = input_assignment_default, mr_paired_at_ms = 0\<rparr>"

definition sample_doc :: workspace_doc where
  "sample_doc = create 0 7 ''desk'' (sample_machine 1 0)"

definition sample_pair :: workspace_doc where
  "sample_pair = fst (upsert_machine 5 1 (sample_machine 2 1920) sample_doc)"

definition sample_unpaired :: workspace_doc where
  "sample_unpaired = fst (remove_machine 9 1 2 sample_pair)"

lemmas sample_defs = sample_unpaired_def sample_pair_def sample_doc_def sample_machine_def
  sample_display_def input_assignment_default_def

lemma sample_wf: "doc_wf sample_doc" "doc_wf sample_pair" "doc_wf sample_unpaired"
  unfolding doc_wf_def slot_wf_def by code_simp+

section \<open>Properties\<close>

text \<open>
  C8: Every operation keeps a document well-formed: the clock at or past every stamp in it,
  each record under its own id, the machine map in key order. That holds of a new
  workspace, of a local edit (unless the clock is at its last value), of a peer's update
  and of a merge with a peer's well-formed document.
\<close>

theorem operations_keep_wf:
  assumes "doc_wf d" and "doc_wf e" and "doc_lamport d \<noteq> - 1"
    and "apply_update u d = Inr (d1, c1)" and "merge_doc d e = Inr (d2, c2)"
  shows "doc_wf (create now fresh name founder) \<and> doc_wf (fst (local_edit now origin op d)) \<and>
    doc_wf d1 \<and> doc_wf d2"
proof -
  have "doc_workspace_id d = doc_workspace_id e" and "d2 = doc_join d e"
    using assms(5) by (simp_all add: doc_join_def merge_doc_def check_workspace_def split: if_splits)
  then have "doc_wf d2" using assms(1,2) by (simp add: doc_join_wf)
  then show ?thesis
    using doc_wf_create local_edit_wf [OF assms(1,3)] apply_update_wf [OF assms(1,4)] by blast
qed

theorem operations_keep_wf_witness:
  "doc_wf (fst (local_edit 3 1 (SetName ''b'') sample_doc)) \<and> doc_wf (doc_join sample_doc sample_pair)"
proof -
  have "apply_update (snd (local_edit 3 1 (SetName ''b'') sample_doc)) sample_doc =
      Inr (fst (local_edit 3 1 (SetName ''b'') sample_doc), True)"
    by (rule edit_is_apply) (simp_all add: sample_wf, code_simp)
  moreover have "merge_doc sample_doc sample_pair = Inr (doc_join sample_doc sample_pair, True)"
    by code_simp
  moreover have "doc_lamport sample_doc \<noteq> - 1" by code_simp
  ultimately show ?thesis
    using operations_keep_wf [OF sample_wf(1,2)] by blast
qed

text \<open>
  The flag a merge returns is exact: it is set if and only if the name, the settings or
  some machine slot of the document changed. A merge that reports no change moved nothing
  but the clock, so the agent saves and repaints exactly when there is something new.
\<close>

theorem merge_reports_change:
  assumes "bt_ok (machines d)" and "merge_doc d e = Inr (d', c)"
  shows "c \<longleftrightarrow> d' \<noteq> d\<lparr>doc_lamport := doc_lamport d'\<rparr>"
  by (rule merge_flag_iff [OF assms])

text \<open>
  What a merge does to one machine: the peer's entry is taken when its stamp is strictly
  newer (or there was no entry), and the local one is kept otherwise. The same rule decides
  for records and for tombstones, so an unpaired machine stays removed through any merge
  with a peer that only remembers an older record of it.
\<close>

theorem merge_decides_by_stamp:
  assumes "bt_ok (machines d)" and "bt_ok (machines e)" and "merge_doc d e = Inr (d', c)"
  shows "machine i d' = machine i (if newer_slot i e d then e else d) \<and>
    is_removed i d' = is_removed i (if newer_slot i e d then e else d)"
  using machine_after_merge [OF assms] by blast

text \<open>
  A local edit and the update it broadcasts agree: a peer that holds the same document
  and applies the update reaches the editor's new document, and is told that it changed.
  The edit is never lost to a stamp the document already holds.
\<close>

theorem edit_broadcast_agrees:
  assumes "doc_wf d" and "doc_lamport d \<noteq> - 1"
  shows "apply_update (snd (local_edit now origin op d)) d =
           Inr (fst (local_edit now origin op d), True) \<and>
         (\<forall>s \<in> set (doc_stamps d). s < upd_stamp (snd (local_edit now origin op d)))"
  using edit_is_apply [OF assms] older_than_new [OF assms] by (simp add: local_edit_update)

end
