(* ===== verification/Convergence.thy ===== *)
theory Convergence
  imports Workspace
begin

text \<open>
  Why replicas agree. A history says what each register was given at each stamp: no stamp
  is used twice for different contents of one register. Documents whose contents come from
  one history form a join-semilattice under \<open>merge\<close>, and single updates from it commute
  and can be repeated, so whole documents and single updates may arrive in any order and
  any number of times.
\<close>

section \<open>Histories\<close>

datatype register = RName | RSettings | RMachine machine_id

text \<open>The content of a register is the operation that wrote it and its wall-clock time.\<close>

type_synonym history = "register \<Rightarrow> u64 \<times> machine_id \<Rightarrow> op \<times> u64"

fun slot_op :: "machine_id \<Rightarrow> slot_state \<Rightarrow> op" where
  "slot_op i (Present r) = UpsertMachine r"
| "slot_op i Removed = RemoveMachine i"

fun op_register :: "op \<Rightarrow> register" where
  "op_register (SetName n) = RName"
| "op_register (SetSettings s) = RSettings"
| "op_register (UpsertMachine r) = RMachine (mr_id r)"
| "op_register (RemoveMachine i) = RMachine i"

definition written :: "history \<Rightarrow> register \<Rightarrow> stamp \<Rightarrow> op \<Rightarrow> bool" where
  "written H r s op \<longleftrightarrow> H r (stamp_key s) = (op, st_wall_clock_ms s)"

definition slot_written :: "history \<Rightarrow> machine_id \<Rightarrow> machine_slot \<Rightarrow> bool" where
  "slot_written H i s \<longleftrightarrow> written H (RMachine i) (slot_stamp s) (slot_op i (slot_content s))"

text \<open>A well-formed document of workspace \<open>w\<close> whose contents come from the history.\<close>

definition doc_in :: "workspace_id \<Rightarrow> history \<Rightarrow> workspace_doc \<Rightarrow> bool" where
  "doc_in w H d \<longleftrightarrow> doc_wf d \<and> doc_workspace_id d = w \<and> schema_version d = SCHEMA_VERSION \<and>
     written H RName (lww_stamp (doc_name d)) (SetName (lww_value (doc_name d))) \<and>
     written H RSettings (lww_stamp (settings d)) (SetSettings (lww_value (settings d))) \<and>
     (\<forall>i s. bt_get (machines d) i = Some s \<longrightarrow> slot_written H i s)"

definition update_in :: "workspace_id \<Rightarrow> history \<Rightarrow> workspace_update \<Rightarrow> bool" where
  "update_in w H u \<longleftrightarrow> upd_workspace_id u = w \<and>
     written H (op_register (upd_op u)) (upd_stamp u) (upd_op u)"

lemma stamp_eqI:
  "stamp_key s = stamp_key t \<Longrightarrow> st_wall_clock_ms s = st_wall_clock_ms t \<Longrightarrow> (s :: stamp) = t"
  by (simp add: stamp_key_def)

lemma written_unique:
  "written H r s a \<Longrightarrow> written H r t b \<Longrightarrow> stamp_key s = stamp_key t \<Longrightarrow> a = b \<and> s = t"
  by (auto simp: written_def intro: stamp_eqI)

lemma slot_op_inject: "slot_op i a = slot_op i b \<longleftrightarrow> a = b"
  by (cases a; cases b) auto

lemma slot_written_unique:
  "slot_written H i s \<Longrightarrow> slot_written H i t \<Longrightarrow>
     stamp_key (slot_stamp s) = stamp_key (slot_stamp t) \<Longrightarrow> s = t"
  by (auto simp: slot_written_def slot_op_inject dest: written_unique intro!: machine_slot.equality)

lemma name_unique:
  "written H RName (lww_stamp a) (SetName (lww_value a)) \<Longrightarrow>
   written H RName (lww_stamp b) (SetName (lww_value b)) \<Longrightarrow>
   stamp_key (lww_stamp a) = stamp_key (lww_stamp b) \<Longrightarrow> (a :: string lww) = b"
  by (auto dest: written_unique)

lemma settings_unique:
  "written H RSettings (lww_stamp a) (SetSettings (lww_value a)) \<Longrightarrow>
   written H RSettings (lww_stamp b) (SetSettings (lww_value b)) \<Longrightarrow>
   stamp_key (lww_stamp a) = stamp_key (lww_stamp b) \<Longrightarrow> (a :: workspace_settings lww) = b"
  by (auto dest: written_unique)

section \<open>Documents of one history form a semilattice\<close>

lemma doc_inD:
  assumes "doc_in w H d"
  shows "doc_wf d" "doc_workspace_id d = w" "bt_ok (machines d)"
    and "schema_version d = SCHEMA_VERSION"
    and "\<And>i s. bt_get (machines d) i = Some s \<Longrightarrow> slot_written H i s"
  using assms by (auto simp: doc_in_def doc_wf_ok)

lemma doc_join_view:
  assumes "doc_in w H d" and "doc_in w H e"
  shows "doc_workspace_id (doc_join d e) = w"
    and "schema_version (doc_join d e) = SCHEMA_VERSION"
    and "doc_name (doc_join d e) = fst (lww_merge (doc_name d) (doc_name e))"
    and "settings (doc_join d e) = fst (lww_merge (settings d) (settings e))"
    and "doc_lamport (doc_join d e) = max (doc_lamport d) (doc_lamport e)"
    and "bt_get (machines (doc_join d e)) i =
           join_opt slot_pick (bt_get (machines d) i) (bt_get (machines e) i)"
    and "bt_ok (machines (doc_join d e))"
  using assms [THEN doc_inD(2)] assms [THEN doc_inD(3)] assms [THEN doc_inD(1)]
    assms [THEN doc_inD(4)] doc_join_fields [of d e] doc_join_machines [of d e]
  by simp_all

lemma join_opt_slot_written:
  "(\<And>s. x = Some s \<Longrightarrow> slot_written H i s) \<Longrightarrow> (\<And>s. y = Some s \<Longrightarrow> slot_written H i s) \<Longrightarrow>
     join_opt slot_pick x y = Some t \<Longrightarrow> slot_written H i t"
  by (cases x; cases y) (auto simp: slot_pick_def split: if_splits)

lemma doc_join_in:
  assumes d: "doc_in w H d" and e: "doc_in w H e"
  shows "doc_in w H (doc_join d e)"
proof -
  note view = doc_join_view [OF d e]
  have "doc_wf (doc_join d e)"
    using doc_inD [OF d] doc_inD [OF e] by (simp add: doc_join_wf)
  moreover have "slot_written H i s" if "bt_get (machines (doc_join d e)) i = Some s" for i s
    using that doc_inD(5) [OF d] doc_inD(5) [OF e] unfolding view
    by (rule join_opt_slot_written [rotated 2])
  ultimately show ?thesis
    using d e by (auto simp: doc_in_def view lww_merge_def)
qed

text \<open>Two documents of a workspace are equal when their fields and slots are.\<close>

lemma doc_eqI:
  assumes "doc_in w H d" and "doc_in w H e"
    and "doc_name d = doc_name e" and "settings d = settings e"
    and "doc_lamport d = doc_lamport e"
    and "\<And>i. bt_get (machines d) i = bt_get (machines e) i"
  shows "d = e"
proof -
  have "machines d = machines e"
    using assms(1,2) [THEN doc_inD(3)] assms(6) by (intro bt.ext ext)
  with assms(3-5) doc_inD(2,4) [OF assms(1)] doc_inD(2,4) [OF assms(2)] show ?thesis by simp
qed

lemma slots_commute:
  assumes "doc_in w H d" and "doc_in w H e"
  shows "join_opt slot_pick (bt_get (machines d) i) (bt_get (machines e) i) =
         join_opt slot_pick (bt_get (machines e) i) (bt_get (machines d) i)"
  using assms [THEN doc_inD(5)]
  by (intro join_opt_commute slot.pick_commute) (blast intro: slot_written_unique)

interpretation docs: semilattice_on "doc_in w H" doc_join for w H
proof
  fix a b c
  assume a: "doc_in w H a"
  show "doc_join a a = a"
    by (rule doc_eqI [OF doc_join_in [OF a a] a])
      (simp_all add: doc_join_view [OF a a] lww_merge_def, case_tac "bt_get (machines a) i",
        simp_all add: slot.pick_idem)
  assume b: "doc_in w H b"
  show "doc_in w H (doc_join a b)" by (rule doc_join_in [OF a b])
  show "doc_join a b = doc_join b a"
  proof (rule doc_eqI [OF doc_join_in [OF a b] doc_join_in [OF b a]])
    show "doc_name (doc_join a b) = doc_name (doc_join b a)"
      unfolding doc_join_view(3) [OF a b] doc_join_view(3) [OF b a]
      using a b by (intro reg.pick_commute name_unique [of H]) (simp_all add: doc_in_def)
    show "settings (doc_join a b) = settings (doc_join b a)"
      unfolding doc_join_view(4) [OF a b] doc_join_view(4) [OF b a]
      using a b by (intro reg.pick_commute settings_unique [of H]) (simp_all add: doc_in_def)
  qed (simp_all add: doc_join_view [OF a b] doc_join_view [OF b a] max.commute slots_commute [OF a b])
  assume c: "doc_in w H c"
  note ab = doc_join_in [OF a b] and bc = doc_join_in [OF b c]
  show "doc_join (doc_join a b) c = doc_join a (doc_join b c)"
    by (rule doc_eqI [OF doc_join_in [OF ab c] doc_join_in [OF a bc]])
      (simp_all add: doc_join_view [OF ab c] doc_join_view [OF a bc] doc_join_view [OF a b]
        doc_join_view [OF b c] reg.pick_assoc slot.pick_assoc join_opt_assoc max.assoc)
qed

section \<open>Single updates\<close>

text \<open>What a replica holds after a peer's update arrived; a refused one changes nothing.\<close>

definition receive :: "workspace_update \<Rightarrow> workspace_doc \<Rightarrow> workspace_doc" where
  "receive u d = (case apply_update u d of Inl _ \<Rightarrow> d | Inr (d', _) \<Rightarrow> d')"

definition name_delta :: "workspace_update \<Rightarrow> string lww option" where
  "name_delta u = (case upd_op u of SetName n \<Rightarrow> Some (lww_new n (upd_stamp u)) | _ \<Rightarrow> None)"

definition settings_delta :: "workspace_update \<Rightarrow> workspace_settings lww option" where
  "settings_delta u = (case upd_op u of SetSettings s \<Rightarrow> Some (lww_new s (upd_stamp u)) | _ \<Rightarrow> None)"

definition slot_delta :: "workspace_update \<Rightarrow> machine_id \<Rightarrow> machine_slot option" where
  "slot_delta u i =
     (case upd_op u of
        UpsertMachine r \<Rightarrow>
          if mr_id r = i then Some \<lparr>slot_stamp = upd_stamp u, slot_content = Present r\<rparr> else None
      | RemoveMachine j \<Rightarrow>
          if j = i then Some \<lparr>slot_stamp = upd_stamp u, slot_content = Removed\<rparr> else None
      | _ \<Rightarrow> None)"

lemmas delta_defs = name_delta_def settings_delta_def slot_delta_def

lemma receive_view:
  assumes "upd_workspace_id u = doc_workspace_id d" and "bt_ok (machines d)"
  shows "doc_workspace_id (receive u d) = doc_workspace_id d"
    and "schema_version (receive u d) = schema_version d"
    and "doc_lamport (receive u d) = max (doc_lamport d) (st_lamport (upd_stamp u))"
    and "bt_ok (machines (receive u d))"
    and "Some (doc_name (receive u d)) =
           join_opt (\<lambda>a b. fst (lww_merge a b)) (Some (doc_name d)) (name_delta u)"
    and "Some (settings (receive u d)) =
           join_opt (\<lambda>a b. fst (lww_merge a b)) (Some (settings d)) (settings_delta u)"
    and "bt_get (machines (receive u d)) i =
           join_opt slot_pick (bt_get (machines d) i) (slot_delta u i)"
  using assms
  by (cases "upd_op u";
      simp add: receive_def apply_update_eq merge_part_eqs delta_defs ok_put_slot get_put_slot)+

lemma name_delta_written:
  "update_in w H u \<Longrightarrow> name_delta u = Some r \<Longrightarrow> written H RName (lww_stamp r) (SetName (lww_value r))"
  by (auto simp: update_in_def name_delta_def split: op.splits)

lemma settings_delta_written:
  "update_in w H u \<Longrightarrow> settings_delta u = Some r \<Longrightarrow>
     written H RSettings (lww_stamp r) (SetSettings (lww_value r))"
  by (auto simp: update_in_def settings_delta_def split: op.splits)

lemma slot_delta_written: "update_in w H u \<Longrightarrow> slot_delta u i = Some s \<Longrightarrow> slot_written H i s"
  by (auto simp: update_in_def slot_delta_def slot_written_def split: op.splits if_splits)

lemma doc_record_eqI:
  assumes "doc_workspace_id d = doc_workspace_id e" and "schema_version d = schema_version e"
    and "doc_lamport d = doc_lamport e" and "Some (doc_name d) = Some (doc_name e)"
    and "Some (settings d) = Some (settings e)"
    and "bt_ok (machines d)" and "bt_ok (machines e)"
    and "\<And>i. bt_get (machines d) i = bt_get (machines e) i"
  shows "(d :: workspace_doc) = e"
proof -
  have "machines d = machines e" using assms by (intro bt.ext ext)
  with assms show ?thesis by simp
qed

text \<open>Two values from one history can be offered to a register in either order.\<close>

lemma join_swap:
  assumes "\<And>a b c. f (f a b) c = f a (f b c)"
    and "\<And>b c. y = Some b \<Longrightarrow> z = Some c \<Longrightarrow> f b c = f c b"
  shows "join_opt f (join_opt f x y) z = join_opt f (join_opt f x z) y"
  using join_opt_commute [of y z f, OF assms(2)] by (simp add: join_opt_assoc assms(1))

lemma join_twice:
  assumes "\<And>a b c. f (f a b) c = f a (f b c)" and "\<And>a. f a a = a"
  shows "join_opt f (join_opt f x y) y = join_opt f x y"
  using assms by (cases x; cases y) simp_all

interpretation updates: commuting_steps
    "\<lambda>d. doc_workspace_id d = w \<and> bt_ok (machines d)" "update_in w H" receive for w H
proof
  fix d :: workspace_doc and u v
  assume d: "doc_workspace_id d = w \<and> bt_ok (machines d)" and u: "update_in w H u"
  then have wu: "upd_workspace_id u = doc_workspace_id d" by (simp add: update_in_def)
  note du = receive_view [OF wu conjunct2 [OF d]]
  show good: "doc_workspace_id (receive u d) = w \<and> bt_ok (machines (receive u d))"
    using d by (simp add: du)
  have wuu: "upd_workspace_id u = doc_workspace_id (receive u d)" using wu by (simp add: du)
  note duu = receive_view [OF wuu du(4)]
  show "receive u (receive u d) = receive u d"
    by (rule doc_record_eqI)
      (simp_all add: duu du join_twice reg.pick_assoc reg.pick_idem slot.pick_assoc slot.pick_idem)
  assume v: "update_in w H v"
  with d have wv: "upd_workspace_id v = doc_workspace_id d" by (simp add: update_in_def)
  note dv = receive_view [OF wv conjunct2 [OF d]]
  have "upd_workspace_id u = doc_workspace_id (receive v d)"
    and "upd_workspace_id v = doc_workspace_id (receive u d)"
    using wu wv by (simp_all add: du dv)
  note uv = receive_view [OF this(1) dv(4)] receive_view [OF this(2) du(4)]
  note com = name_delta_written [OF u] name_delta_written [OF v] settings_delta_written [OF u]
    settings_delta_written [OF v] slot_delta_written [OF u] slot_delta_written [OF v]
  show "receive u (receive v d) = receive v (receive u d)"
  proof (rule doc_record_eqI)
    show "Some (doc_name (receive u (receive v d))) = Some (doc_name (receive v (receive u d)))"
      unfolding uv du dv
      by (rule join_swap [OF reg.pick_assoc reg.pick_commute]) (blast intro: name_unique com)
    show "Some (settings (receive u (receive v d))) = Some (settings (receive v (receive u d)))"
      unfolding uv du dv
      by (rule join_swap [OF reg.pick_assoc reg.pick_commute]) (blast intro: settings_unique com)
    show "bt_get (machines (receive u (receive v d))) i = bt_get (machines (receive v (receive u d))) i"
      for i unfolding uv du dv
      by (rule join_swap [OF slot.pick_assoc slot.pick_commute]) (blast intro: slot_written_unique com)
  qed (simp_all add: uv du dv max.commute max.left_commute)
qed

section \<open>A merge is a replay\<close>

text \<open>
  The contents of a document as the updates that would have written them. Merging the
  document is the same as seeing its clock and applying these updates one by one, so the
  reconnection path and the live path cannot disagree.
\<close>

definition slot_update :: "workspace_doc \<Rightarrow> machine_id \<times> machine_slot \<Rightarrow> workspace_update" where
  "slot_update e = (\<lambda>(i, s).
     \<lparr>upd_workspace_id = doc_workspace_id e, prev_lamport = 0, upd_stamp = slot_stamp s,
      upd_op = slot_op i (slot_content s)\<rparr>)"

definition contents :: "workspace_doc \<Rightarrow> workspace_update list" where
  "contents e =
     \<lparr>upd_workspace_id = doc_workspace_id e, prev_lamport = 0,
      upd_stamp = lww_stamp (doc_name e), upd_op = SetName (lww_value (doc_name e))\<rparr> #
     \<lparr>upd_workspace_id = doc_workspace_id e, prev_lamport = 0,
      upd_stamp = lww_stamp (settings e), upd_op = SetSettings (lww_value (settings e))\<rparr> #
     map (slot_update e) (machines e)"

lemma receive_eq:
  "upd_workspace_id u = doc_workspace_id d \<Longrightarrow>
     receive u d = fst (apply_op (upd_op u) (upd_stamp u) (observe (st_lamport (upd_stamp u)) d))"
  by (simp add: receive_def apply_update_eq split_def)

lemma receive_slot_update:
  assumes "doc_workspace_id e = doc_workspace_id d" and "slot_wf l (i, s)"
  shows "receive (slot_update e (i, s)) d =
           fst (merge_slot i s (observe (st_lamport (slot_stamp s)) d))"
proof -
  obtain t c where s: "s = \<lparr>slot_stamp = t, slot_content = c\<rparr>" by (cases s)
  with assms show ?thesis
    by (cases c) (simp_all add: slot_update_def receive_eq slot_wf_def)
qed

lemma receive_slots:
  "doc_workspace_id e = doc_workspace_id d \<Longrightarrow> list_all (slot_wf l) es \<Longrightarrow>
     fold receive (map (slot_update e) es) d = fst (merge_slots es (d, c))"
proof (induction es arbitrary: d c)
  case (Cons x es)
  obtain i s where "x = (i, s)" by (cases x)
  with Cons show ?case
    by (simp add: receive_slot_update [of e d l i s] merge_slot_eq Let_def)
qed simp

lemma merge_is_replay:
  assumes "doc_workspace_id d = doc_workspace_id e" and "doc_wf e"
  shows "doc_join d e = fold receive (contents e) (observe (doc_lamport e) d)"
proof -
  let ?b = "observe (doc_lamport e) d"
  let ?n = "fst (lww_merge (doc_name d) (doc_name e))" and ?s = "fst (lww_merge (settings d) (settings e))"
  let ?c = "d\<lparr>doc_name := ?n, doc_lamport := max (doc_lamport d) (doc_lamport e), settings := ?s\<rparr>"
  have le: "st_lamport (lww_stamp (doc_name e)) \<le> doc_lamport e"
    "st_lamport (lww_stamp (settings e)) \<le> doc_lamport e"
    using assms(2) by (simp_all add: doc_wf_def)
  have reg: "lww_new (lww_value r) (lww_stamp r) = r" for r :: "'a lww"
    by (simp add: lww_new_def)
  have "fold receive (contents e) ?b =
      fold receive (map (slot_update e) (machines e)) ?c"
    using assms(1) le
    by (simp add: contents_def receive_eq merge_part_eqs reg observe_def max.absorb1 le_max_iff_disj)
  also have "\<dots> = fst (merge_slots (machines e) (?c, False))"
    using assms by (intro receive_slots [where l = "doc_lamport e"]) (simp_all add: doc_wf_def)
  finally show ?thesis
    using assms(1) by (simp add: doc_join_eq merge_slots_fst observe_def)
qed

section \<open>A sample history\<close>

definition sample_history :: history where
  "sample_history r key =
     (case r of
        RName \<Rightarrow> (SetName ''desk'', 0)
      | RSettings \<Rightarrow> (SetSettings workspace_settings_default, 0)
      | RMachine i \<Rightarrow>
          if fst key = 1 then (UpsertMachine (sample_machine 1 0), 0)
          else if fst key = 2 then (UpsertMachine (sample_machine 2 1920), 5)
          else (RemoveMachine 2, 9))"

lemma doc_in_list:
  "doc_in w H d \<longleftrightarrow> doc_wf d \<and> doc_workspace_id d = w \<and> schema_version d = SCHEMA_VERSION \<and>
     written H RName (lww_stamp (doc_name d)) (SetName (lww_value (doc_name d))) \<and>
     written H RSettings (lww_stamp (settings d)) (SetSettings (lww_value (settings d))) \<and>
     list_all (\<lambda>(i, s). slot_written H i s) (machines d)"
proof (cases "doc_wf d")
  case True
  then show ?thesis
    by (fastforce simp: doc_in_def list_all_iff bt.entries_iff [OF doc_wf_ok])
qed (simp add: doc_in_def)

lemma sample_in_history:
  "doc_in 7 sample_history sample_doc" "doc_in 7 sample_history sample_pair"
  "doc_in 7 sample_history sample_unpaired"
  unfolding doc_in_list slot_written_def written_def by (simp_all only: sample_wf) code_simp+

lemma sample_updates_in:
  "update_in 7 sample_history (snd (remove_machine 9 1 2 sample_pair))"
  "update_in 7 sample_history (snd (upsert_machine 5 1 (sample_machine 2 1920) sample_doc))"
  unfolding update_in_def written_def by code_simp+

section \<open>Properties\<close>

text \<open>
  C7: Merging a peer's whole document (the reconnection path) gives the same document as
  seeing the peer's clock and applying, one after the other, the updates that wrote the
  peer's name, settings and machine slots (the live path).
\<close>

theorem merge_equals_replay:
  assumes "doc_workspace_id d = doc_workspace_id e" and "doc_wf e"
  shows "\<exists>c. merge_doc d e = Inr (fold receive (contents e) (observe (doc_lamport e) d), c)"
  using merge_doc_same_workspace [OF assms(1)] merge_is_replay [OF assms] by simp

theorem merge_equals_replay_witness:
  "\<exists>c. merge_doc sample_doc sample_pair =
     Inr (fold receive (contents sample_pair) (observe (doc_lamport sample_pair) sample_doc), c)"
proof -
  have "doc_workspace_id sample_doc = doc_workspace_id sample_pair" by code_simp
  then show ?thesis by (rule merge_equals_replay [OF _ sample_wf(2)])
qed

text \<open>
  Convergence of documents. Take the documents of any number of machines whose contents
  come from one history (no stamp used for two different writes). Whichever of them a
  machine starts from, and in whatever order and however often it merges the others, all
  machines that merged the same documents hold the same document.
\<close>

theorem merge_order_irrelevant:
  assumes "\<forall>x \<in> set xs. doc_in w H x" and "set xs = set ys" and "a \<in> set xs" and "b \<in> set ys"
  shows "foldl doc_join a xs = foldl doc_join b ys"
proof -
  have "foldl doc_join a xs = foldl doc_join b xs"
    using assms by (intro docs.foldl_start_irrelevant) auto
  also have "\<dots> = foldl doc_join b ys"
    using assms by (intro docs.foldl_set_eq) auto
  finally show ?thesis .
qed

text \<open>
  Convergence of updates. Replicas that start from one document and receive the same
  updates of one history, in any order and with any repetitions, hold the same document.
\<close>

theorem update_order_irrelevant:
  assumes "bt_ok (machines d)" and "\<forall>u \<in> set us. update_in (doc_workspace_id d) H u"
    and "set us = set vs"
  shows "fold receive us d = fold receive vs d"
  using assms by (intro updates.fold_set_eq) auto

end
