(* ===== verification/System.thy ===== *)
theory System
  imports Convergence
begin

text \<open>
  The workspace as a distributed system: machines that hold replicas of one document, edit
  them, and exchange single updates and whole documents over a network that may delay,
  reorder, repeat or lose anything it was given. Each step is an operation of the document
  at one machine. The invariant is the one the convergence results assume: no stamp is ever
  used for two different writes, because a machine's clock is at or past every stamp it
  ever issued.

  A machine enters the workspace by adopting a snapshot and has issued no stamp in it
  before. A machine that gives up its replica and comes back with an older one is outside
  this relation: theorem \<open>reused_stamp_splits\<close> shows what happens then.
\<close>

section \<open>States and steps\<close>

record net_state =
  replicas :: "machine_id \<Rightarrow> workspace_doc option"
  sent_updates :: "workspace_update set"
  sent_docs :: "workspace_doc set"

definition net_init :: "machine_id \<Rightarrow> workspace_doc \<Rightarrow> net_state" where
  "net_init m d = \<lparr>replicas = [m \<mapsto> d], sent_updates = {}, sent_docs = {}\<rparr>"

inductive net_step :: "net_state \<Rightarrow> net_state \<Rightarrow> bool" where
  Edit: "replicas s m = Some d \<Longrightarrow> doc_lamport d \<noteq> - 1 \<Longrightarrow> local_edit now m op d = (d', u) \<Longrightarrow>
    net_step s (s\<lparr>replicas := (replicas s)(m \<mapsto> d'), sent_updates := insert u (sent_updates s)\<rparr>)"
| Deliver: "replicas s m = Some d \<Longrightarrow> u \<in> sent_updates s \<Longrightarrow> apply_update u d = Inr (d', c) \<Longrightarrow>
    net_step s (s\<lparr>replicas := (replicas s)(m \<mapsto> d')\<rparr>)"
| Snapshot: "replicas s m = Some d \<Longrightarrow>
    net_step s (s\<lparr>sent_docs := insert d (sent_docs s)\<rparr>)"
| Reconnect: "replicas s m = Some d \<Longrightarrow> e \<in> sent_docs s \<Longrightarrow> merge_doc d e = Inr (d', c) \<Longrightarrow>
    net_step s (s\<lparr>replicas := (replicas s)(m \<mapsto> d')\<rparr>)"
| Join: "replicas s m = None \<Longrightarrow> e \<in> sent_docs s \<Longrightarrow>
    net_step s (s\<lparr>replicas := (replicas s)(m \<mapsto> e)\<rparr>)"

inductive net_reachable :: "machine_id \<Rightarrow> workspace_doc \<Rightarrow> net_state \<Rightarrow> bool" for m0 d0 where
  Start: "net_reachable m0 d0 (net_init m0 d0)"
| Step: "net_reachable m0 d0 s \<Longrightarrow> net_step s s' \<Longrightarrow> net_reachable m0 d0 s'"

lemma edit_step:
  "replicas s m = Some d \<Longrightarrow> doc_lamport d \<noteq> - 1 \<Longrightarrow>
     net_step s (s\<lparr>replicas := (replicas s)(m \<mapsto> fst (local_edit now m op d)),
       sent_updates := insert (snd (local_edit now m op d)) (sent_updates s)\<rparr>)"
  by (rule Edit [of s m d now op]) simp_all

section \<open>The invariant\<close>

text \<open>A stamp is issued when the machine that made it has a replica whose clock is past it.\<close>

definition issued :: "net_state \<Rightarrow> stamp \<Rightarrow> bool" where
  "issued s t \<longleftrightarrow> (\<exists>d. replicas s (st_origin t) = Some d \<and> st_lamport t \<le> doc_lamport d)"

definition doc_issued :: "net_state \<Rightarrow> workspace_doc \<Rightarrow> bool" where
  "doc_issued s d \<longleftrightarrow> (\<forall>t \<in> set (doc_stamps d). issued s t)"

definition net_inv :: "workspace_id \<Rightarrow> history \<Rightarrow> net_state \<Rightarrow> bool" where
  "net_inv w H s \<longleftrightarrow>
     (\<forall>m d. replicas s m = Some d \<longrightarrow> doc_in w H d \<and> doc_issued s d) \<and>
     (\<forall>d \<in> sent_docs s. doc_in w H d \<and> doc_issued s d) \<and>
     (\<forall>u \<in> sent_updates s. update_in w H u \<and> issued s (upd_stamp u))"

lemma net_invD:
  assumes "net_inv w H s"
  shows "replicas s m = Some d \<Longrightarrow> doc_in w H d" "replicas s m = Some d \<Longrightarrow> doc_issued s d"
    and "d \<in> sent_docs s \<Longrightarrow> doc_in w H d" "d \<in> sent_docs s \<Longrightarrow> doc_issued s d"
    and "u \<in> sent_updates s \<Longrightarrow> update_in w H u" "u \<in> sent_updates s \<Longrightarrow> issued s (upd_stamp u)"
  using assms by (auto simp: net_inv_def)

text \<open>Replicas only move their clocks forward, so what was issued stays issued.\<close>

definition clocks_grow :: "net_state \<Rightarrow> net_state \<Rightarrow> bool" where
  "clocks_grow s s' \<longleftrightarrow> (\<forall>m d. replicas s m = Some d \<longrightarrow>
     (\<exists>d'. replicas s' m = Some d' \<and> doc_lamport d \<le> doc_lamport d'))"

lemma issued_mono: "clocks_grow s s' \<Longrightarrow> issued s t \<Longrightarrow> issued s' t"
  unfolding clocks_grow_def issued_def by (meson order_trans)

lemma doc_issued_mono: "clocks_grow s s' \<Longrightarrow> doc_issued s d \<Longrightarrow> doc_issued s' d"
  by (auto simp: doc_issued_def intro: issued_mono)

lemma clocks_grow_upd:
  "(\<And>d. replicas s m = Some d \<Longrightarrow> doc_lamport d \<le> doc_lamport d') \<Longrightarrow>
   replicas s' = (replicas s)(m \<mapsto> d') \<Longrightarrow> clocks_grow s s'"
  by (auto simp: clocks_grow_def)

lemma clocks_grow_same: "replicas s' = replicas s \<Longrightarrow> clocks_grow s s'"
  by (auto simp: clocks_grow_def)

text \<open>Replacing one replica by a document that is as good keeps the invariant.\<close>

lemma net_inv_replica:
  assumes "net_inv w H s" and "clocks_grow s s'" and "replicas s' = (replicas s)(m \<mapsto> d')"
    and "sent_docs s' = sent_docs s" and "sent_updates s' = sent_updates s"
    and "doc_in w H d'" and "doc_issued s' d'"
  shows "net_inv w H s'"
  unfolding net_inv_def
proof (intro conjI allI ballI impI)
  fix k d
  assume "replicas s' k = Some d"
  then show "doc_in w H d" and "doc_issued s' d"
    using assms(3,6,7) net_invD(1,2) [OF assms(1), of k d] doc_issued_mono [OF assms(2), of d]
    by (auto split: if_splits)
qed (use assms(4,5) net_invD(3-6) [OF assms(1)] doc_issued_mono [OF assms(2)] issued_mono [OF assms(2)]
  in auto)

section \<open>Stamps of documents after an operation\<close>

lemma stamps_slot: "bt_ok (machines d) \<Longrightarrow>
    set (doc_stamps d) = {lww_stamp (doc_name d), lww_stamp (settings d)} \<union>
      {slot_stamp s |s i. bt_get (machines d) i = Some s}"
  unfolding doc_stamps_def by (force simp: bt.entries_iff [symmetric])

lemma stamps_of_join:
  assumes "doc_in w H d" and "doc_in w H e"
  shows "set (doc_stamps (doc_join d e)) \<subseteq> set (doc_stamps d) \<union> set (doc_stamps e)"
proof -
  have "join_opt slot_pick x y = Some s \<Longrightarrow> x = Some s \<or> y = Some s" for x y s
    by (cases x; cases y) (auto simp: slot_pick_def split: if_splits)
  then show ?thesis
    using assms [THEN doc_inD(3)]
    by (auto simp: stamps_slot doc_join_view [OF assms] lww_merge_def) blast+
qed

lemma stamps_of_receive:
  assumes "upd_workspace_id u = doc_workspace_id d" and "bt_ok (machines d)"
  shows "set (doc_stamps (receive u d)) \<subseteq> insert (upd_stamp u) (set (doc_stamps d))"
proof -
  note view = receive_view [OF assms]
  have "join_opt slot_pick (bt_get (machines d) i) (slot_delta u i) = Some s \<Longrightarrow>
      slot_stamp s = upd_stamp u \<or> bt_get (machines d) i = Some s" for i s
    by (cases "bt_get (machines d) i"; cases "upd_op u")
      (auto simp: slot_delta_def slot_pick_def split: if_splits)
  moreover have "lww_stamp (doc_name (receive u d)) \<in> {upd_stamp u, lww_stamp (doc_name d)}"
    and "lww_stamp (settings (receive u d)) \<in> {upd_stamp u, lww_stamp (settings d)}"
    using view(5,6) by (auto simp: delta_defs lww_merge_def split: op.splits if_splits)
  ultimately show ?thesis
    using assms(2) view(4) by (auto simp: stamps_slot view(7))
qed

lemma receive_in:
  assumes d: "doc_in w H d" and u: "update_in w H u"
  shows "doc_in w H (receive u d)"
proof -
  have w: "upd_workspace_id u = doc_workspace_id d"
    using d u by (simp add: doc_in_def update_in_def)
  note view = receive_view [OF w doc_inD(3) [OF d]]
  have "doc_wf (receive u d)"
    using apply_update_wf [OF doc_inD(1) [OF d]] doc_inD(1) [OF d]
    by (auto simp: receive_def split: sum.splits)
  moreover have "slot_written H i s" if "bt_get (machines (receive u d)) i = Some s" for i s
    using that unfolding view
    by (rule join_opt_slot_written [rotated 2])
      (auto intro: doc_inD(5) [OF d] slot_delta_written [OF u])
  moreover have "written H RName (lww_stamp (doc_name (receive u d))) (SetName (lww_value (doc_name (receive u d))))"
    using view(5) d name_delta_written [OF u]
    by (cases "name_delta u") (auto simp: doc_in_def lww_merge_def split: if_splits)
  moreover have "written H RSettings (lww_stamp (settings (receive u d)))
      (SetSettings (lww_value (settings (receive u d))))"
    using view(6) d settings_delta_written [OF u]
    by (cases "settings_delta u") (auto simp: doc_in_def lww_merge_def split: if_splits)
  ultimately show ?thesis
    using doc_inD [OF d] by (simp add: doc_in_def view)
qed

section \<open>Every step keeps the invariant\<close>

text \<open>A new stamp extends the history without touching what was written before.\<close>

definition extend :: "history \<Rightarrow> workspace_update \<Rightarrow> history" where
  "extend H u = H(op_register (upd_op u) := (H (op_register (upd_op u)))
     (stamp_key (upd_stamp u) := (upd_op u, st_wall_clock_ms (upd_stamp u))))"

lemma written_extend:
  "written H r t a \<Longrightarrow> stamp_key t \<noteq> stamp_key (upd_stamp u) \<Longrightarrow> written (extend H u) r t a"
  by (auto simp: written_def extend_def)

lemma update_in_extend_self: "upd_workspace_id u = w \<Longrightarrow> update_in w (extend H u) u"
  by (simp add: update_in_def written_def extend_def)

lemma update_in_extend:
  "update_in w H v \<Longrightarrow> stamp_key (upd_stamp v) \<noteq> stamp_key (upd_stamp u) \<Longrightarrow>
     update_in w (extend H u) v"
  by (simp add: update_in_def written_extend)

lemma doc_in_extend:
  assumes "doc_in w H d" and "\<forall>t \<in> set (doc_stamps d). stamp_key t \<noteq> stamp_key (upd_stamp u)"
  shows "doc_in w (extend H u) d"
  using assms stamps_slot [OF doc_inD(3) [OF assms(1)]]
  by (auto simp: doc_in_def slot_written_def intro!: written_extend)

text \<open>A stamp that was issued is not the one a machine is about to issue.\<close>

lemma issued_old:
  assumes "issued s t" and "replicas s m = Some d" and "doc_lamport d \<noteq> - 1"
  shows "stamp_key t \<noteq> stamp_key (stamp_new now (doc_lamport d + 1) m)"
  using assms u64_next [OF assms(3)] by (auto simp: issued_def stamp_key_def)

lemma edit_keeps_inv:
  assumes inv: "net_inv w H s" and d: "replicas s m = Some d" and clock: "doc_lamport d \<noteq> - 1"
    and e: "local_edit now m op d = (d', u)"
    and s': "s' = s\<lparr>replicas := (replicas s)(m \<mapsto> d'), sent_updates := insert u (sent_updates s)\<rparr>"
  shows "net_inv w (extend H u) s'"
proof -
  note din = net_invD(1) [OF inv d]
  have u: "upd_workspace_id u = w" "upd_stamp u = stamp_new now (doc_lamport d + 1) m"
    using local_edit_update [of now m op d] e doc_inD(2) [OF din] by simp_all
  have d': "d' = receive u d" and l': "doc_lamport d' = doc_lamport d + 1"
    using edit_is_apply [OF doc_inD(1) [OF din] clock, of now m op]
      local_edit_fields(3) [of now m op d] e
    by (simp_all add: receive_def)
  have old: "issued s t \<Longrightarrow> stamp_key t \<noteq> stamp_key (upd_stamp u)" for t
    using issued_old [OF _ d clock] u(2) by simp
  have grow: "clocks_grow s s'"
    using d s' l' u64_next [OF clock] by (intro clocks_grow_upd) auto
  have ext: "doc_in w H a \<Longrightarrow> doc_issued s a \<Longrightarrow> doc_in w (extend H u) a" for a
    by (rule doc_in_extend) (auto simp: doc_issued_def dest: old)
  have self: "issued s' (upd_stamp u)"
    using s' by (simp add: issued_def u(2) l')
  have "doc_in w (extend H u) d'"
    unfolding d' using ext [OF din net_invD(2) [OF inv d]] update_in_extend_self [OF u(1)]
    by (rule receive_in)
  moreover have "doc_issued s' d'"
    using stamps_of_receive [of u d] u(1) doc_inD(2,3) [OF din] self
      doc_issued_mono [OF grow net_invD(2) [OF inv d]]
    by (auto simp: doc_issued_def d')
  ultimately show ?thesis
    unfolding net_inv_def
    using s' self ext net_invD [OF inv] doc_issued_mono [OF grow] issued_mono [OF grow] old
    by (auto intro: update_in_extend update_in_extend_self [OF u(1)] split: if_splits)
qed

lemma deliver_keeps_inv:
  assumes inv: "net_inv w H s" and d: "replicas s m = Some d" and u: "u \<in> sent_updates s"
    and e: "apply_update u d = Inr (d', c)" and s': "s' = s\<lparr>replicas := (replicas s)(m \<mapsto> d')\<rparr>"
  shows "net_inv w H s'"
proof -
  note din = net_invD(1) [OF inv d] and uin = net_invD(5) [OF inv u]
  have d': "d' = receive u d" using e by (simp add: receive_def)
  have w: "upd_workspace_id u = doc_workspace_id d"
    using din uin by (simp add: doc_in_def update_in_def)
  have grow: "clocks_grow s s'"
    using d s' receive_view(3) [OF w doc_inD(3) [OF din]] by (intro clocks_grow_upd) (auto simp: d')
  have "doc_issued s' d'"
    using stamps_of_receive [OF w doc_inD(3) [OF din]] issued_mono [OF grow net_invD(6) [OF inv u]]
      doc_issued_mono [OF grow net_invD(2) [OF inv d]]
    by (auto simp: doc_issued_def d')
  then show ?thesis
    using receive_in [OF din uin] s' by (intro net_inv_replica [OF inv grow]) (simp_all add: d')
qed

lemma reconnect_keeps_inv:
  assumes inv: "net_inv w H s" and d: "replicas s m = Some d" and e: "e \<in> sent_docs s"
    and run: "merge_doc d e = Inr (d', c)" and s': "s' = s\<lparr>replicas := (replicas s)(m \<mapsto> d')\<rparr>"
  shows "net_inv w H s'"
proof -
  note din = net_invD(1) [OF inv d] and ein = net_invD(3) [OF inv e]
  have d': "d' = doc_join d e" using run by (simp add: doc_join_def)
  have grow: "clocks_grow s s'"
    using d s' doc_join_view(5) [OF din ein] by (intro clocks_grow_upd) (auto simp: d')
  have "doc_issued s' d'"
    using stamps_of_join [OF din ein] doc_issued_mono [OF grow net_invD(2) [OF inv d]]
      doc_issued_mono [OF grow net_invD(4) [OF inv e]]
    by (auto simp: doc_issued_def d')
  then show ?thesis
    using doc_join_in [OF din ein] s' by (intro net_inv_replica [OF inv grow]) (simp_all add: d')
qed

lemma join_keeps_inv:
  assumes inv: "net_inv w H s" and "replicas s m = None" and e: "e \<in> sent_docs s"
    and s': "s' = s\<lparr>replicas := (replicas s)(m \<mapsto> e)\<rparr>"
  shows "net_inv w H s'"
proof -
  have grow: "clocks_grow s s'" using assms by (intro clocks_grow_upd) auto
  show ?thesis
    using net_invD(3) [OF inv e] doc_issued_mono [OF grow net_invD(4) [OF inv e]] s'
    by (intro net_inv_replica [OF inv grow]) simp_all
qed

lemma step_keeps_inv:
  assumes "net_inv w H s" and "net_step s s'"
  shows "\<exists>H'. net_inv w H' s'"
  using assms(2)
proof cases
  case Edit
  then show ?thesis using edit_keeps_inv [OF assms(1)] by blast
next
  case Deliver
  then show ?thesis using deliver_keeps_inv [OF assms(1)] by blast
next
  case (Snapshot m d)
  then have "net_inv w H s'"
    using net_invD [OF assms(1)] by (simp add: net_inv_def issued_def doc_issued_def)
  then show ?thesis by (rule exI [of _ H])
next
  case Reconnect
  then show ?thesis using reconnect_keeps_inv [OF assms(1)] by blast
next
  case Join
  then show ?thesis using join_keeps_inv [OF assms(1)] by blast
qed

text \<open>A founder's document: everything in it was written at creation.\<close>

definition create_history :: "workspace_doc \<Rightarrow> history" where
  "create_history d r key =
     (case r of
        RName \<Rightarrow> (SetName (lww_value (doc_name d)), st_wall_clock_ms (lww_stamp (doc_name d)))
      | RSettings \<Rightarrow> (SetSettings (lww_value (settings d)), st_wall_clock_ms (lww_stamp (settings d)))
      | RMachine i \<Rightarrow>
          (case bt_get (machines d) i of
             Some s \<Rightarrow> (slot_op i (slot_content s), st_wall_clock_ms (slot_stamp s))
           | None \<Rightarrow> (RemoveMachine i, 0)))"

lemma create_inv:
  assumes "d = create now fresh name founder"
  shows "net_inv fresh (create_history d) (net_init (mr_id founder) d)"
proof -
  have "doc_in fresh (create_history d) d"
    using doc_wf_create [of now fresh name founder] assms
    by (auto simp: doc_in_def written_def create_history_def slot_written_def)
      (simp_all add: create_def Let_def SCHEMA_VERSION_def)
  moreover have "doc_issued (net_init (mr_id founder) d) d"
    by (simp add: doc_issued_def issued_def net_init_def doc_stamps_def assms create_def Let_def
        bt_empty_def)
  ultimately show ?thesis by (simp add: net_inv_def net_init_def)
qed

lemma reachable_inv:
  assumes "net_reachable m d s" and "m = mr_id founder" and "d = create now fresh name founder"
  shows "\<exists>H. net_inv fresh H s"
  using assms
proof (induction rule: net_reachable.induct)
  case Start
  then show ?case using create_inv by blast
next
  case Step
  then show ?case using step_keeps_inv by blast
qed

section \<open>What reachability gives\<close>

lemma reachable_agree:
  assumes "net_reachable (mr_id founder) (create now w name founder) s"
    and "\<forall>x \<in> set xs. \<exists>m. replicas s m = Some x" and "set xs = set ys"
    and "a \<in> set xs" and "b \<in> set ys"
  shows "foldl doc_join a xs = foldl doc_join b ys"
proof -
  obtain H where inv: "net_inv w H s" using reachable_inv [OF assms(1) refl refl] ..
  have carrier: "\<forall>x \<in> set xs. doc_in w H x" using assms(2) net_invD(1) [OF inv] by blast
  have "foldl doc_join a xs = foldl doc_join b xs"
    using carrier assms(3-5) by (intro docs.foldl_start_irrelevant) auto
  also have "\<dots> = foldl doc_join b ys"
    using carrier assms(3-5) by (intro docs.foldl_set_eq) auto
  finally show ?thesis .
qed

lemma reachable_updates:
  assumes "net_reachable (mr_id founder) (create now w name founder) s"
    and "replicas s m = Some d" and "set us \<subseteq> sent_updates s" and "set us = set vs"
  shows "fold receive us d = fold receive vs d"
proof -
  obtain H where inv: "net_inv w H s" using reachable_inv [OF assms(1) refl refl] ..
  have "doc_in w H d" by (rule net_invD(1) [OF inv assms(2)])
  then show ?thesis
    using assms(3,4) net_invD(5) [OF inv] by (intro updates.fold_set_eq) (auto dest: doc_inD)
qed

lemma same_doc_merge:
  assumes "doc_workspace_id d = doc_workspace_id e" and "bt_ok (machines d)"
    and "machines e = machines d" and "doc_wf e" and "doc_lamport d = doc_lamport e"
    and "lww_stamp (doc_name e) \<le> lww_stamp (doc_name d)"
    and "lww_stamp (settings e) \<le> lww_stamp (settings d)"
  shows "merge_doc d e = Inr (d, False)"
proof -
  have join: "doc_join d e = d"
    using doc_join_machines [of d e] assms
    by (intro doc_record_eqI)
      (simp_all add: doc_join_fields [OF assms(1,4)] reg.pick_older, case_tac "bt_get (machines d) i",
        simp_all add: slot.pick_idem)
  obtain c where "merge_doc d e = Inr (doc_join d e, c)"
    using merge_doc_same_workspace [OF assms(1)] by blast
  with merge_flag_iff [OF assms(2), of e "doc_join d e" c] join show ?thesis by simp
qed

lemma reused_stamp:
  assumes "doc_wf d" and "doc_lamport d \<noteq> - 1"
  shows "merge_doc (fst (set_name t m x d)) (fst (set_name t' m y d)) = Inr (fst (set_name t m x d), False)"
proof -
  note wf = local_edit_wf [OF assms, of t m "SetName x"] local_edit_wf [OF assms, of t' m "SetName y"]
  show ?thesis
    using wf doc_wf_ok [OF wf(1)]
    by (intro same_doc_merge) (simp_all add: set_name_def tick_def Let_def stamp_order_defs stamp_key_def)
qed

section \<open>A sample run\<close>

definition sample_net :: net_state where
  "sample_net = \<lparr>replicas = [1 \<mapsto> sample_unpaired, 2 \<mapsto> sample_pair],
     sent_updates = {snd (remove_machine 9 1 2 sample_pair),
       snd (upsert_machine 5 1 (sample_machine 2 1920) sample_doc)},
     sent_docs = {sample_pair}\<rparr>"

lemma sample_reachable:
  "net_reachable (mr_id (sample_machine 1 0)) (create 0 7 ''desk'' (sample_machine 1 0)) sample_net"
proof -
  let ?u = "snd (upsert_machine 5 1 (sample_machine 2 1920) sample_doc)"
  let ?v = "snd (remove_machine 9 1 2 sample_pair)"
  let ?a = "net_init 1 sample_doc"
  let ?b = "?a\<lparr>replicas := (replicas ?a)(1 \<mapsto> sample_pair), sent_updates := insert ?u (sent_updates ?a)\<rparr>"
  let ?c = "?b\<lparr>sent_docs := insert sample_pair (sent_docs ?b)\<rparr>"
  let ?d = "?c\<lparr>replicas := (replicas ?c)(2 \<mapsto> sample_pair)\<rparr>"
  let ?e = "?d\<lparr>replicas := (replicas ?d)(1 \<mapsto> sample_unpaired), sent_updates := insert ?v (sent_updates ?d)\<rparr>"
  have "doc_lamport sample_doc \<noteq> - 1" "doc_lamport sample_pair \<noteq> - 1" by code_simp+
  note clock = this
  have "net_step ?a ?b"
    using edit_step [of ?a 1 sample_doc 5 "UpsertMachine (sample_machine 2 1920)"] clock(1)
    by (simp add: net_init_def sample_pair_def)
  moreover have "net_step ?d ?e"
    using edit_step [of ?d 1 sample_pair 9 "RemoveMachine 2"] clock(2)
    by (simp add: net_init_def sample_unpaired_def)
  moreover have "net_step ?b ?c" by (rule Snapshot [of _ 1]) simp
  moreover have "net_step ?c ?d" by (rule Join) (simp_all add: net_init_def)
  moreover have "net_reachable 1 sample_doc ?a" by (rule Start)
  ultimately have "net_reachable 1 sample_doc ?e" by (blast intro: Step)
  moreover have "?e = sample_net" by (simp add: sample_net_def net_init_def fun_eq_iff)
  ultimately show ?thesis by (simp add: sample_doc_def sample_machine_def)
qed

section \<open>Properties\<close>

text \<open>
  C1: Replicas agree after an exchange. In every state the distributed workspace can reach
  from its creation, by edits on any machine, deliveries that are delayed, repeated or
  lost, snapshots, reconnections and machines joining, take any replicas. Every machine
  that merges all of them, in any order and with any repetitions, ends with the same
  document.
\<close>

theorem reachable_replicas_agree:
  assumes "net_reachable (mr_id founder) (create now w name founder) s"
    and "\<forall>x \<in> set xs. \<exists>m. replicas s m = Some x" and "set xs = set ys"
    and "a \<in> set xs" and "b \<in> set ys"
  shows "foldl doc_join a xs = foldl doc_join b ys"
  using assms by (rule reachable_agree)

theorem reachable_replicas_agree_witness:
  "foldl doc_join sample_pair [sample_unpaired, sample_pair] =
   foldl doc_join sample_unpaired [sample_pair, sample_unpaired, sample_pair]"
proof (rule reachable_replicas_agree [OF sample_reachable])
  have "replicas sample_net 1 = Some sample_unpaired" "replicas sample_net 2 = Some sample_pair"
    by (simp_all add: sample_net_def)
  then show "\<forall>x \<in> set [sample_unpaired, sample_pair]. \<exists>m. replicas sample_net m = Some x" by auto
qed auto

text \<open>
  What goes wrong when a machine uses a stamp twice, as it does when it edits, loses the
  edit (a restored backup, or a workspace given up and joined again through a peer that had
  not seen the edit) and edits again from the older document. The two documents carry
  equal stamps for different names; each merge keeps its own side, reports no change and
  even the clocks agree, so the two replicas stay different for good.
\<close>

theorem reused_stamp_splits:
  assumes "doc_wf d" and "doc_lamport d \<noteq> - 1" and "x \<noteq> y"
  shows "let a = fst (set_name t m x d); b = fst (set_name t' m y d)
    in merge_doc a b = Inr (a, False) \<and> merge_doc b a = Inr (b, False) \<and> a \<noteq> b"
proof -
  have name: "lww_value (doc_name (fst (set_name n m v d))) = v" for n v
    by (simp add: set_name_def tick_def Let_def)
  then have "fst (set_name t m x d) \<noteq> fst (set_name t' m y d)"
    using assms(3) by metis
  then show ?thesis by (simp add: Let_def reused_stamp [OF assms(1,2)])
qed

end
