(* ===== verification/Layout.thy ===== *)
theory Layout
  imports Workspace
begin

text \<open>
  Cursor routing (\<^verbatim>\<open>crates/is-core/src/layout.rs\<close>): where a pointer that would leave the
  machine it is on ends up, given the document and the set of machines that are online.

  Distances are \<^verbatim>\<open>i32\<close> differences, which wrap in the release build; on a desk (all
  coordinates within \<open>2 ^ 30\<close>) they are exact. The set \<^verbatim>\<open>online\<close> is only asked for
  membership. \<^verbatim>\<open>sort_by_key\<close> is a stable sort by the signed distance and the machine id.
\<close>

section \<open>Operations\<close>

datatype direction = Left | Right | Up | Down

fun is_horizontal :: "direction \<Rightarrow> bool" where
  "is_horizontal Left = True"
| "is_horizontal Right = True"
| "is_horizontal Up = False"
| "is_horizontal Down = False"

datatype resolution = Stay point | Move machine_id point

record candidate =
  cand_machine :: machine_id
  cand_bounds :: rect
  cand_distance :: i32

definition direction_of :: "point \<Rightarrow> point \<Rightarrow> direction option" where
  "direction_of exit target =
     (let dx = px target - px exit; dy = py target - py exit in
      if dx = 0 \<and> dy = 0 then None
      else if sint (i32_abs dy) \<le> sint (i32_abs dx)
      then Some (if 0 < sint dx then Right else Left)
      else Some (if 0 < sint dy then Down else Up))"

fun ray_distance :: "direction \<Rightarrow> point \<Rightarrow> rect \<Rightarrow> i32 option" where
  "ray_distance Right exit b =
     (if sint (ry b) \<le> sint (py exit) \<and> sint (py exit) < sint (max_y b) \<and> sint (px exit) < sint (rx b)
      then Some (rx b - px exit) else None)"
| "ray_distance Left exit b =
     (if sint (ry b) \<le> sint (py exit) \<and> sint (py exit) < sint (max_y b) \<and> sint (max_x b) \<le> sint (px exit)
      then Some (px exit - max_x b) else None)"
| "ray_distance Down exit b =
     (if sint (rx b) \<le> sint (px exit) \<and> sint (px exit) < sint (max_x b) \<and> sint (py exit) < sint (ry b)
      then Some (ry b - py exit) else None)"
| "ray_distance Up exit b =
     (if sint (rx b) \<le> sint (px exit) \<and> sint (px exit) < sint (max_x b) \<and> sint (max_y b) \<le> sint (py exit)
      then Some (py exit - max_y b) else None)"

definition candidate_of :: "point \<Rightarrow> direction \<Rightarrow> machine_record \<Rightarrow> candidate option" where
  "candidate_of exit dir m =
     Option.bind (bounds m) (\<lambda>b.
     Option.bind (ray_distance dir exit b) (\<lambda>distance.
     Some \<lparr>cand_machine = mr_id m, cand_bounds = b, cand_distance = distance\<rparr>))"

definition cand_key :: "candidate \<Rightarrow> int \<times> machine_id" where
  "cand_key c = (sint (cand_distance c), cand_machine c)"

definition candidates_along ::
  "workspace_doc \<Rightarrow> machine_id \<Rightarrow> point \<Rightarrow> direction \<Rightarrow> candidate list" where
  "candidates_along d current exit dir =
     sort_key cand_key
       (List.map_filter (candidate_of exit dir)
         (filter (\<lambda>m. mr_id m \<noteq> current) (machines_present d)))"

definition entry_point :: "rect \<Rightarrow> point \<Rightarrow> direction \<Rightarrow> point" where
  "entry_point b exit dir =
     clamp b
       (if is_horizontal dir
        then point_new (case dir of Right \<Rightarrow> rx b | _ \<Rightarrow> i32_saturating_sub (max_x b) 1) (py exit)
        else point_new (px exit) (case dir of Down \<Rightarrow> ry b | _ \<Rightarrow> i32_saturating_sub (max_y b) 1))"

definition pick_candidate ::
  "offline_edge_behavior \<Rightarrow> machine_id set \<Rightarrow> candidate list \<Rightarrow> candidate option" where
  "pick_candidate edge online cs =
     (case edge of
        Block \<Rightarrow>
          (case cs of
             c # _ \<Rightarrow> if cand_machine c \<notin> online then None else Some c
           | [] \<Rightarrow> None)
      | SkipOver \<Rightarrow> find (\<lambda>c. cand_machine c \<in> online) cs)"

definition resolve_cursor ::
  "workspace_doc \<Rightarrow> machine_id set \<Rightarrow> machine_id \<Rightarrow> point \<Rightarrow> resolution" where
  "resolve_cursor d online current target =
     (case Option.bind (machine current d) bounds of
        None \<Rightarrow> Stay target
      | Some b \<Rightarrow>
          if contains b target then Stay target
          else
            let exit = clamp b target in
            (case direction_of exit target of
               None \<Rightarrow> Stay exit
             | Some dir \<Rightarrow>
                 (case pick_candidate (offline_edge (lww_value (settings d))) online
                         (candidates_along d current exit dir) of
                    Some c \<Rightarrow> Move (cand_machine c) (entry_point (cand_bounds c) exit dir)
                  | None \<Rightarrow> Stay exit)))"

definition fallback_owner ::
  "workspace_doc \<Rightarrow> machine_id set \<Rightarrow> machine_id \<Rightarrow> machine_id option" where
  "fallback_owner d online preferred =
     (if preferred \<in> online \<and> machine preferred d \<noteq> None then Some preferred
      else
        (case filter (\<lambda>i. i \<in> online) (map mr_id (machines_present d)) of
           [] \<Rightarrow> None
         | i # is \<Rightarrow> Some (foldl min i is)))"

section \<open>Machines of a well-formed document\<close>

lemma set_machines_present:
  "doc_wf d \<Longrightarrow> r \<in> set (machines_present d) \<longleftrightarrow> machine (mr_id r) d = Some r"
proof
  assume wf: "doc_wf d" and "r \<in> set (machines_present d)"
  then obtain i s where "(i, s) \<in> set (machines d)" and s: "present (slot_content s) = Some r"
    by (auto simp: machines_present_def bt_values_def set_map_filter)
  then have get: "bt_get (machines d) i = Some s"
    using bt.entries_iff [OF doc_wf_ok [OF wf]] by blast
  then have "mr_id r = i"
    using doc_wf_slot [OF wf get] s by (cases "slot_content s") (auto simp: slot_wf_def)
  with get s show "machine (mr_id r) d = Some r" by (simp add: machine_def)
next
  assume "doc_wf d" and "machine (mr_id r) d = Some r"
  then obtain s where "bt_get (machines d) (mr_id r) = Some s" and "present (slot_content s) = Some r"
    by (auto simp: machine_def split: option.splits)
  then show "r \<in> set (machines_present d)"
    by (force simp: machines_present_def bt_values_def set_map_filter bt_get_def dest: map_of_SomeD)
qed

lemma machine_id_of: "doc_wf d \<Longrightarrow> machine i d = Some r \<Longrightarrow> mr_id r = i"
  using doc_wf_slot [of d i]
  by (auto simp: machine_def slot_wf_def split: option.splits slot_state.splits elim!: present.elims)

lemma machines_present_ids:
  "doc_wf d \<Longrightarrow> mr_id ` set (machines_present d) = {i. machine i d \<noteq> None}"
  by (auto simp: set_machines_present dest: machine_id_of) (metis image_eqI machine_id_of mem_Collect_eq set_machines_present)

section \<open>Candidates\<close>

text \<open>
  A machine is on the ray when it is another machine of the workspace, its displays have a
  bounding box, and the box covers the exit point across the direction of travel and lies
  ahead of it.
\<close>

definition on_ray :: "workspace_doc \<Rightarrow> machine_id \<Rightarrow> point \<Rightarrow> direction \<Rightarrow> candidate \<Rightarrow> bool" where
  "on_ray d current exit dir c \<longleftrightarrow> cand_machine c \<noteq> current \<and>
     (\<exists>r. machine (cand_machine c) d = Some r \<and> bounds r = Some (cand_bounds c)) \<and>
     ray_distance dir exit (cand_bounds c) = Some (cand_distance c)"

lemma set_candidates:
  assumes "doc_wf d"
  shows "c \<in> set (candidates_along d current exit dir) \<longleftrightarrow> on_ray d current exit dir c"
proof -
  have "c \<in> set (candidates_along d current exit dir) \<longleftrightarrow>
      (\<exists>r. machine (mr_id r) d = Some r \<and> mr_id r \<noteq> current \<and> candidate_of exit dir r = Some c)"
    by (auto simp: candidates_along_def set_map_filter set_machines_present [OF assms])
  also have "\<dots> \<longleftrightarrow> on_ray d current exit dir c"
    by (cases c) (auto simp: on_ray_def candidate_of_def bind_eq_Some_conv dest: machine_id_of [OF assms])
  finally show ?thesis .
qed

lemma candidates_sorted: "sorted (map cand_key (candidates_along d current exit dir))"
  by (simp add: candidates_along_def)

lemma find_sorted_least:
  "sorted (map f xs) \<Longrightarrow> find P xs = Some x \<Longrightarrow> y \<in> set xs \<Longrightarrow> P y \<Longrightarrow> f x \<le> (f y :: 'a :: linorder)"
  by (induction xs) (auto split: if_splits)

text \<open>What each offline-edge policy chooses.\<close>

lemma pick_candidate_Some:
  assumes "pick_candidate edge online cs = Some c" and "sorted (map cand_key cs)"
  shows "c \<in> set cs \<and> cand_machine c \<in> online \<and>
    (\<forall>c' \<in> set cs. edge = Block \<or> cand_machine c' \<in> online \<longrightarrow> cand_key c \<le> cand_key c')"
proof (cases edge)
  case Block
  with assms show ?thesis by (auto simp: pick_candidate_def split: list.splits if_splits)
next
  case SkipOver
  with assms(1) have "find (\<lambda>c. cand_machine c \<in> online) cs = Some c" by (simp add: pick_candidate_def)
  with find_sorted_least [OF assms(2) this] show ?thesis
    using SkipOver by (auto simp: find_Some_iff)
qed

lemma pick_candidate_None:
  assumes "pick_candidate edge online cs = None" and "sorted (map cand_key cs)" and "c \<in> set cs"
    and "cand_machine c \<in> online"
  shows "edge = Block \<and> (\<exists>c' \<in> set cs. cand_machine c' \<notin> online \<and> cand_key c' \<le> cand_key c)"
proof (cases edge)
  case Block
  with assms show ?thesis by (auto simp: pick_candidate_def split: list.splits if_splits)
next
  case SkipOver
  with assms show ?thesis by (auto simp: pick_candidate_def find_None_iff)
qed

section \<open>The point of entry\<close>

lemma ray_nonempty_x: "ray_distance dir exit b = Some l \<Longrightarrow> is_horizontal dir \<Longrightarrow>
    sint (ry b) \<le> sint (py exit) \<and> sint (py exit) < sint (max_y b)"
  by (cases dir) (auto split: if_splits)

lemma ray_nonempty_y: "ray_distance dir exit b = Some l \<Longrightarrow> \<not> is_horizontal dir \<Longrightarrow>
    sint (rx b) \<le> sint (px exit) \<and> sint (px exit) < sint (max_x b)"
  by (cases dir) (auto split: if_splits)

lemma entry_point_inside: "nonempty b \<Longrightarrow> contains b (entry_point b exit dir)"
  unfolding entry_point_def by (rule clamp_contains)

text \<open>The near edge of the target, with the other coordinate kept.\<close>

fun near_edge :: "rect \<Rightarrow> point \<Rightarrow> direction \<Rightarrow> point" where
  "near_edge b exit Right = point_new (rx b) (py exit)"
| "near_edge b exit Left = point_new (max_x b - 1) (py exit)"
| "near_edge b exit Down = point_new (px exit) (ry b)"
| "near_edge b exit Up = point_new (px exit) (max_y b - 1)"

lemma saturating_pred: "sint a < sint b \<Longrightarrow> i32_saturating_sub b 1 = b - 1" for a b :: i32
  using sint_i32_bounds [of b] sint_i32_lower [of a]
  by (intro i32_eqI) (simp add: i32_simps sint_sub_exact)

lemma sint_pred: "sint a < sint b \<Longrightarrow> sint (b - 1) = sint b - (1 :: int)" for a b :: i32
  using sint_i32_bounds [of b] sint_i32_lower [of a] by (simp add: sint_sub_exact)

lemma near_edge_inside:
  assumes "nonempty b" and "ray_distance dir exit b = Some l"
  shows "contains b (near_edge b exit dir)"
  using assms ray_nonempty_x [OF assms(2)] ray_nonempty_y [OF assms(2)]
  by (cases dir) (auto simp: contains_def nonempty_def sint_pred [of "rx b" "max_x b"]
      sint_pred [of "ry b" "max_y b"])

lemma entry_point_near_edge:
  assumes "nonempty b" and "ray_distance dir exit b = Some l"
  shows "entry_point b exit dir = near_edge b exit dir"
proof -
  have "entry_point b exit dir = clamp b (near_edge b exit dir)"
    using assms(1)
    by (cases dir) (simp_all add: entry_point_def nonempty_def saturating_pred [of "rx b" "max_x b"]
        saturating_pred [of "ry b" "max_y b"])
  then show ?thesis using near_edge_inside [OF assms] by (simp add: clamp_inside)
qed

section \<open>Directions\<close>

lemma clamp_stays_in_desk:
  assumes "in_desk b"
  shows "- 1073741824 \<le> sint (px (clamp b p)) \<and> sint (px (clamp b p)) \<le> 1073741823"
    and "- 1073741824 \<le> sint (py (clamp b p)) \<and> sint (py (clamp b p)) \<le> 1073741823"
  using assms desk_order [OF assms] clamp_x [of b p] clamp_y [of b p]
  by (auto simp: in_desk_edges sint_clamp_hi_x sint_clamp_hi_y)

text \<open>A target within twice the desk of it is what a pointer motion can produce.\<close>

definition near_desk :: "point \<Rightarrow> bool" where
  "near_desk p \<longleftrightarrow> \<bar>sint (px p)\<bar> \<le> 1073741823 \<and> \<bar>sint (py p)\<bar> \<le> 1073741823"

lemma sint_i32_abs: "- 2147483648 < sint a \<Longrightarrow> sint (i32_abs a) = \<bar>sint a\<bar>"
  using sint_i32_upper [of a] sint_sub_exact [of 0 a] by (simp add: i32_abs_def)

lemma direction_axes:
  assumes "in_desk b" and "near_desk p"
  shows "sint (px p - px (clamp b p)) = sint (px p) - sint (px (clamp b p))"
    and "sint (py p - py (clamp b p)) = sint (py p) - sint (py (clamp b p))"
    and "sint (i32_abs (px p - px (clamp b p))) = \<bar>sint (px p) - sint (px (clamp b p))\<bar>"
    and "sint (i32_abs (py p - py (clamp b p))) = \<bar>sint (py p) - sint (py (clamp b p))\<bar>"
proof -
  show x: "sint (px p - px (clamp b p)) = sint (px p) - sint (px (clamp b p))"
    using clamp_stays_in_desk(1) [OF assms(1), of p] assms(2)
    by (intro sint_sub_exact) (auto simp: near_desk_def)
  show y: "sint (py p - py (clamp b p)) = sint (py p) - sint (py (clamp b p))"
    using clamp_stays_in_desk(2) [OF assms(1), of p] assms(2)
    by (intro sint_sub_exact) (auto simp: near_desk_def)
  show "sint (i32_abs (px p - px (clamp b p))) = \<bar>sint (px p) - sint (px (clamp b p))\<bar>"
    using clamp_stays_in_desk(1) [OF assms(1), of p] assms(2)
    by (subst sint_i32_abs) (auto simp: x near_desk_def)
  show "sint (i32_abs (py p - py (clamp b p))) = \<bar>sint (py p) - sint (py (clamp b p))\<bar>"
    using clamp_stays_in_desk(2) [OF assms(1), of p] assms(2)
    by (subst sint_i32_abs) (auto simp: y near_desk_def)
qed

text \<open>A pointer leaves through the edge it crossed, and there is a direction to leave in.\<close>

lemma direction_crosses:
  assumes "in_desk b" and "near_desk p" and "nonempty b" and "\<not> contains b p"
  shows "\<exists>dir. direction_of (clamp b p) p = Some dir"
    and "direction_of (clamp b p) p = Some Right \<Longrightarrow>
      sint (max_x b) \<le> sint (px p) \<and> px (clamp b p) = max_x b - 1"
    and "direction_of (clamp b p) p = Some Left \<Longrightarrow>
      sint (px p) < sint (rx b) \<and> px (clamp b p) = rx b"
    and "direction_of (clamp b p) p = Some Down \<Longrightarrow>
      sint (max_y b) \<le> sint (py p) \<and> py (clamp b p) = max_y b - 1"
    and "direction_of (clamp b p) p = Some Up \<Longrightarrow>
      sint (py p) < sint (ry b) \<and> py (clamp b p) = ry b"
proof -
  note axes = direction_axes [OF assms(1,2)]
  have hi: "sint (clamp_hi_x b) = sint (max_x b) - 1" "sint (clamp_hi_y b) = sint (max_y b) - 1"
    using assms(3) sint_i32_lower [of "rx b"] sint_i32_lower [of "ry b"]
    by (auto simp: sint_clamp_hi_x sint_clamp_hi_y nonempty_def)
  have pred: "sint (max_x b - 1) = sint (max_x b) - 1" "sint (max_y b - 1) = sint (max_y b) - 1"
    using assms(3) sint_pred [of "rx b" "max_x b"] sint_pred [of "ry b" "max_y b"]
    by (simp_all add: nonempty_def)
  have zero: "(a :: i32) = 0 \<longleftrightarrow> sint a = 0" for a by (metis signed_0 i32_eqI)
  note facts = direction_of_def Let_def axes zero clamp_eqs hi pred
  have out: "sint (px p) < sint (rx b) \<or> sint (max_x b) \<le> sint (px p) \<or>
      sint (py p) < sint (ry b) \<or> sint (max_y b) \<le> sint (py p)"
    using assms(4) by (auto simp: contains_def)
  show "\<exists>dir. direction_of (clamp b p) p = Some dir"
    using out by (simp add: facts) auto
  show "sint (max_x b) \<le> sint (px p) \<and> px (clamp b p) = max_x b - 1"
    if "direction_of (clamp b p) p = Some Right"
    using that by (auto simp: facts split: if_splits intro!: i32_eqI)
  show "sint (px p) < sint (rx b) \<and> px (clamp b p) = rx b"
    if "direction_of (clamp b p) p = Some Left"
    using that by (auto simp: facts split: if_splits intro!: i32_eqI)
  show "sint (max_y b) \<le> sint (py p) \<and> py (clamp b p) = max_y b - 1"
    if "direction_of (clamp b p) p = Some Down"
    using that by (auto simp: facts split: if_splits intro!: i32_eqI)
  show "sint (py p) < sint (ry b) \<and> py (clamp b p) = ry b"
    if "direction_of (clamp b p) p = Some Up"
    using that by (auto simp: facts split: if_splits intro!: i32_eqI)
qed

section \<open>What routing decides\<close>

lemma resolve_inside:
  "Option.bind (machine current d) bounds = None \<Longrightarrow> resolve_cursor d online current target = Stay target"
  "Option.bind (machine current d) bounds = Some b \<Longrightarrow> contains b target \<Longrightarrow>
     resolve_cursor d online current target = Stay target"
  by (simp_all add: resolve_cursor_def)

lemma resolve_outside:
  assumes "Option.bind (machine current d) bounds = Some b" and "\<not> contains b target"
    and "direction_of (clamp b target) target = Some dir"
  shows "resolve_cursor d online current target =
    (case pick_candidate (offline_edge (lww_value (settings d))) online
        (candidates_along d current (clamp b target) dir) of
       Some c \<Rightarrow> Move (cand_machine c) (entry_point (cand_bounds c) (clamp b target) dir)
     | None \<Rightarrow> Stay (clamp b target))"
  using assms by (simp add: resolve_cursor_def Let_def)

lemma resolve_MoveE:
  assumes "resolve_cursor d online current target = Move m p" and "doc_wf d"
  obtains b dir c where "Option.bind (machine current d) bounds = Some b" and "\<not> contains b target"
    and "direction_of (clamp b target) target = Some dir"
    and "on_ray d current (clamp b target) dir c" and "cand_machine c = m" and "m \<in> online"
    and "p = entry_point (cand_bounds c) (clamp b target) dir"
    and "\<And>c'. on_ray d current (clamp b target) dir c' \<Longrightarrow>
      offline_edge (lww_value (settings d)) = Block \<or> cand_machine c' \<in> online \<Longrightarrow>
      cand_key c \<le> cand_key c'"
proof -
  obtain b where b: "Option.bind (machine current d) bounds = Some b"
    using assms(1) by (cases "Option.bind (machine current d) bounds") (simp_all add: resolve_inside)
  have out: "\<not> contains b target" using assms(1) resolve_inside(2) [OF b] by auto
  obtain dir where dir: "direction_of (clamp b target) target = Some dir"
    using assms(1) b out
    by (cases "direction_of (clamp b target) target") (simp_all add: resolve_cursor_def Let_def)
  obtain c where c: "pick_candidate (offline_edge (lww_value (settings d))) online
      (candidates_along d current (clamp b target) dir) = Some c"
    and "cand_machine c = m" and "p = entry_point (cand_bounds c) (clamp b target) dir"
    using assms(1) by (auto simp: resolve_outside [OF b out dir] split: option.splits)
  with pick_candidate_Some [OF c candidates_sorted] show ?thesis
    by (intro that [OF b out dir]) (auto simp: set_candidates [OF assms(2)])
qed

lemma resolve_Stay:
  assumes "resolve_cursor d online current target = Stay p"
    and "Option.bind (machine current d) bounds = Some b"
  shows "p = (if contains b target then target else clamp b target)"
  using assms by (auto simp: resolve_cursor_def Let_def split: if_splits option.splits)

section \<open>The fallback owner\<close>

lemma foldl_min:
  "foldl min x xs \<in> set (x # xs) \<and> (\<forall>y \<in> set (x # xs). foldl min x xs \<le> y)"
  for x :: "'a :: linorder"
proof (induction xs arbitrary: x)
  case (Cons y ys)
  from Cons [of "min x y"] show ?case by (auto simp: min_def split: if_splits)
qed simp

lemma fallback_None: "doc_wf d \<Longrightarrow>
    fallback_owner d online preferred = None \<longleftrightarrow> (\<forall>i \<in> online. machine i d = None)"
proof -
  assume wf: "doc_wf d"
  have "fallback_owner d online preferred = None \<longleftrightarrow>
      \<not> (preferred \<in> online \<and> machine preferred d \<noteq> None) \<and>
      filter (\<lambda>i. i \<in> online) (map mr_id (machines_present d)) = []"
    by (simp add: fallback_owner_def split: list.split)
  also have "\<dots> \<longleftrightarrow> (\<forall>i \<in> online. i \<notin> mr_id ` set (machines_present d)) \<and>
      \<not> (preferred \<in> online \<and> machine preferred d \<noteq> None)"
    by (auto simp: filter_empty_conv)
  finally show ?thesis using machines_present_ids [OF wf] by auto
qed

lemma fallback_Some:
  assumes "doc_wf d" and "fallback_owner d online preferred = Some i"
  shows "i \<in> online \<and> machine i d \<noteq> None \<and>
    (i = preferred \<or>
     (preferred \<notin> online \<or> machine preferred d = None) \<and>
     (\<forall>j \<in> online. machine j d \<noteq> None \<longrightarrow> i \<le> j))"
proof (cases "preferred \<in> online \<and> machine preferred d \<noteq> None")
  case True
  with assms(2) show ?thesis by (simp add: fallback_owner_def)
next
  case False
  then obtain x xs where xs: "filter (\<lambda>i. i \<in> online) (map mr_id (machines_present d)) = x # xs"
    and i: "i = foldl min x xs"
    using assms(2) by (auto simp: fallback_owner_def split: list.splits if_splits)
  have "set (x # xs) = {j \<in> online. machine j d \<noteq> None}"
    using machines_present_ids [OF assms(1)] unfolding xs [symmetric] by auto
  with foldl_min [of x xs] False show ?thesis unfolding i by blast
qed

section \<open>Crossing and coming back\<close>

lemma resolve_only:
  assumes "doc_wf d" and "Option.bind (machine current d) bounds = Some b" and "\<not> contains b target"
    and "direction_of (clamp b target) target = Some dir"
    and "on_ray d current (clamp b target) dir c" and "cand_machine c \<in> online"
    and "\<And>c'. on_ray d current (clamp b target) dir c' \<Longrightarrow> c' = c"
  shows "resolve_cursor d online current target =
    Move (cand_machine c) (entry_point (cand_bounds c) (clamp b target) dir)"
proof (cases "pick_candidate (offline_edge (lww_value (settings d))) online
    (candidates_along d current (clamp b target) dir)")
  case None
  have "c \<in> set (candidates_along d current (clamp b target) dir)"
    using assms(5) by (simp add: set_candidates [OF assms(1)])
  from pick_candidate_None [OF None candidates_sorted this assms(6)]
  obtain c' where "on_ray d current (clamp b target) dir c'" and "cand_machine c' \<notin> online"
    using set_candidates [OF assms(1)] by blast
  with assms(6,7) show ?thesis by blast
next
  case (Some c')
  then have "on_ray d current (clamp b target) dir c'"
    using pick_candidate_Some [OF Some candidates_sorted] set_candidates [OF assms(1)] by blast
  then have "c' = c" by (rule assms(7))
  with Some show ?thesis by (simp add: resolve_outside [OF assms(2-4)])
qed

text \<open>Two machines side by side, and nobody else in the workspace.\<close>

definition side_by_side :: "workspace_doc \<Rightarrow> machine_id \<Rightarrow> rect \<Rightarrow> machine_id \<Rightarrow> rect \<Rightarrow> bool" where
  "side_by_side d a A b B \<longleftrightarrow> doc_wf d \<and> a \<noteq> b \<and>
     Option.bind (machine a d) bounds = Some A \<and> Option.bind (machine b d) bounds = Some B \<and>
     (\<forall>i. machine i d \<noteq> None \<longrightarrow> i = a \<or> i = b) \<and>
     in_desk A \<and> in_desk B \<and> nonempty A \<and> nonempty B \<and> max_x A = rx B"

text \<open>One pixel past the right edge of the left machine, and one past the left edge of the other.\<close>

lemma clamp_past_right:
  assumes "nonempty A" and "px t = max_x A" and "sint (ry A) \<le> sint (py t)" and "sint (py t) < sint (max_y A)"
  shows "clamp A t = point_new (max_x A - 1) (py t)"
  using assms sint_i32_lower [of "rx A"] sint_i32_lower [of "ry A"] sint_pred [of "rx A" "max_x A"]
  by (intro point_eqI i32_eqI)
    (auto simp: clamp_eqs sint_clamp_hi_x sint_clamp_hi_y nonempty_def)

lemma clamp_past_left:
  assumes "in_desk B" and "nonempty B" and "px t = rx B - 1"
    and "sint (ry B) \<le> sint (py t)" and "sint (py t) < sint (max_y B)"
  shows "clamp B t = point_new (rx B) (py t)"
proof -
  have "sint (rx B - 1) = sint (rx B) - 1"
    using assms(1) by (simp add: sint_sub_exact in_desk_def)
  then show ?thesis
    using assms sint_i32_lower [of "ry B"]
    by (intro point_eqI i32_eqI) (auto simp: clamp_eqs sint_clamp_hi_y nonempty_def)
qed

lemma other_machine_on_ray:
  assumes "Option.bind (machine m d) bounds = Some B" and "m \<noteq> current"
    and "\<forall>i. machine i d \<noteq> None \<longrightarrow> i = current \<or> i = m" and "ray_distance dir exit B = Some l"
  defines "c \<equiv> \<lparr>cand_machine = m, cand_bounds = B, cand_distance = l\<rparr>"
  shows "on_ray d current exit dir c" and "on_ray d current exit dir c' \<Longrightarrow> c' = c"
  using assms by (cases c'; fastforce simp: on_ray_def bind_eq_Some_conv)+

lemma cross_right:
  assumes s: "side_by_side d a A b B" and on: "b \<in> online" and x: "px t = max_x A"
    and y: "sint (ry A) \<le> sint (py t)" "sint (py t) < sint (max_y A)"
      "sint (ry B) \<le> sint (py t)" "sint (py t) < sint (max_y B)"
  shows "resolve_cursor d online a t = Move b (point_new (rx B) (py t))"
proof -
  note sides = s [unfolded side_by_side_def]
  have exit: "clamp A t = point_new (max_x A - 1) (py t)"
    using sides x y by (intro clamp_past_right) auto
  have pred: "sint (max_x A - 1) = sint (max_x A) - 1"
    using sides by (intro sint_pred [of "rx A"]) (auto simp: nonempty_def)
  have out: "\<not> contains A t" using x by (simp add: contains_def)
  have dir: "direction_of (clamp A t) t = Some Right"
    using x by (simp add: direction_of_def exit i32_abs_def)
  have ray: "ray_distance Right (clamp A t) B = Some (rx B - (max_x A - 1))"
    using y pred sides by (simp add: exit)
  note c = other_machine_on_ray [OF _ _ _ ray, of b d a]
  have "resolve_cursor d online a t = Move b (entry_point B (clamp A t) Right)"
    using resolve_only [OF _ _ out dir c(1), of online] sides on c(2) by auto
  also have "entry_point B (clamp A t) Right = point_new (rx B) (py t)"
    using entry_point_near_edge [OF _ ray] sides by (simp add: exit)
  finally show ?thesis .
qed

lemma cross_left:
  assumes s: "side_by_side d a A b B" and on: "a \<in> online" and x: "px t = rx B - 1"
    and y: "sint (ry A) \<le> sint (py t)" "sint (py t) < sint (max_y A)"
      "sint (ry B) \<le> sint (py t)" "sint (py t) < sint (max_y B)"
  shows "resolve_cursor d online b t = Move a (point_new (max_x A - 1) (py t))"
proof -
  note sides = s [unfolded side_by_side_def]
  have pred: "sint (rx B - 1) = sint (rx B) - 1"
    using sides by (simp add: sint_sub_exact in_desk_def)
  have exit: "clamp B t = point_new (rx B) (py t)"
    using sides x y by (intro clamp_past_left) auto
  have out: "\<not> contains B t" using x pred by (simp add: contains_def)
  have dir: "direction_of (clamp B t) t = Some Left"
    using x by (simp add: direction_of_def exit i32_abs_def)
  have ray: "ray_distance Left (clamp B t) A = Some (rx B - max_x A)"
    using y sides by (simp add: exit)
  note c = other_machine_on_ray [OF _ _ _ ray, of a d b]
  have "resolve_cursor d online b t = Move a (entry_point A (clamp B t) Left)"
    using resolve_only [OF _ _ out dir c(1), of online] sides on c(2) by auto
  also have "entry_point A (clamp B t) Left = point_new (max_x A - 1) (py t)"
    using entry_point_near_edge [OF _ ray] sides by (simp add: exit)
  finally show ?thesis .
qed

section \<open>Sample desks\<close>

text \<open>Three machines side by side; the one on the far right may be offline.\<close>

definition sample_row :: workspace_doc where
  "sample_row = fst (upsert_machine 6 1 (sample_machine 3 3840) sample_pair)"

definition sample_row_skip :: workspace_doc where
  "sample_row_skip = fst (set_settings 8 1
     (workspace_settings_default\<lparr>offline_edge := SkipOver\<rparr>) sample_row)"

text \<open>A machine whose two displays form an L: the second hangs below the right half.\<close>

definition sample_l_shape :: machine_record where
  "sample_l_shape = (sample_machine 2 1920)\<lparr>mr_displays :=
     [sample_display, sample_display\<lparr>di_x := 1920, di_y := 1080\<rparr>]\<rparr>"

definition sample_l_desk :: workspace_doc where
  "sample_l_desk = fst (upsert_machine 6 1
     (sample_l_shape\<lparr>mr_position := \<lparr>px = 1920, py = - 1080\<rparr>\<rparr>) sample_doc)"

lemma sample_row_wf: "doc_wf sample_row" "doc_wf sample_row_skip" "doc_wf sample_l_desk"
  unfolding doc_wf_def slot_wf_def by code_simp+

section \<open>Properties\<close>



text \<open>
  C23: The pointer never leaves the screen. When a move is not handed off, the point the
  pointer stays at is inside the bounding box of the machine it is on, whatever the target;
  if the target was already inside it is kept.
\<close>

theorem stay_is_on_screen:
  assumes "Option.bind (machine current d) bounds = Some b" and "nonempty b"
    and "resolve_cursor d online current target = Stay p"
  shows "contains b p \<and> (contains b target \<longrightarrow> p = target)"
  using resolve_Stay [OF assms(3,1)] clamp_contains [OF assms(2)] by auto

theorem stay_is_on_screen_witness:
  "resolve_cursor sample_row {1, 3} 1 (point_new 1925 500) = Stay (point_new 1919 500) \<and>
   contains (rect_new 0 0 1920 1080) (point_new 1919 500)"
proof -
  have "Option.bind (machine 1 sample_row) bounds = Some (rect_new 0 0 1920 1080)"
    and "resolve_cursor sample_row {1, 3} 1 (point_new 1925 500) = Stay (point_new 1919 500)"
    and "nonempty (rect_new 0 0 1920 1080)"
    by code_simp+
  with stay_is_on_screen show ?thesis by blast
qed

text \<open>
  C10: What routing decides, against the set of machines on the ray out of the exit point. A
  move goes to an online machine that is nearest (ties to the lowest id) among all machines
  on the ray under \<^verbatim>\<open>Block\<close> and among the online ones under \<^verbatim>\<open>SkipOver\<close>. A stay at the exit
  point with an online machine on the ray happens only under \<^verbatim>\<open>Block\<close>, behind an offline
  machine that is at least as near.
\<close>

theorem routing_decision:
  assumes "doc_wf d" and "Option.bind (machine current d) bounds = Some b"
    and "\<not> contains b target" and "direction_of (clamp b target) target = Some dir"
  shows "case resolve_cursor d online current target of
      Move m p \<Rightarrow> m \<in> online \<and>
        (\<exists>c. on_ray d current (clamp b target) dir c \<and> cand_machine c = m \<and>
          p = entry_point (cand_bounds c) (clamp b target) dir \<and>
          (\<forall>c'. on_ray d current (clamp b target) dir c' \<longrightarrow>
            offline_edge (lww_value (settings d)) = Block \<or> cand_machine c' \<in> online \<longrightarrow>
            cand_key c \<le> cand_key c'))
    | Stay p \<Rightarrow> p = clamp b target \<and>
        (\<forall>c. on_ray d current (clamp b target) dir c \<longrightarrow> cand_machine c \<in> online \<longrightarrow>
          offline_edge (lww_value (settings d)) = Block \<and>
          (\<exists>c'. on_ray d current (clamp b target) dir c' \<and> cand_machine c' \<notin> online \<and>
            cand_key c' \<le> cand_key c))"
proof (cases "pick_candidate (offline_edge (lww_value (settings d))) online
    (candidates_along d current (clamp b target) dir)")
  case None
  with pick_candidate_None [OF None candidates_sorted] show ?thesis
    by (auto simp: resolve_outside [OF assms(2-4)] set_candidates [OF assms(1)] Bex_def)
next
  case (Some c)
  with pick_candidate_Some [OF Some candidates_sorted] show ?thesis
    by (auto simp: resolve_outside [OF assms(2-4)] set_candidates [OF assms(1)])
qed

theorem routing_decision_witness:
  "case resolve_cursor sample_row {1, 3} 1 (point_new 1925 500) of
      Move m p \<Rightarrow> False | Stay p \<Rightarrow> p = clamp (rect_new 0 0 1920 1080) (point_new 1925 500)"
proof -
  have run: "resolve_cursor sample_row {1, 3} 1 (point_new 1925 500) = Stay (point_new 1919 500)"
    by code_simp
  have "Option.bind (machine 1 sample_row) bounds = Some (rect_new 0 0 1920 1080)"
    and "\<not> contains (rect_new 0 0 1920 1080) (point_new 1925 500)"
    and "direction_of (clamp (rect_new 0 0 1920 1080) (point_new 1925 500)) (point_new 1925 500) = Some Right"
    by code_simp+
  from routing_decision [OF sample_row_wf(1) this, of "{1, 3}"] show ?thesis by (simp add: run)
qed

text \<open>
  Crossing geometry. On a desk (coordinates within \<open>2 ^ 30\<close>, so that nothing wraps) a
  target outside a machine's box always has a direction, it is the direction of an edge the
  target is really beyond, and the exit point is on that edge. On the machine entered the
  pointer appears on the near edge with its other coordinate unchanged.
\<close>

theorem crossing_geometry:
  assumes "in_desk b" and "nonempty b" and "near_desk target" and "\<not> contains b target"
  shows "\<exists>dir. direction_of (clamp b target) target = Some dir \<and>
    (case dir of
       Right \<Rightarrow> sint (max_x b) \<le> sint (px target) \<and> px (clamp b target) = max_x b - 1
     | Left \<Rightarrow> sint (px target) < sint (rx b) \<and> px (clamp b target) = rx b
     | Down \<Rightarrow> sint (max_y b) \<le> sint (py target) \<and> py (clamp b target) = max_y b - 1
     | Up \<Rightarrow> sint (py target) < sint (ry b) \<and> py (clamp b target) = ry b) \<and>
    (\<forall>b' l. nonempty b' \<longrightarrow> ray_distance dir (clamp b target) b' = Some l \<longrightarrow>
       entry_point b' (clamp b target) dir = near_edge b' (clamp b target) dir)"
proof -
  obtain dir where dir: "direction_of (clamp b target) target = Some dir"
    using direction_crosses(1) [OF assms(1,3,2,4)] by blast
  show ?thesis
    using dir direction_crosses(2-5) [OF assms(1,3,2,4)] entry_point_near_edge
    by (intro exI [of _ dir] conjI dir) (cases dir; simp)+
qed



text \<open>
  The fallback owner is an online machine of the workspace, the preferred one whenever
  it qualifies and otherwise the lowest id among all that do, so machines that agree on the
  document and on who is online pick the same one; there is none only if no machine of the
  workspace is online.
\<close>

theorem fallback_owner_spec:
  assumes "doc_wf d"
  shows "case fallback_owner d online preferred of
      None \<Rightarrow> (\<forall>i \<in> online. machine i d = None)
    | Some i \<Rightarrow> i \<in> online \<and> machine i d \<noteq> None \<and>
        (i = preferred \<or> (preferred \<notin> online \<or> machine preferred d = None) \<and>
          (\<forall>j \<in> online. machine j d \<noteq> None \<longrightarrow> i \<le> j))"
  using fallback_None [OF assms, of online preferred] fallback_Some [OF assms, of online preferred]
  by (simp split: option.split)

text \<open>
  A machine is routed to by the bounding box of its displays, so a machine whose
  displays form an L can be entered in the corner that none of them covers.
\<close>

theorem entry_in_uncovered_corner:
  "resolve_cursor sample_l_desk {1, 2} 1 (point_new 1925 500) = Move 2 (point_new 1920 500) \<and>
   (\<exists>r. machine 2 sample_l_desk = Some r \<and>
      list_all (\<lambda>s. \<not> contains s (point_new 1920 500)) (placed_displays r))"
proof -
  have "resolve_cursor sample_l_desk {1, 2} 1 (point_new 1925 500) = Move 2 (point_new 1920 500)"
    by code_simp
  moreover have "list_all (\<lambda>s. \<not> contains s (point_new 1920 500))
      (placed_displays (the (machine 2 sample_l_desk))) \<and> machine 2 sample_l_desk \<noteq> None"
    by code_simp
  ultimately show ?thesis by auto
qed

end
