(* ===== verification/Mac_Keys.thy ===== *)
theory Mac_Keys
  imports Prelude
begin

text \<open>
  Key codes and input events: the translation between a Mac's key codes and PC scan codes
  (\<^verbatim>\<open>crates/is-input/src/platform/mac_keys.rs\<close>) and the vocabulary of events that crosses
  the network (\<^verbatim>\<open>crates/is-core/src/input.rs\<close>).
\<close>

section \<open>Input events\<close>

datatype mouse_button = LeftButton | RightButton | MiddleButton | X1 | X2

datatype input_event =
    MouseMove i32 i32
  | CursorEnter i32 i32
  | MouseButton mouse_button bool
  | Wheel i32 bool
  | Key (key_vk: u16) (key_scan: u16) (key_down: bool) (key_extended: bool)

section \<open>The table\<close>

text \<open>Mac key code, PC scan code, Windows virtual key, extended flag, in the order of the source.\<close>

type_synonym key_row = "u16 \<times> u16 \<times> u16 \<times> bool"

definition KEYS :: "key_row list" where
  "KEYS = [
    (0, 0x1E, 0x41, False), (11, 0x30, 0x42, False), (8, 0x2E, 0x43, False),
    (2, 0x20, 0x44, False), (14, 0x12, 0x45, False), (3, 0x21, 0x46, False),
    (5, 0x22, 0x47, False), (4, 0x23, 0x48, False), (34, 0x17, 0x49, False),
    (38, 0x24, 0x4A, False), (40, 0x25, 0x4B, False), (37, 0x26, 0x4C, False),
    (46, 0x32, 0x4D, False), (45, 0x31, 0x4E, False), (31, 0x18, 0x4F, False),
    (35, 0x19, 0x50, False), (12, 0x10, 0x51, False), (15, 0x13, 0x52, False),
    (1, 0x1F, 0x53, False), (17, 0x14, 0x54, False), (32, 0x16, 0x55, False),
    (9, 0x2F, 0x56, False), (13, 0x11, 0x57, False), (7, 0x2D, 0x58, False),
    (16, 0x15, 0x59, False), (6, 0x2C, 0x5A, False), (29, 0x0B, 0x30, False),
    (18, 0x02, 0x31, False), (19, 0x03, 0x32, False), (20, 0x04, 0x33, False),
    (21, 0x05, 0x34, False), (23, 0x06, 0x35, False), (22, 0x07, 0x36, False),
    (26, 0x08, 0x37, False), (28, 0x09, 0x38, False), (25, 0x0A, 0x39, False),
    (27, 0x0C, 0xBD, False), (24, 0x0D, 0xBB, False), (33, 0x1A, 0xDB, False),
    (30, 0x1B, 0xDD, False), (41, 0x27, 0xBA, False), (39, 0x28, 0xDE, False),
    (50, 0x29, 0xC0, False), (42, 0x2B, 0xDC, False), (43, 0x33, 0xBC, False),
    (47, 0x34, 0xBE, False), (44, 0x35, 0xBF, False), (36, 0x1C, 0x0D, False),
    (48, 0x0F, 0x09, False), (49, 0x39, 0x20, False), (51, 0x0E, 0x08, False),
    (53, 0x01, 0x1B, False), (114, 0x52, 0x2D, True), (115, 0x47, 0x24, True),
    (116, 0x49, 0x21, True), (117, 0x53, 0x2E, True), (119, 0x4F, 0x23, True),
    (121, 0x51, 0x22, True), (123, 0x4B, 0x25, True), (124, 0x4D, 0x27, True),
    (125, 0x50, 0x28, True), (126, 0x48, 0x26, True), (56, 0x2A, 0xA0, False),
    (60, 0x36, 0xA1, False), (59, 0x1D, 0xA2, False), (62, 0x1D, 0xA3, True),
    (58, 0x38, 0xA4, False), (61, 0x38, 0xA5, True), (55, 0x5B, 0x5B, True),
    (54, 0x5C, 0x5C, True), (57, 0x3A, 0x14, False), (122, 0x3B, 0x70, False),
    (120, 0x3C, 0x71, False), (99, 0x3D, 0x72, False), (118, 0x3E, 0x73, False),
    (96, 0x3F, 0x74, False), (97, 0x40, 0x75, False), (98, 0x41, 0x76, False),
    (100, 0x42, 0x77, False), (101, 0x43, 0x78, False), (109, 0x44, 0x79, False),
    (103, 0x57, 0x7A, False), (111, 0x58, 0x7B, False), (82, 0x52, 0x60, False),
    (83, 0x4F, 0x61, False), (84, 0x50, 0x62, False), (85, 0x51, 0x63, False),
    (86, 0x4B, 0x64, False), (87, 0x4C, 0x65, False), (88, 0x4D, 0x66, False),
    (89, 0x47, 0x67, False), (91, 0x48, 0x68, False), (92, 0x49, 0x69, False),
    (65, 0x53, 0x6E, False), (67, 0x37, 0x6A, False), (69, 0x4E, 0x6B, False),
    (78, 0x4A, 0x6D, False), (75, 0x35, 0x6F, True), (76, 0x1C, 0x0D, True),
    (71, 0x45, 0x90, False)]"

definition to_pc :: "u16 \<Rightarrow> (u16 \<times> u16 \<times> bool) option" where
  "to_pc mac_code =
     map_option (\<lambda>(_, scan, vk, extended). (scan, vk, extended))
       (find (\<lambda>(mac, _). mac = mac_code) KEYS)"

text \<open>The two lookups of \<^verbatim>\<open>from_pc\<close>: the physical key, then the named one.\<close>

definition same_key :: "u16 \<Rightarrow> bool \<Rightarrow> key_row \<Rightarrow> bool" where
  "same_key scan extended = (\<lambda>(_, s, _, e). s = scan \<and> e = extended)"

definition same_name :: "u16 \<Rightarrow> key_row \<Rightarrow> bool" where
  "same_name vk = (\<lambda>(_, _, v, _). vk \<noteq> 0 \<and> v = vk)"

definition from_pc :: "u16 \<Rightarrow> u16 \<Rightarrow> bool \<Rightarrow> u16 option" where
  "from_pc scan vk extended =
     (case if scan \<noteq> 0 then find (same_key scan extended) KEYS else None of
        Some (mac, _) \<Rightarrow> Some mac
      | None \<Rightarrow> map_option fst (find (same_name vk) KEYS))"

section \<open>Facts about the table\<close>

text \<open>No Mac key code appears twice, and no scan code twice with the same extended flag.\<close>

lemma mac_codes_distinct: "distinct (map (\<lambda>(m, _). uint m) KEYS)"
  by code_simp

lemma pc_codes_distinct: "distinct (map (\<lambda>(_, s, _, e). (uint s, e)) KEYS)"
  by code_simp

lemma codes_nonzero: "list_all (\<lambda>(_, s, v, _). s \<noteq> 0 \<and> v \<noteq> 0) KEYS"
  by code_simp

lemma find_distinct:
  assumes "distinct (map f xs)" and "x \<in> set xs" and "\<And>y. P y \<longleftrightarrow> f y = f x"
  shows "find P xs = Some x"
  using assms
proof (induction xs)
  case (Cons y ys)
  then show ?case by (cases "y = x") (auto simp: image_iff)
qed simp

lemma find_in: "find P xs = Some x \<Longrightarrow> x \<in> set xs \<and> P x"
  by (auto simp: find_Some_iff in_set_conv_nth)

lemma to_pc_row: "to_pc m = Some (s, v, e) \<Longrightarrow> (m, s, v, e) \<in> set KEYS"
  by (auto simp: to_pc_def dest!: find_in)

lemma row_in_to_pc:
  assumes "(m, s, v, e) \<in> set KEYS"
  shows "to_pc m = Some (s, v, e) \<and> s \<noteq> 0 \<and> v \<noteq> 0"
proof -
  have "find (\<lambda>(mac, _). mac = m) KEYS = Some (m, s, v, e)"
    by (rule find_distinct [OF mac_codes_distinct assms]) (auto simp: word_uint_eq_iff)
  moreover have "s \<noteq> 0 \<and> v \<noteq> 0" using codes_nonzero assms by (auto simp: list_all_iff)
  ultimately show ?thesis by (simp add: to_pc_def)
qed

lemma row_in_from_pc:
  assumes "(m, s, v, e) \<in> set KEYS"
  shows "from_pc s vk e = Some m"
proof -
  have "find (same_key s e) KEYS = Some (m, s, v, e)"
    by (rule find_distinct [OF pc_codes_distinct assms]) (auto simp: same_key_def word_uint_eq_iff)
  with row_in_to_pc [OF assms] show ?thesis by (simp add: from_pc_def)
qed

lemma from_pc_physical:
  assumes "scan \<noteq> 0" and "\<exists>r \<in> set KEYS. same_key scan extended r"
  shows "\<exists>m vk'. from_pc scan vk extended = Some m \<and> to_pc m = Some (scan, vk', extended)"
proof -
  obtain r where r: "find (same_key scan extended) KEYS = Some r"
    using assms(2) by (cases "find (same_key scan extended) KEYS") (auto simp: find_None_iff)
  obtain m s v e where "r = (m, s, v, e)" by (cases r)
  with r assms(1) find_in [OF r] row_in_to_pc [of m s v e] show ?thesis
    by (auto simp: from_pc_def same_key_def)
qed

lemma from_pc_named:
  assumes "\<not> (scan \<noteq> 0 \<and> (\<exists>r \<in> set KEYS. same_key scan extended r))"
  shows "from_pc scan vk extended = map_option fst (find (same_name vk) KEYS)"
proof -
  have "(if scan \<noteq> 0 then find (same_key scan extended) KEYS else None) = None"
    using assms by (auto simp: find_None_iff)
  then show ?thesis by (simp only: from_pc_def option.case)
qed

section \<open>Properties\<close>

text \<open>
  A key that leaves a Mac comes back as the same key: whatever \<^verbatim>\<open>to_pc\<close> puts on the wire
  is translated by \<^verbatim>\<open>from_pc\<close> to the key code it started from, for every one of the 65536
  key codes. In particular no two Mac keys share an image.
\<close>

theorem mac_key_round_trip:
  assumes "to_pc m = Some (scan, vk, extended)"
  shows "from_pc scan vk extended = Some m"
  using row_in_from_pc [OF to_pc_row [OF assms]] .

text \<open>
  No key is invented. When the table has the named physical key (scan code and extended
  flag), exactly such a key is pressed, whatever virtual key was named. Otherwise a pressed
  key is one whose virtual key was named, and with no such key either the event is dropped.
\<close>

theorem from_pc_presses_named_key:
  "if scan \<noteq> 0 \<and> (\<exists>r \<in> set KEYS. same_key scan extended r)
   then \<exists>m v. from_pc scan vk extended = Some m \<and> to_pc m = Some (scan, v, extended)
   else (case from_pc scan vk extended of
       Some m \<Rightarrow> \<exists>s e. to_pc m = Some (s, vk, e)
     | None \<Rightarrow> \<not> (\<exists>r \<in> set KEYS. same_name vk r))"
proof (cases "scan \<noteq> 0 \<and> (\<exists>r \<in> set KEYS. same_key scan extended r)")
  case True
  then show ?thesis using from_pc_physical by simp
next
  case False
  note named = from_pc_named [OF False]
  show ?thesis
  proof (cases "find (same_name vk) KEYS")
    case None
    then have "\<not> (\<exists>r \<in> set KEYS. same_name vk r)" by (auto simp: find_None_iff)
    with None show ?thesis unfolding if_not_P [OF False] named by simp
  next
    case (Some r)
    obtain m s v e where "r = (m, s, v, e)" by (cases r)
    with find_in [OF Some] row_in_to_pc [of m s v e] have "to_pc (fst r) = Some (s, vk, e)"
      by (auto simp: same_name_def)
    then show ?thesis unfolding if_not_P [OF False] named by (auto simp: Some)
  qed
qed

end
