(* ===== verification/Wire.thy ===== *)
theory Wire
  imports Workspace Mac_Keys
begin

text \<open>
  What goes over the network and how it is framed (\<^verbatim>\<open>crates/is-net/src/wire.rs\<close>, error type
  from \<^verbatim>\<open>crates/is-net/src/lib.rs\<close>).

  A stream is the list of bytes still to be read; reading returns what is left of it. A read
  that the stream cannot satisfy is the end-of-file error \<^verbatim>\<open>read_exact\<close> reports.
\<close>

section \<open>Errors of the network crate\<close>

datatype net_error =
    NetIo io_error_kind
  | UnexpectedEof
  | Json
  | HandshakeError string
  | CryptoError string
  | NetCore core_error
  | FrameTooLarge nat
  | Timeout
  | ClosedError

section \<open>Messages\<close>

definition PROTOCOL_VERSION :: u16 where
  "PROTOCOL_VERSION = 1"

record announcement =
  an_protocol :: u16
  an_machine_id :: machine_id
  an_identity_key :: pub_key
  an_display_name :: string
  an_workspace_id :: "workspace_id option"
  an_transport_port :: u16
  an_probe :: bool
  an_invitations :: "machine_id list"

definition is_current :: "announcement \<Rightarrow> bool" where
  "is_current a \<longleftrightarrow> an_protocol a = PROTOCOL_VERSION"

datatype message =
    Identify string "workspace_id option" u32
  | DocFull workspace_doc
  | Update workspace_update
  | Input "input_event list"
  | CursorOwner machine_id
  | Ping u64
  | Pong u64
  | Goodbye string

section \<open>Frames\<close>

definition MAX_FRAME :: nat where
  "MAX_FRAME = 4 * 1024 * 1024"

text \<open>\<^verbatim>\<open>write_frame\<close>: the bytes appended to the stream, or the refusal.\<close>

definition write_frame :: "u8 list \<Rightarrow> net_error + u8 list" where
  "write_frame bytes =
     (if MAX_FRAME < length bytes then Inl (FrameTooLarge (length bytes))
      else Inr (be_bytes 4 (of_nat (length bytes) :: u32) @ bytes))"

definition read_exact :: "nat \<Rightarrow> u8 list \<Rightarrow> net_error + (u8 list \<times> u8 list)" where
  "read_exact n stream =
     (if n \<le> length stream then Inr (take n stream, drop n stream) else Inl UnexpectedEof)"

definition read_frame :: "u8 list \<Rightarrow> net_error + (u8 list \<times> u8 list)" where
  "read_frame stream =
     (case read_exact 4 stream of
        Inl e \<Rightarrow> Inl e
      | Inr (header, rest) \<Rightarrow>
          let n = unat (from_be_bytes header) in
          if MAX_FRAME < n then Inl (FrameTooLarge n) else read_exact n rest)"

lemma read_frame_shorter: "read_frame stream = Inr (bytes, rest) \<Longrightarrow> length rest < length stream"
  by (auto simp: read_frame_def read_exact_def Let_def split: if_splits)

text \<open>What a sequence of reads returns: every frame until the stream ends or one is refused.\<close>

function read_frames :: "u8 list \<Rightarrow> u8 list list \<times> net_error" where
  "read_frames stream =
     (case read_frame stream of
        Inl e \<Rightarrow> ([], e)
      | Inr (bytes, rest) \<Rightarrow> (let (more, e) = read_frames rest in (bytes # more, e)))"
  by pat_completeness auto
termination
  by (relation "measure length") (auto dest: read_frame_shorter)

declare read_frames.simps [simp del]

section \<open>Facts\<close>

lemma frame_header:
  assumes "length bytes \<le> MAX_FRAME"
  shows "unat (from_be_bytes (be_bytes 4 (of_nat (length bytes) :: u32))) = length bytes"
proof -
  have "length bytes < 2 ^ LENGTH(32)" using assms by (simp add: MAX_FRAME_def)
  then show ?thesis by (simp add: from_be_bytes_round_trip unsigned_of_nat take_bit_nat_eq_self)
qed

lemma read_written:
  "write_frame bytes = Inr out \<Longrightarrow> read_frame (out @ rest) = Inr (bytes, rest)"
  by (auto simp: write_frame_def read_frame_def read_exact_def frame_header Let_def split: if_splits)

lemma read_frame_bounded: "read_frame stream = Inr (bytes, rest) \<Longrightarrow> length bytes \<le> MAX_FRAME"
  by (auto simp: read_frame_def read_exact_def Let_def split: if_splits)

lemma read_frames_written:
  assumes "list_all2 (\<lambda>b out. write_frame b = Inr out) msgs outs"
  shows "read_frames (concat outs @ rest) = (msgs @ fst (read_frames rest), snd (read_frames rest))"
  using assms
proof (induction rule: list_all2_induct)
  case (Cons b bs out outs)
  then show ?case
    by (subst read_frames.simps) (simp add: read_written split_def)
qed simp

lemma truncated_frame:
  assumes "write_frame bytes = Inr out" and "n < length out"
  shows "read_frame (take n out) = Inl UnexpectedEof"
proof (cases "n < 4")
  case True
  then show ?thesis by (simp add: read_frame_def read_exact_def)
next
  case False
  with assms have "length bytes \<le> MAX_FRAME" and "take 4 (take n out) = be_bytes 4 (of_nat (length bytes) :: u32)"
    and "length (drop 4 (take n out)) < length bytes"
    by (auto simp: write_frame_def split: if_splits)
  with False assms show ?thesis
    by (auto simp: read_frame_def read_exact_def frame_header write_frame_def Let_def split: if_splits)
qed

section \<open>Properties\<close>



text \<open>
  No peer can ask for more memory than the limit. A frame that claims more than four
  mebibytes is refused on its header, whatever follows it, and one that long is never
  written; a frame cut off anywhere is an end-of-file error. Every payload that is read is
  within the limit.
\<close>

theorem frames_are_bounded:
  "(\<forall>bytes rest. read_frame stream = Inr (bytes, rest) \<longrightarrow> length bytes \<le> MAX_FRAME) \<and>
   (4 \<le> length stream \<and> MAX_FRAME < unat (from_be_bytes (take 4 stream)) \<longrightarrow>
     read_frame stream = Inl (FrameTooLarge (unat (from_be_bytes (take 4 stream))))) \<and>
   (MAX_FRAME < length payload \<longrightarrow> write_frame payload = Inl (FrameTooLarge (length payload))) \<and>
   (\<forall>out n. write_frame payload = Inr out \<and> n < length out \<longrightarrow>
     read_frame (take n out) = Inl UnexpectedEof)"
proof (intro conjI allI impI)
  fix out n
  assume "write_frame payload = Inr out \<and> n < length out"
  then show "read_frame (take n out) = Inl UnexpectedEof" using truncated_frame by blast
next
  fix bytes rest
  assume "read_frame stream = Inr (bytes, rest)"
  then show "length bytes \<le> MAX_FRAME" by (rule read_frame_bounded)
qed (auto simp: read_frame_def read_exact_def write_frame_def Let_def)

end
