(* ===== verification/Capture.thy ===== *)
theory Capture
  imports Wire
begin

text \<open>
  Capturing, swallowing and replaying input on Windows
  (\<^verbatim>\<open>crates/is-input/src/platform/windows.rs\<close>).

  The hooks are functions from the process-wide statics to the statics after the call, the
  events reported and the verdict: pass the event on or swallow it. The operating system is
  an argument: what it delivers (message, mouse data, virtual key, marker), whether a key is
  held (\<^verbatim>\<open>GetAsyncKeyState\<close>), the clock, and whether the calls that install hooks succeed.
  \<^verbatim>\<open>SendInput\<close> takes the record \<open>os_input\<close>; the numbers of messages and flags are those of
  the Windows headers the source names.
\<close>

section \<open>The statics and the operating system's view\<close>

record capture_state =
  suppressing :: bool
  watchdog :: u64
  have_last :: bool
  running :: bool
  sink_open :: bool
  reported :: "input_event list"

datatype input_error = Unsupported string | Os string | AlreadyRunning

datatype verdict = Pass | Swallow

definition INJECTED_MARKER :: "64 word" where "INJECTED_MARKER = 0x14E5055"
definition WATCHDOG_LIMIT_MS :: u64 where "WATCHDOG_LIMIT_MS = 2000"

record mouse_message =
  mm_code :: i32
  mm_wparam :: u32
  mm_data :: u32
  mm_extra :: "64 word"

record key_message =
  km_code :: i32
  km_wparam :: u32
  km_vk :: u32
  km_scan :: u32
  km_flags :: u32
  km_extra :: "64 word"

definition WM_KEYDOWN :: u32 where "WM_KEYDOWN = 0x0100"
definition WM_KEYUP :: u32 where "WM_KEYUP = 0x0101"
definition WM_SYSKEYDOWN :: u32 where "WM_SYSKEYDOWN = 0x0104"
definition WM_SYSKEYUP :: u32 where "WM_SYSKEYUP = 0x0105"
definition WM_MOUSEMOVE :: u32 where "WM_MOUSEMOVE = 0x0200"
definition WM_LBUTTONDOWN :: u32 where "WM_LBUTTONDOWN = 0x0201"
definition WM_LBUTTONUP :: u32 where "WM_LBUTTONUP = 0x0202"
definition WM_RBUTTONDOWN :: u32 where "WM_RBUTTONDOWN = 0x0204"
definition WM_RBUTTONUP :: u32 where "WM_RBUTTONUP = 0x0205"
definition WM_MBUTTONDOWN :: u32 where "WM_MBUTTONDOWN = 0x0207"
definition WM_MBUTTONUP :: u32 where "WM_MBUTTONUP = 0x0208"
definition WM_MOUSEWHEEL :: u32 where "WM_MOUSEWHEEL = 0x020A"
definition WM_XBUTTONDOWN :: u32 where "WM_XBUTTONDOWN = 0x020B"
definition WM_XBUTTONUP :: u32 where "WM_XBUTTONUP = 0x020C"
definition WM_MOUSEHWHEEL :: u32 where "WM_MOUSEHWHEEL = 0x020E"
definition XBUTTON1 :: u16 where "XBUTTON1 = 1"
definition VK_F12 :: u16 where "VK_F12 = 0x7B"
definition VK_CONTROL :: u16 where "VK_CONTROL = 0x11"
definition VK_MENU :: u16 where "VK_MENU = 0x12"

lemmas message_defs = WM_KEYDOWN_def WM_KEYUP_def WM_SYSKEYDOWN_def WM_SYSKEYUP_def
  WM_MOUSEMOVE_def WM_LBUTTONDOWN_def WM_LBUTTONUP_def WM_RBUTTONDOWN_def WM_RBUTTONUP_def
  WM_MBUTTONDOWN_def WM_MBUTTONUP_def WM_MOUSEWHEEL_def WM_XBUTTONDOWN_def WM_XBUTTONUP_def
  WM_MOUSEHWHEEL_def XBUTTON1_def VK_F12_def VK_CONTROL_def VK_MENU_def

section \<open>Capture\<close>

definition report :: "input_event \<Rightarrow> capture_state \<Rightarrow> capture_state" where
  "report e s = (if sink_open s then s\<lparr>reported := reported s @ [e]\<rparr> else s)"

definition u64_saturating_sub :: "u64 \<Rightarrow> u64 \<Rightarrow> u64" where
  "u64_saturating_sub a b = (if b \<le> a then a - b else 0)"

definition suppressing_now :: "u64 \<Rightarrow> capture_state \<Rightarrow> capture_state \<times> bool" where
  "suppressing_now now s =
     (if \<not> suppressing s then (s, False)
      else if WATCHDOG_LIMIT_MS < u64_saturating_sub now (watchdog s)
      then (s\<lparr>suppressing := False\<rparr>, False)
      else (s, True))"

text \<open>What starting the hook thread comes to: it could not be spawned, it died before
  reporting, it reported an error, or it is running.\<close>

datatype hook_start = SpawnFailed string | ThreadDied | HooksRefused input_error | HooksReady u32

definition capture_start :: "u64 \<Rightarrow> hook_start \<Rightarrow> capture_state \<Rightarrow> capture_state \<times> (input_error + u32)" where
  "capture_start now os s =
     (if running s then (s, Inl AlreadyRunning)
      else
        let s = s\<lparr>running := True, sink_open := True, suppressing := False, watchdog := now,
          have_last := False\<rparr>
        in case os of
             SpawnFailed e \<Rightarrow> (s, Inl (Os e))
           | HooksReady thread_id \<Rightarrow> (s, Inr thread_id)
           | HooksRefused e \<Rightarrow> (s\<lparr>running := False\<rparr>, Inl e)
           | ThreadDied \<Rightarrow> (s\<lparr>running := False\<rparr>, Inl (Os ''hook thread died on startup'')))"

definition set_suppressing :: "u64 \<Rightarrow> bool \<Rightarrow> capture_state \<Rightarrow> capture_state" where
  "set_suppressing now suppress s =
     (let s = s\<lparr>watchdog := now, suppressing := suppress\<rparr>
      in if suppress then s\<lparr>have_last := False\<rparr> else s)"

definition heartbeat :: "u64 \<Rightarrow> capture_state \<Rightarrow> capture_state" where
  "heartbeat now s = s\<lparr>watchdog := now\<rparr>"

definition capture_drop :: "capture_state \<Rightarrow> capture_state" where
  "capture_drop s = s\<lparr>suppressing := False, sink_open := False, running := False\<rparr>"

text \<open>The high half of the mouse data: an unsigned button number or a signed wheel step.\<close>

definition high_word :: "u32 \<Rightarrow> u16" where
  "high_word n = ucast (drop_bit 16 n)"

definition mouse_event :: "u32 \<Rightarrow> u32 \<Rightarrow> input_event option" where
  "mouse_event w data =
     (if w = WM_MOUSEMOVE then None
      else if w = WM_LBUTTONDOWN then Some (MouseButton LeftButton True)
      else if w = WM_LBUTTONUP then Some (MouseButton LeftButton False)
      else if w = WM_RBUTTONDOWN then Some (MouseButton RightButton True)
      else if w = WM_RBUTTONUP then Some (MouseButton RightButton False)
      else if w = WM_MBUTTONDOWN then Some (MouseButton MiddleButton True)
      else if w = WM_MBUTTONUP then Some (MouseButton MiddleButton False)
      else if w = WM_XBUTTONDOWN \<or> w = WM_XBUTTONUP
      then Some (MouseButton (if high_word data = XBUTTON1 then X1 else X2) (w = WM_XBUTTONDOWN))
      else if w = WM_MOUSEWHEEL \<or> w = WM_MOUSEHWHEEL
      then Some (Wheel (scast (high_word data)) (w = WM_MOUSEHWHEEL))
      else None)"

definition swallow_if :: "bool \<Rightarrow> verdict" where
  "swallow_if b = (if b then Swallow else Pass)"

definition mouse_hook :: "u64 \<Rightarrow> mouse_message \<Rightarrow> capture_state \<Rightarrow> capture_state \<times> verdict" where
  "mouse_hook now m s =
     (if sint (mm_code m) < 0 then (s, Pass)
      else if mm_extra m = INJECTED_MARKER then (s, Pass)
      else
        let s = (case mouse_event (mm_wparam m) (mm_data m) of Some e \<Rightarrow> report e s | None \<Rightarrow> s);
            (s, b) = suppressing_now now s
        in (s, swallow_if b))"

definition keyboard_hook ::
  "u64 \<Rightarrow> (u16 \<Rightarrow> bool) \<Rightarrow> key_message \<Rightarrow> capture_state \<Rightarrow> capture_state \<times> verdict" where
  "keyboard_hook now held m s =
     (if sint (km_code m) < 0 then (s, Pass)
      else if km_extra m = INJECTED_MARKER then (s, Pass)
      else
        let msg = km_wparam m; down = (msg \<noteq> WM_KEYUP \<and> msg \<noteq> WM_SYSKEYUP) in
        if msg \<notin> {WM_KEYDOWN, WM_KEYUP, WM_SYSKEYDOWN, WM_SYSKEYUP} then (s, Pass)
        else if down \<and> ucast (km_vk m) = VK_F12 \<and> held VK_CONTROL \<and> held VK_MENU
        then (s\<lparr>suppressing := False\<rparr>, Pass)
        else
          let s = report (Key (ucast (km_vk m)) (ucast (km_scan m)) down (km_flags m AND 1 \<noteq> 0)) s;
              (s, b) = suppressing_now now s
          in (s, swallow_if b))"

text \<open>A raw mouse report, after the system call that reads it.\<close>

record raw_mouse =
  rm_type :: u32
  rm_extra :: u32
  rm_flags :: u16
  rm_dx :: i32
  rm_dy :: i32

definition raw_input :: "raw_mouse \<Rightarrow> capture_state \<Rightarrow> capture_state" where
  "raw_input r s =
     (if rm_type r = 0 \<and> ucast (rm_extra r) \<noteq> INJECTED_MARKER \<and> rm_flags r AND 1 = 0 \<and>
         (rm_dx r \<noteq> 0 \<or> rm_dy r \<noteq> 0)
      then report (MouseMove (rm_dx r) (rm_dy r)) s else s)"

section \<open>Replay\<close>

datatype os_input =
    MouseInput i32 i32 u32 u32
  | KeyboardInput u16 u16 u32

datatype injection = SetCursor i32 i32 | SendOsInput os_input

definition MOUSEEVENTF_MOVE :: u32 where "MOUSEEVENTF_MOVE = 0x0001"
definition MOUSEEVENTF_LEFTDOWN :: u32 where "MOUSEEVENTF_LEFTDOWN = 0x0002"
definition MOUSEEVENTF_LEFTUP :: u32 where "MOUSEEVENTF_LEFTUP = 0x0004"
definition MOUSEEVENTF_RIGHTDOWN :: u32 where "MOUSEEVENTF_RIGHTDOWN = 0x0008"
definition MOUSEEVENTF_RIGHTUP :: u32 where "MOUSEEVENTF_RIGHTUP = 0x0010"
definition MOUSEEVENTF_MIDDLEDOWN :: u32 where "MOUSEEVENTF_MIDDLEDOWN = 0x0020"
definition MOUSEEVENTF_MIDDLEUP :: u32 where "MOUSEEVENTF_MIDDLEUP = 0x0040"
definition MOUSEEVENTF_XDOWN :: u32 where "MOUSEEVENTF_XDOWN = 0x0080"
definition MOUSEEVENTF_XUP :: u32 where "MOUSEEVENTF_XUP = 0x0100"
definition MOUSEEVENTF_WHEEL :: u32 where "MOUSEEVENTF_WHEEL = 0x0800"
definition MOUSEEVENTF_HWHEEL :: u32 where "MOUSEEVENTF_HWHEEL = 0x1000"
definition KEYEVENTF_EXTENDEDKEY :: u32 where "KEYEVENTF_EXTENDEDKEY = 0x0001"
definition KEYEVENTF_KEYUP :: u32 where "KEYEVENTF_KEYUP = 0x0002"
definition KEYEVENTF_SCANCODE :: u32 where "KEYEVENTF_SCANCODE = 0x0008"

lemmas flag_defs = MOUSEEVENTF_MOVE_def MOUSEEVENTF_LEFTDOWN_def MOUSEEVENTF_LEFTUP_def
  MOUSEEVENTF_RIGHTDOWN_def MOUSEEVENTF_RIGHTUP_def MOUSEEVENTF_MIDDLEDOWN_def
  MOUSEEVENTF_MIDDLEUP_def MOUSEEVENTF_XDOWN_def MOUSEEVENTF_XUP_def MOUSEEVENTF_WHEEL_def
  MOUSEEVENTF_HWHEEL_def KEYEVENTF_EXTENDEDKEY_def KEYEVENTF_KEYUP_def KEYEVENTF_SCANCODE_def

fun button_flags :: "mouse_button \<Rightarrow> bool \<Rightarrow> u32 \<times> i32" where
  "button_flags LeftButton True = (MOUSEEVENTF_LEFTDOWN, 0)"
| "button_flags LeftButton False = (MOUSEEVENTF_LEFTUP, 0)"
| "button_flags RightButton True = (MOUSEEVENTF_RIGHTDOWN, 0)"
| "button_flags RightButton False = (MOUSEEVENTF_RIGHTUP, 0)"
| "button_flags MiddleButton True = (MOUSEEVENTF_MIDDLEDOWN, 0)"
| "button_flags MiddleButton False = (MOUSEEVENTF_MIDDLEUP, 0)"
| "button_flags X1 True = (MOUSEEVENTF_XDOWN, 1)"
| "button_flags X1 False = (MOUSEEVENTF_XUP, 1)"
| "button_flags X2 True = (MOUSEEVENTF_XDOWN, 2)"
| "button_flags X2 False = (MOUSEEVENTF_XUP, 2)"

definition key_flags :: "bool \<Rightarrow> bool \<Rightarrow> u32" where
  "key_flags down extended =
     (let flags = KEYEVENTF_SCANCODE;
          flags = (if \<not> down then flags OR KEYEVENTF_KEYUP else flags)
      in if extended then flags OR KEYEVENTF_EXTENDEDKEY else flags)"

definition wheel_flag :: "bool \<Rightarrow> u32" where
  "wheel_flag horizontal = (if horizontal then MOUSEEVENTF_HWHEEL else MOUSEEVENTF_WHEEL)"

text \<open>What \<^verbatim>\<open>inject\<close> asks of the system; everything sent carries the marker.\<close>

fun inject :: "input_event \<Rightarrow> injection" where
  "inject (CursorEnter x y) = SetCursor x y"
| "inject (MouseMove dx dy) = SendOsInput (MouseInput dx dy 0 MOUSEEVENTF_MOVE)"
| "inject (MouseButton b down) =
     (case button_flags b down of (flags, data) \<Rightarrow> SendOsInput (MouseInput 0 0 data flags))"
| "inject (Wheel delta horizontal) =
     SendOsInput (MouseInput 0 0 delta (wheel_flag horizontal))"
| "inject (Key vk scan down extended) =
     SendOsInput (KeyboardInput vk scan (key_flags down extended))"

section \<open>Sequences of operating-system events\<close>

datatype os_event =
    MouseAt u64 mouse_message
  | KeyAt u64 "u16 \<Rightarrow> bool" key_message
  | RawReport raw_mouse
  | BeatAt u64

fun os_step :: "os_event \<Rightarrow> capture_state \<Rightarrow> capture_state \<times> verdict" where
  "os_step (MouseAt now m) s = mouse_hook now m s"
| "os_step (KeyAt now held m) s = keyboard_hook now held m s"
| "os_step (RawReport r) s = (raw_input r s, Pass)"
| "os_step (BeatAt now) s = (heartbeat now s, Pass)"

fun os_run :: "os_event list \<Rightarrow> capture_state \<Rightarrow> capture_state \<times> verdict list" where
  "os_run [] s = (s, [])"
| "os_run (e # es) s =
     (let (s1, v) = os_step e s; (s2, vs) = os_run es s1 in (s2, v # vs))"

lemma report_fields [simp]:
  "suppressing (report e s) = suppressing s" "watchdog (report e s) = watchdog s"
  by (simp_all add: report_def)

lemma suppressing_now_off [simp]: "\<not> suppressing s \<Longrightarrow> suppressing_now now s = (s, False)"
  by (simp add: suppressing_now_def)

lemma swallow_if_iff [simp]: "swallow_if b = Swallow \<longleftrightarrow> b" "swallow_if b = Pass \<longleftrightarrow> \<not> b"
  by (simp_all add: swallow_if_def)

lemma released_step:
  "\<not> suppressing s \<Longrightarrow> \<not> suppressing (fst (os_step e s)) \<and> snd (os_step e s) = Pass"
  by (cases e) (auto simp: mouse_hook_def keyboard_hook_def raw_input_def heartbeat_def Let_def
      split_def swallow_if_def split: option.splits)

lemma released_run:
  "\<not> suppressing s \<Longrightarrow> \<not> suppressing (fst (os_run es s)) \<and> set (snd (os_run es s)) \<subseteq> {Pass}"
proof (induction es arbitrary: s)
  case (Cons e es)
  from released_step [OF Cons.prems, of e] Cons.IH [of "fst (os_step e s)"] show ?case
    by (simp add: split_def Let_def)
qed simp

text \<open>The conditions under which anything is swallowed.\<close>

definition may_swallow :: "u64 \<Rightarrow> capture_state \<Rightarrow> bool" where
  "may_swallow now s \<longleftrightarrow> suppressing s \<and> u64_saturating_sub now (watchdog s) \<le> WATCHDOG_LIMIT_MS"

lemma suppressing_now_eq:
  "suppressing_now now s = (if may_swallow now s then (s, True) else (s\<lparr>suppressing := False\<rparr>, False))"
  by (auto simp: suppressing_now_def may_swallow_def not_le)

lemma may_swallow_report [simp]: "may_swallow now (report e s) = may_swallow now s"
  by (simp add: may_swallow_def)

lemma mouse_verdict:
  "mouse_hook now m s = (s', Swallow) \<Longrightarrow> may_swallow now s \<and> mm_extra m \<noteq> INJECTED_MARKER"
  by (auto simp: mouse_hook_def Let_def suppressing_now_eq split_def split: if_splits option.splits)

lemma key_verdict:
  "keyboard_hook now held m s = (s', Swallow) \<Longrightarrow> may_swallow now s \<and> km_extra m \<noteq> INJECTED_MARKER"
  by (auto simp: keyboard_hook_def Let_def suppressing_now_eq split_def split: if_splits)

text \<open>Ctrl+Alt+F12 going down.\<close>

definition escape_hatch :: "(u16 \<Rightarrow> bool) \<Rightarrow> key_message \<Rightarrow> bool" where
  "escape_hatch held m \<longleftrightarrow> 0 \<le> sint (km_code m) \<and> km_extra m \<noteq> INJECTED_MARKER \<and>
     (km_wparam m = WM_KEYDOWN \<or> km_wparam m = WM_SYSKEYDOWN) \<and> ucast (km_vk m) = VK_F12 \<and>
     held VK_CONTROL \<and> held VK_MENU"

lemma escape_hatch_releases:
  "escape_hatch held m \<Longrightarrow> keyboard_hook now held m s = (s\<lparr>suppressing := False\<rparr>, Pass)"
  by (auto simp: escape_hatch_def keyboard_hook_def Let_def message_defs)

lemma button_flags_inject: "button_flags b x = button_flags c y \<Longrightarrow> b = c \<and> x = y"
  by (cases b; cases c; cases x; cases y; simp add: flag_defs)

lemma key_flags_inject: "key_flags d e = key_flags d' e' \<longleftrightarrow> d = d' \<and> e = e'"
  by (cases d; cases d'; cases e; cases e') (simp_all add: key_flags_def flag_defs)

lemma wheel_flag_inject: "wheel_flag h = wheel_flag h' \<longleftrightarrow> h = h'"
  by (cases h; cases h') (simp_all add: wheel_flag_def flag_defs)

lemma mouse_flags_differ:
  "fst (button_flags b x) \<noteq> MOUSEEVENTF_MOVE" "fst (button_flags b x) \<noteq> wheel_flag h"
  "wheel_flag h \<noteq> MOUSEEVENTF_MOVE"
  by (cases b; cases x; cases h; simp add: flag_defs wheel_flag_def)+

lemma inject_button:
  "inject (MouseButton b x) = SendOsInput (MouseInput 0 0 (snd (button_flags b x)) (fst (button_flags b x)))"
  by (simp add: split_def)

lemma button_flags_eq:
  "snd (button_flags b x) = snd (button_flags c y) \<and> fst (button_flags b x) = fst (button_flags c y)
     \<longleftrightarrow> b = c \<and> x = y"
  using button_flags_inject [of b x c y] by (auto simp: prod_eq_iff)

lemma inject_injective: "inject e = inject e' \<Longrightarrow> e = e'"
  by (cases e; cases e'; simp del: inject.simps(3) add: inject_button key_flags_inject wheel_flag_inject
      mouse_flags_differ mouse_flags_differ [symmetric] button_flags_eq)

section \<open>Properties\<close>


definition sample_capture :: capture_state where
  "sample_capture = \<lparr>suppressing = True, watchdog = 10000, have_last = False, running = True,
     sink_open = True, reported = []\<rparr>"

definition sample_click :: mouse_message where
  "sample_click = \<lparr>mm_code = 0, mm_wparam = 0x0201, mm_data = 0, mm_extra = 0\<rparr>"


text \<open>
  The watchdog reads the wall clock. If the clock is set back while suppression is on,
  the time since the last heartbeat reads as zero and input stays swallowed with nobody
  looking after it, until the clock passes the old heartbeat by two seconds.
\<close>

theorem watchdog_blind_to_clock_step:
  assumes "suppressing s" and "now < watchdog s" and "0 \<le> sint (mm_code m)"
    and "mm_extra m \<noteq> INJECTED_MARKER"
  shows "snd (mouse_hook now m s) = Swallow"
  using assms
  by (auto simp: mouse_hook_def Let_def suppressing_now_eq may_swallow_def u64_saturating_sub_def
      WATCHDOG_LIMIT_MS_def split_def split: option.split)

text \<open>
  Replay is faithful: two different events are never replayed alike. Buttons, their
  direction, wheel axes and steps, motion, key codes, key direction and the extended flag
  can all be told apart in what the system is asked to do.
\<close>

theorem replay_is_injective: "inject e = inject e' \<longleftrightarrow> e = e'"
  using inject_injective by blast

text \<open>
  Capture can be started again after it stopped or failed to start, except after one
  failure: when the hook thread cannot be spawned, the running flag stays set and every
  later start is refused as already running, although nothing is running.
\<close>

theorem capture_restart:
  assumes "\<not> running s"
  shows "(case capture_start now os s of
      (s', Inr t) \<Rightarrow> running s' \<and> \<not> suppressing s' \<and> sink_open s' \<and> \<not> running (capture_drop s')
    | (s', Inl e) \<Rightarrow>
        (if \<exists>msg. os = SpawnFailed msg
         then running s' \<and> (\<forall>later os'. capture_start later os' s' = (s', Inl AlreadyRunning))
         else \<not> running s'))"
  using assms by (cases os) (simp_all add: capture_start_def capture_drop_def Let_def)

end
