(* ===== verification/Hook_Thread.thy ===== *)
theory Hook_Thread
  imports Capture
begin

text \<open>
  The thread behind \<open>Capture\<close> on Windows (\<^verbatim>\<open>hook_thread\<close>, \<^verbatim>\<open>start_raw_input\<close> and \<^verbatim>\<open>raw_input_proc\<close> of
  \<^verbatim>\<open>crates/is-input/src/platform/windows.rs\<close>): which hooks and windows it holds, from
  \<^verbatim>\<open>Capture::start\<close> to the drop of the capture.

  A process is the statics of \<open>Capture\<close>, the set of what has been taken from the system, and the
  thread, if one pumps messages. What the system answers to each call is the record \<open>hook_os\<close>.
\<close>

section \<open>The thread\<close>

datatype resource = MouseHook | KeyboardHook | RawWindow

record hook_os =
  ho_thread :: u32
  ho_mouse :: bool
  ho_keyboard :: bool
  ho_window :: bool
  ho_raw :: bool

definition WM_INPUT :: u32 where "WM_INPUT = 0x00FF"

text \<open>
  The message-only window: a report is read only when both calls of \<^verbatim>\<open>GetRawInputData\<close> answer a
  sensible size. \<^verbatim>\<open>RAWINPUT\<close> has 48 bytes, its header 24. Every path ends in the default
  procedure of the system.
\<close>

definition raw_input_proc :: "u32 \<Rightarrow> u32 \<Rightarrow> u32 \<Rightarrow> raw_mouse \<Rightarrow> capture_state \<Rightarrow> capture_state" where
  "raw_input_proc message len written raw s =
     (if message \<noteq> WM_INPUT then s
      else if len = 0 \<or> 48 * 4 < unat len then s
      else if written = 0xFFFFFFFF \<or> unat written < 24 then s
      else raw_input raw s)"

definition start_raw_input :: "hook_os \<Rightarrow> resource set \<Rightarrow> resource set \<times> bool" where
  "start_raw_input os rs =
     (if \<not> ho_window os then (rs, False)
      else let rs = insert RawWindow rs in
        if \<not> ho_raw os then (rs - {RawWindow}, False) else (rs, True))"

text \<open>Up to the message to \<^verbatim>\<open>start\<close>: the error, or whether there is a window for raw input.\<close>

definition hook_install :: "hook_os \<Rightarrow> resource set \<Rightarrow> resource set \<times> (input_error + bool)" where
  "hook_install os rs =
     (let rs = (if ho_mouse os then insert MouseHook rs else rs);
          rs = (if ho_keyboard os then insert KeyboardHook rs else rs)
      in if \<not> ho_mouse os \<or> \<not> ho_keyboard os then
           (let rs = (if ho_mouse os then rs - {MouseHook} else rs);
                rs = (if ho_keyboard os then rs - {KeyboardHook} else rs)
            in (rs, Inl (Os ''could not install the input hooks'')))
         else case start_raw_input os rs of (rs, raw) \<Rightarrow> (rs, Inr raw))"

text \<open>After the last message.\<close>

definition hook_remove :: "bool \<Rightarrow> resource set \<Rightarrow> resource set" where
  "hook_remove raw rs = (if raw then rs - {RawWindow} else rs) - {MouseHook} - {KeyboardHook}"

section \<open>A process that captures\<close>

record capture_process =
  cp_state :: capture_state
  cp_resources :: "resource set"
  cp_thread :: "bool option"

text \<open>
  \<^verbatim>\<open>Capture::start\<close> with its thread: \<open>spawned\<close> is what spawning it answers. The error of a thread
  that dies before it reports is left to \<open>capture_start\<close>: no path of \<open>hook_install\<close> does.
\<close>

definition process_start ::
  "u64 \<Rightarrow> string + hook_os \<Rightarrow> capture_process \<Rightarrow> capture_process \<times> (input_error + u32)" where
  "process_start now spawned p =
     (if running (cp_state p) then (p, Inl AlreadyRunning)
      else case spawned of
        Inl e \<Rightarrow> (case capture_start now (SpawnFailed e) (cp_state p) of (s, r) \<Rightarrow> (p\<lparr>cp_state := s\<rparr>, r))
      | Inr os \<Rightarrow>
          (case hook_install os (cp_resources p) of
             (rs, Inl e) \<Rightarrow>
               (case capture_start now (HooksRefused e) (cp_state p) of
                  (s, r) \<Rightarrow> (p\<lparr>cp_state := s, cp_resources := rs\<rparr>, r))
           | (rs, Inr raw) \<Rightarrow>
               (case capture_start now (HooksReady (ho_thread os)) (cp_state p) of
                  (s, r) \<Rightarrow> (p\<lparr>cp_state := s, cp_resources := rs, cp_thread := Some raw\<rparr>, r))))"

text \<open>
  Dropping the capture stops the swallowing, ends the message loop and waits for the thread,
  which takes its hooks out; then the rest of \<open>capture_drop\<close>.
\<close>

definition process_drop :: "capture_process \<Rightarrow> capture_process" where
  "process_drop p =
     (let s = (cp_state p)\<lparr>suppressing := False\<rparr>;
          p = p\<lparr>cp_state := s\<rparr>;
          p = (case cp_thread p of
                 None \<Rightarrow> p
               | Some raw \<Rightarrow> p\<lparr>cp_resources := hook_remove raw (cp_resources p), cp_thread := None,
                   cp_state := s\<lparr>suppressing := False\<rparr>\<rparr>)
      in p\<lparr>cp_state := capture_drop (cp_state p)\<rparr>)"

text \<open>
  What can happen to it. The system calls a hook that is installed, and the window that exists;
  the owner of the capture asks for suppression and beats while the thread runs.
\<close>

inductive capture_step :: "capture_process \<Rightarrow> capture_process \<Rightarrow> bool" where
  Start: "capture_step p (fst (process_start now spawned p))"
| Mouse: "MouseHook \<in> cp_resources p \<Longrightarrow> capture_step p (p\<lparr>cp_state := fst (mouse_hook now m (cp_state p))\<rparr>)"
| Keyboard: "KeyboardHook \<in> cp_resources p \<Longrightarrow>
    capture_step p (p\<lparr>cp_state := fst (keyboard_hook now held m (cp_state p))\<rparr>)"
| Raw: "RawWindow \<in> cp_resources p \<Longrightarrow>
    capture_step p (p\<lparr>cp_state := raw_input_proc message len written raw (cp_state p)\<rparr>)"
| Suppress: "cp_thread p \<noteq> None \<Longrightarrow> capture_step p (p\<lparr>cp_state := set_suppressing now on (cp_state p)\<rparr>)"
| Beat: "cp_thread p \<noteq> None \<Longrightarrow> capture_step p (p\<lparr>cp_state := heartbeat now (cp_state p)\<rparr>)"
| Drop: "cp_thread p \<noteq> None \<Longrightarrow> capture_step p (process_drop p)"

definition idle_process :: capture_process where
  "idle_process = \<lparr>cp_state = \<lparr>suppressing = False, watchdog = 0, have_last = False, running = False,
     sink_open = False, reported = []\<rparr>, cp_resources = {}, cp_thread = None\<rparr>"

inductive reaches :: "capture_process \<Rightarrow> bool" where
  Idle: "reaches idle_process"
| Step: "reaches p \<Longrightarrow> capture_step p q \<Longrightarrow> reaches q"

section \<open>Invariant\<close>

definition thread_resources :: "bool option \<Rightarrow> resource set" where
  "thread_resources t =
     (case t of None \<Rightarrow> {} | Some raw \<Rightarrow> {MouseHook, KeyboardHook} \<union> (if raw then {RawWindow} else {}))"

definition process_inv :: "capture_process \<Rightarrow> bool" where
  "process_inv p \<longleftrightarrow> cp_resources p = thread_resources (cp_thread p) \<and>
     (cp_thread p = None \<longrightarrow> \<not> suppressing (cp_state p)) \<and>
     (cp_thread p \<noteq> None \<longrightarrow> running (cp_state p) \<and> sink_open (cp_state p))"

lemma hooks_keep_running:
  "running (fst (mouse_hook now m s)) = running s" "sink_open (fst (mouse_hook now m s)) = sink_open s"
  "running (fst (keyboard_hook now held m' s)) = running s" "sink_open (fst (keyboard_hook now held m' s)) = sink_open s"
  "running (raw_input_proc message len written raw s) = running s"
  "sink_open (raw_input_proc message len written raw s) = sink_open s"
  "running (set_suppressing now on s) = running s" "sink_open (set_suppressing now on s) = sink_open s"
  "running (heartbeat now s) = running s" "sink_open (heartbeat now s) = sink_open s"
  by (auto simp: mouse_hook_def keyboard_hook_def raw_input_proc_def raw_input_def report_def set_suppressing_def
      heartbeat_def suppressing_now_def Let_def split: option.split)

lemma install_from_nothing:
  "hook_install os {} = (if ho_mouse os \<and> ho_keyboard os
     then (thread_resources (Some (ho_window os \<and> ho_raw os)), Inr (ho_window os \<and> ho_raw os))
     else ({}, Inl (Os ''could not install the input hooks'')))"
  by (auto simp: hook_install_def start_raw_input_def thread_resources_def Let_def)

lemma hook_needs_thread: "process_inv p \<Longrightarrow> x \<in> cp_resources p \<Longrightarrow> cp_thread p \<noteq> None"
  by (cases "cp_thread p") (auto simp: process_inv_def thread_resources_def)

lemma start_keeps_inv: "process_inv p \<Longrightarrow> process_inv (fst (process_start now spawned p))"
  by (cases "cp_thread p"; cases spawned)
    (auto simp: process_inv_def process_start_def capture_start_def install_from_nothing Let_def thread_resources_def
      split: if_splits)

lemma drop_keeps_inv: "process_inv p \<Longrightarrow> process_inv (process_drop p)"
  by (auto simp: process_inv_def process_drop_def capture_drop_def hook_remove_def thread_resources_def Let_def split: option.splits)

lemma state_keeps_inv:
  "process_inv p \<Longrightarrow> cp_thread p \<noteq> None \<Longrightarrow> running s = running (cp_state p) \<Longrightarrow> sink_open s = sink_open (cp_state p) \<Longrightarrow>
     process_inv (p\<lparr>cp_state := s\<rparr>)"
  by (auto simp: process_inv_def)

lemma step_keeps_process_inv: "capture_step p q \<Longrightarrow> process_inv p \<Longrightarrow> process_inv q"
  by (induction rule: capture_step.induct)
    (simp_all add: start_keeps_inv drop_keeps_inv state_keeps_inv hooks_keep_running hook_needs_thread)

lemma reaches_inv: "reaches p \<Longrightarrow> process_inv p"
proof (induction rule: reaches.induct)
  case Idle
  show ?case by (simp add: process_inv_def idle_process_def thread_resources_def)
qed (rule step_keeps_process_inv)

section \<open>Property\<close>

text \<open>
  C31: Hooks never outlive their capture. In every state a process can reach, one without a running
  capture has no hook and no window in the system and swallows nothing; one with a capture has
  both hooks, and once the capture is dropped everything is given back, nothing is swallowed, and
  capture can be started again. A start that is refused one of the hooks keeps none.
\<close>

theorem hooks_never_outlive_capture:
  assumes "reaches p"
  shows "(cp_thread p = None \<longrightarrow> cp_resources p = {} \<and> \<not> suppressing (cp_state p)) \<and>
    (cp_thread p \<noteq> None \<longrightarrow> {MouseHook, KeyboardHook} \<subseteq> cp_resources p \<and>
       cp_resources (process_drop p) = {} \<and> cp_thread (process_drop p) = None \<and>
       \<not> suppressing (cp_state (process_drop p)) \<and>
       (ho_mouse os \<and> ho_keyboard os \<longrightarrow>
          snd (process_start now (Inr os) (process_drop p)) = Inr (ho_thread os))) \<and>
    (\<not> (ho_mouse os \<and> ho_keyboard os) \<longrightarrow>
       cp_resources (fst (process_start now (Inr os) p)) = cp_resources p \<and>
       cp_thread (fst (process_start now (Inr os) p)) = cp_thread p)"
proof -
  have inv: "process_inv p" by (rule reaches_inv [OF assms])
  show ?thesis
  proof (cases "cp_thread p")
    case None
    then show ?thesis
      using inv
      by (auto simp: process_inv_def thread_resources_def process_start_def install_from_nothing capture_start_def Let_def)
  next
    case (Some raw)
    then have "running (cp_state p)" and "cp_resources (process_drop p) = {}"
      using inv by (auto simp: process_inv_def thread_resources_def process_drop_def hook_remove_def Let_def)
    moreover have "cp_thread (process_drop p) = None" "\<not> suppressing (cp_state (process_drop p))"
      "\<not> running (cp_state (process_drop p))"
      using Some by (simp_all add: process_drop_def capture_drop_def Let_def)
    ultimately show ?thesis
      using Some inv
      by (auto simp: process_inv_def thread_resources_def process_start_def install_from_nothing capture_start_def Let_def)
  qed
qed

definition granted :: hook_os where
  "granted = \<lparr>ho_thread = 7, ho_mouse = True, ho_keyboard = True, ho_window = True, ho_raw = False\<rparr>"

theorem hooks_never_outlive_capture_witness:
  "let p = fst (process_start 5 (Inr granted) idle_process)
   in cp_resources p = {MouseHook, KeyboardHook} \<and> cp_resources (process_drop p) = {} \<and>
      snd (process_start 9 (Inr granted) (process_drop p)) = Inr 7"
proof -
  have started: "reaches (fst (process_start 5 (Inr granted) idle_process))"
    by (rule reaches.Step [OF reaches.Idle capture_step.Start])
  have "cp_thread (fst (process_start 5 (Inr granted) idle_process)) = Some False"
    and "cp_resources (fst (process_start 5 (Inr granted) idle_process)) = {MouseHook, KeyboardHook}"
    by (auto simp: idle_process_def granted_def process_start_def hook_install_def start_raw_input_def capture_start_def Let_def)
  then show ?thesis
    using hooks_never_outlive_capture [OF started, of granted 9] by (simp add: Let_def) (simp add: granted_def)
qed

end
