(* ===== verification/Mac_Capture.thy ===== *)
theory Mac_Capture
  imports Capture "HOL-Library.Signed_Division"
begin

text \<open>
  Capturing, swallowing and replaying input on macOS
  (\<^verbatim>\<open>crates/is-input/src/platform/macos.rs\<close>).

  The process-wide statics are the record \<open>mac_state\<close>; what the program asks of the system
  (detaching the mouse from the cursor, moving the cursor, posting events, switching the tap)
  is recorded in order in \<open>mc_calls\<close>. What the system answers is the record \<open>mac_os\<close>. Posted
  events all pass through \<open>mac_post\<close>, which stamps them and adds the modifiers held for the
  remote keyboard. Coordinates the system gives as \<^verbatim>\<open>f64\<close> are taken after the rounding to
  \<^verbatim>\<open>i32\<close> the source applies at once; the ones the program gives are exact. A result of None is
  a panic. The two atomic variables behind suppression are also modelled one access at a time.
\<close>

unbundle bit_operations_syntax

section \<open>Constants of the source\<close>

type_synonym i64 = "64 word"

definition kCGEventLeftMouseDown :: u32 where "kCGEventLeftMouseDown = 1"
definition kCGEventLeftMouseUp :: u32 where "kCGEventLeftMouseUp = 2"
definition kCGEventRightMouseDown :: u32 where "kCGEventRightMouseDown = 3"
definition kCGEventRightMouseUp :: u32 where "kCGEventRightMouseUp = 4"
definition kCGEventMouseMoved :: u32 where "kCGEventMouseMoved = 5"
definition kCGEventLeftMouseDragged :: u32 where "kCGEventLeftMouseDragged = 6"
definition kCGEventRightMouseDragged :: u32 where "kCGEventRightMouseDragged = 7"
definition kCGEventKeyDown :: u32 where "kCGEventKeyDown = 10"
definition kCGEventKeyUp :: u32 where "kCGEventKeyUp = 11"
definition kCGEventFlagsChanged :: u32 where "kCGEventFlagsChanged = 12"
definition kCGEventScrollWheel :: u32 where "kCGEventScrollWheel = 22"
definition kCGEventOtherMouseDown :: u32 where "kCGEventOtherMouseDown = 25"
definition kCGEventOtherMouseUp :: u32 where "kCGEventOtherMouseUp = 26"
definition kCGEventOtherMouseDragged :: u32 where "kCGEventOtherMouseDragged = 27"
definition kCGEventTapDisabledByTimeout :: u32 where "kCGEventTapDisabledByTimeout = 0xFFFFFFFE"
definition kCGEventTapDisabledByUserInput :: u32 where "kCGEventTapDisabledByUserInput = 0xFFFFFFFF"

lemmas event_kinds = kCGEventLeftMouseDown_def kCGEventLeftMouseUp_def kCGEventRightMouseDown_def
  kCGEventRightMouseUp_def kCGEventMouseMoved_def kCGEventLeftMouseDragged_def
  kCGEventRightMouseDragged_def kCGEventKeyDown_def kCGEventKeyUp_def kCGEventFlagsChanged_def
  kCGEventScrollWheel_def kCGEventOtherMouseDown_def kCGEventOtherMouseUp_def
  kCGEventOtherMouseDragged_def kCGEventTapDisabledByTimeout_def kCGEventTapDisabledByUserInput_def

definition kCGEventFlagMaskShift :: u64 where "kCGEventFlagMaskShift = 0x20000"
definition kCGEventFlagMaskControl :: u64 where "kCGEventFlagMaskControl = 0x40000"
definition kCGEventFlagMaskAlternate :: u64 where "kCGEventFlagMaskAlternate = 0x80000"
definition kCGEventFlagMaskCommand :: u64 where "kCGEventFlagMaskCommand = 0x100000"

lemmas modifier_masks = kCGEventFlagMaskShift_def kCGEventFlagMaskControl_def
  kCGEventFlagMaskAlternate_def kCGEventFlagMaskCommand_def

definition kCGMouseButtonLeft :: u32 where "kCGMouseButtonLeft = 0"
definition kCGMouseButtonRight :: u32 where "kCGMouseButtonRight = 1"
definition kCGMouseButtonCenter :: u32 where "kCGMouseButtonCenter = 2"

definition mac_INJECTED_MARKER :: i64 where "mac_INJECTED_MARKER = 0x14E5055"
definition WHEEL_NOTCH :: i32 where "WHEEL_NOTCH = 120"
definition mac_WATCHDOG_LIMIT_MS :: u64 where "mac_WATCHDOG_LIMIT_MS = 2000"

section \<open>The statics and the system\<close>

record desktop =
  dk_min_x :: i32
  dk_min_y :: i32
  dk_max_x :: i32
  dk_max_y :: i32

datatype mac_event =
    MouseEvent u32 i32 i32 u32 "(i64 \<times> i64) option" "i64 option"
  | ScrollEvent u32 i32 "i64 option"
  | KeyboardEvent u16 bool

datatype mac_call =
    Associate bool
  | Warp i32 i32
  | Post i64 u64 mac_event
  | EnableTap u64 bool
  | StopRunLoop u64

record mac_state =
  mc_suppressing :: bool
  mc_detached :: bool
  mc_watchdog :: u64
  mc_runloop :: u64
  mc_tap :: u64
  mc_running :: bool
  mc_sink_open :: bool
  mc_reported :: "input_event list"
  mc_last_x :: i32
  mc_last_y :: i32
  mc_have_last :: bool
  mc_held :: u32
  mc_flags :: u64
  mc_cache :: "(desktop \<times> nat) option"
  mc_calls :: "mac_call list"

text \<open>What the system answers: the cursor, the screens, a monotonic clock in milliseconds, the
  status of a warp, and whether an event cannot be created.\<close>

record mac_os =
  os_cursor :: "(i32 \<times> i32) option"
  os_displays :: "input_error + display_info list"
  os_instant :: nat
  os_warp_status :: i32
  os_no_event :: bool

definition call :: "mac_call \<Rightarrow> mac_state \<Rightarrow> mac_state" where
  "call k s = s\<lparr>mc_calls := mc_calls s @ [k]\<rparr>"

section \<open>Suppression and the pointer\<close>

definition detach_pointer :: "bool \<Rightarrow> mac_state \<Rightarrow> mac_state" where
  "detach_pointer detach s =
     (if mc_detached s = detach then s else call (Associate (\<not> detach)) (s\<lparr>mc_detached := detach\<rparr>))"

definition set_suppression :: "bool \<Rightarrow> mac_state \<Rightarrow> mac_state" where
  "set_suppression suppress s = detach_pointer suppress (s\<lparr>mc_suppressing := suppress\<rparr>)"

definition mac_suppressing_now :: "u64 \<Rightarrow> mac_state \<Rightarrow> mac_state \<times> bool" where
  "mac_suppressing_now now s =
     (if \<not> mc_suppressing s then (s, False)
      else if mac_WATCHDOG_LIMIT_MS < u64_saturating_sub now (mc_watchdog s)
      then (set_suppression False s, False)
      else (s, True))"

definition mac_emit :: "input_event \<Rightarrow> mac_state \<Rightarrow> mac_state" where
  "mac_emit e s = (if mc_sink_open s then s\<lparr>mc_reported := mc_reported s @ [e]\<rparr> else s)"

section \<open>Replay\<close>

definition mac_post :: "mac_event \<Rightarrow> mac_state \<Rightarrow> mac_state" where
  "mac_post e s = call (Post mac_INJECTED_MARKER (mc_flags s) e) s"

definition remember :: "i32 \<Rightarrow> i32 \<Rightarrow> mac_state \<Rightarrow> mac_state" where
  "remember x y s = s\<lparr>mc_last_x := x, mc_last_y := y, mc_have_last := True\<rparr>"

definition cursor_position :: "mac_os \<Rightarrow> input_error + i32 \<times> i32" where
  "cursor_position os =
     (case os_cursor os of None \<Rightarrow> Inl (Os ''CGEventCreate returned nothing'') | Some p \<Rightarrow> Inr p)"

definition current_point :: "mac_os \<Rightarrow> mac_state \<Rightarrow> i32 \<times> i32" where
  "current_point os s =
     (if mc_have_last s then (mc_last_x s, mc_last_y s)
      else case cursor_position os of Inr p \<Rightarrow> p | Inl _ \<Rightarrow> (0, 0))"

text \<open>The rectangle over all screens, and its cache.\<close>

definition screen_edges :: "display_info \<Rightarrow> desktop" where
  "screen_edges d = \<lparr>dk_min_x = di_x d, dk_min_y = di_y d,
     dk_max_x = di_x d + di_width d, dk_max_y = di_y d + di_height d\<rparr>"

definition cover :: "desktop \<Rightarrow> display_info \<Rightarrow> desktop" where
  "cover r d = \<lparr>dk_min_x = i32_min (dk_min_x r) (di_x d), dk_min_y = i32_min (dk_min_y r) (di_y d),
     dk_max_x = i32_max (dk_max_x r) (di_x d + di_width d),
     dk_max_y = i32_max (dk_max_y r) (di_y d + di_height d)\<rparr>"

definition desktop_bounds :: "mac_os \<Rightarrow> mac_state \<Rightarrow> mac_state \<times> desktop option" where
  "desktop_bounds os s =
     (let fresh = (case os_displays os of
            Inr (d # ds) \<Rightarrow>
              let r = foldl cover (screen_edges d) ds in (s\<lparr>mc_cache := Some (r, os_instant os)\<rparr>, Some r)
          | _ \<Rightarrow> (s, None))
      in case mc_cache s of
           Some (r, at) \<Rightarrow> if (os_instant os - at) div 1000 < 2 then (s, Some r) else fresh
         | None \<Rightarrow> fresh)"

definition drag_kind :: "u32 \<Rightarrow> u32 \<times> u32" where
  "drag_kind held =
     (if held AND push_bit 0 1 \<noteq> 0 then (kCGEventLeftMouseDragged, kCGMouseButtonLeft)
      else if held AND push_bit 1 1 \<noteq> 0 then (kCGEventRightMouseDragged, kCGMouseButtonRight)
      else if held \<noteq> 0 then (kCGEventOtherMouseDragged, kCGMouseButtonCenter)
      else (kCGEventMouseMoved, kCGMouseButtonLeft))"

definition clamp_to :: "desktop option \<Rightarrow> i32 \<Rightarrow> i32 \<Rightarrow> (i32 \<times> i32) option" where
  "clamp_to desk x y =
     (case desk of
        None \<Rightarrow> Some (x, y)
      | Some r \<Rightarrow> Option.bind (i32_clamp x (dk_min_x r) (dk_max_x r - 1)) (\<lambda>x.
          map_option (Pair x) (i32_clamp y (dk_min_y r) (dk_max_y r - 1))))"

definition inject_move :: "mac_os \<Rightarrow> i32 \<Rightarrow> i32 \<Rightarrow> mac_state \<Rightarrow> (mac_state \<times> (input_error + unit)) option" where
  "inject_move os dx dy s =
     (let (x, y) = current_point os s; (s, desk) = desktop_bounds os s in
      case clamp_to desk (x + dx) (y + dy) of
        None \<Rightarrow> None
      | Some (nx, ny) \<Rightarrow>
          let (kind, button) = drag_kind (mc_held s) in
          Some (if os_no_event os then (s, Inl (Os ''CGEventCreateMouseEvent returned nothing''))
            else (remember nx ny
              (mac_post (MouseEvent kind nx ny button (Some (scast (nx - x), scast (ny - y))) None) s), Inr ())))"

fun button_event :: "mouse_button \<Rightarrow> bool \<Rightarrow> u32 \<times> u32 \<times> nat" where
  "button_event LeftButton True = (kCGEventLeftMouseDown, kCGMouseButtonLeft, 0)"
| "button_event LeftButton False = (kCGEventLeftMouseUp, kCGMouseButtonLeft, 0)"
| "button_event RightButton True = (kCGEventRightMouseDown, kCGMouseButtonRight, 1)"
| "button_event RightButton False = (kCGEventRightMouseUp, kCGMouseButtonRight, 1)"
| "button_event MiddleButton True = (kCGEventOtherMouseDown, kCGMouseButtonCenter, 2)"
| "button_event MiddleButton False = (kCGEventOtherMouseUp, kCGMouseButtonCenter, 2)"
| "button_event X1 True = (kCGEventOtherMouseDown, 3, 3)"
| "button_event X1 False = (kCGEventOtherMouseUp, 3, 3)"
| "button_event X2 True = (kCGEventOtherMouseDown, 4, 4)"
| "button_event X2 False = (kCGEventOtherMouseUp, 4, 4)"

definition inject_button :: "mac_os \<Rightarrow> mouse_button \<Rightarrow> bool \<Rightarrow> mac_state \<Rightarrow> mac_state \<times> (input_error + unit)" where
  "inject_button os b down s =
     (let (kind, number, n) = button_event b down;
          s = s\<lparr>mc_held := (if down then mc_held s OR push_bit n 1 else mc_held s AND NOT (push_bit n 1))\<rparr>;
          (x, y) = current_point os s
      in if os_no_event os then (s, Inl (Os ''CGEventCreateMouseEvent returned nothing''))
         else (mac_post (MouseEvent kind x y number None (Some (ucast number))) s, Inr ()))"

definition i32_signum :: "i32 \<Rightarrow> i32" where
  "i32_signum a = (if sint a < 0 then - 1 else if a = 0 then 0 else 1)"

definition wheel_lines :: "i32 \<Rightarrow> i32" where
  "wheel_lines delta =
     (let scaled = word_of_int (sint delta sdiv sint WHEEL_NOTCH) in
      if scaled = 0 then i32_signum delta else scaled)"

definition inject_wheel :: "mac_os \<Rightarrow> i32 \<Rightarrow> bool \<Rightarrow> mac_state \<Rightarrow> mac_state \<times> (input_error + unit)" where
  "inject_wheel os delta horizontal s =
     (if delta = 0 then (s, Inr ())
      else if os_no_event os then (s, Inl (Os ''CGEventCreateScrollWheelEvent failed''))
      else (mac_post (ScrollEvent (if horizontal then 2 else 1)
              (if horizontal then 0 else wheel_lines delta)
              (if horizontal then Some (scast (wheel_lines delta)) else None)) s, Inr ()))"

definition modifier_mask :: "u16 \<Rightarrow> u64" where
  "modifier_mask keycode =
     (if keycode \<in> {56, 60} then kCGEventFlagMaskShift
      else if keycode \<in> {59, 62} then kCGEventFlagMaskControl
      else if keycode \<in> {58, 61} then kCGEventFlagMaskAlternate
      else if keycode \<in> {55, 54} then kCGEventFlagMaskCommand
      else 0)"

definition inject_key ::
  "mac_os \<Rightarrow> u16 \<Rightarrow> u16 \<Rightarrow> bool \<Rightarrow> bool \<Rightarrow> mac_state \<Rightarrow> mac_state \<times> (input_error + unit)" where
  "inject_key os vk scan down extended s =
     (case from_pc scan vk extended of
        None \<Rightarrow> (s, Inr ())
      | Some keycode \<Rightarrow>
          let mask = modifier_mask keycode;
              s = (if mask \<noteq> 0
                then s\<lparr>mc_flags := (if down then mc_flags s OR mask else mc_flags s AND NOT mask)\<rparr> else s)
          in if os_no_event os then (s, Inl (Os ''CGEventCreateKeyboardEvent failed''))
             else (mac_post (KeyboardEvent keycode down) s, Inr ()))"

definition set_cursor_position :: "mac_os \<Rightarrow> i32 \<Rightarrow> i32 \<Rightarrow> mac_state \<Rightarrow> mac_state \<times> (input_error + unit)" where
  "set_cursor_position os x y s =
     (let s = call (Warp x y) s in
      if os_warp_status os \<noteq> 0
      then (s, Inl (Os (''CGWarpMouseCursorPosition failed with '' @ signed_decimal (sint (os_warp_status os)))))
      else (remember x y (if \<not> mc_detached s then call (Associate True) s else s), Inr ()))"

fun mac_inject :: "mac_os \<Rightarrow> input_event \<Rightarrow> mac_state \<Rightarrow> (mac_state \<times> (input_error + unit)) option" where
  "mac_inject os (CursorEnter x y) s = Some (set_cursor_position os x y s)"
| "mac_inject os (MouseMove dx dy) s = inject_move os dx dy s"
| "mac_inject os (MouseButton b down) s = Some (inject_button os b down s)"
| "mac_inject os (Wheel delta horizontal) s = Some (inject_wheel os delta horizontal s)"
| "mac_inject os (Key vk scan down extended) s = Some (inject_key os vk scan down extended s)"

section \<open>The tap\<close>

text \<open>An event as the tap is given it: its type, its flags and the integer fields it is asked for.\<close>

record tap_event =
  te_kind :: u32
  te_flags :: u64
  te_user_data :: i64
  te_delta_x :: i64
  te_delta_y :: i64
  te_button :: i64
  te_axis1 :: i64
  te_axis2 :: i64
  te_keycode :: i64

definition modifier_held :: "u16 \<Rightarrow> u64 \<Rightarrow> bool" where
  "modifier_held keycode flags =
     (if keycode \<in> {56, 60} then flags AND kCGEventFlagMaskShift \<noteq> 0
      else if keycode \<in> {59, 62} then flags AND kCGEventFlagMaskControl \<noteq> 0
      else if keycode \<in> {58, 61} then flags AND kCGEventFlagMaskAlternate \<noteq> 0
      else if keycode \<in> {55, 54} then flags AND kCGEventFlagMaskCommand \<noteq> 0
      else False)"

definition key_is_down :: "tap_event \<Rightarrow> bool" where
  "key_is_down e =
     (if te_kind e = kCGEventKeyDown then True
      else if te_kind e = kCGEventKeyUp then False
      else modifier_held (ucast (te_keycode e)) (te_flags e))"

definition is_escape :: "tap_event \<Rightarrow> bool" where
  "is_escape e \<longleftrightarrow> te_kind e \<in> {kCGEventKeyDown, kCGEventKeyUp, kCGEventFlagsChanged} \<and> key_is_down e \<and>
     (ucast (te_keycode e) :: u16) = 111 \<and> te_flags e AND kCGEventFlagMaskControl \<noteq> 0 \<and>
     te_flags e AND kCGEventFlagMaskAlternate \<noteq> 0"

definition tap_report :: "tap_event \<Rightarrow> input_event option" where
  "tap_report e =
     (let kind = te_kind e in
      if kind \<in> {kCGEventMouseMoved, kCGEventLeftMouseDragged, kCGEventRightMouseDragged, kCGEventOtherMouseDragged}
      then (let dx = ucast (te_delta_x e); dy = ucast (te_delta_y e) in
            if dx = 0 \<and> dy = 0 then None else Some (MouseMove dx dy))
      else if kind = kCGEventLeftMouseDown then Some (MouseButton LeftButton True)
      else if kind = kCGEventLeftMouseUp then Some (MouseButton LeftButton False)
      else if kind = kCGEventRightMouseDown then Some (MouseButton RightButton True)
      else if kind = kCGEventRightMouseUp then Some (MouseButton RightButton False)
      else if kind \<in> {kCGEventOtherMouseDown, kCGEventOtherMouseUp}
      then Some (MouseButton (if te_button e = 2 then MiddleButton else if te_button e = 3 then X1 else X2)
             (kind = kCGEventOtherMouseDown))
      else if kind = kCGEventScrollWheel
      then (let vertical = ucast (te_axis1 e) :: i32; horizontal = ucast (te_axis2 e) :: i32 in
            if vertical \<noteq> 0 then Some (Wheel (vertical * WHEEL_NOTCH) False)
            else if horizontal \<noteq> 0 then Some (Wheel (horizontal * WHEEL_NOTCH) True)
            else None)
      else if kind \<in> {kCGEventKeyDown, kCGEventKeyUp, kCGEventFlagsChanged}
      then map_option (\<lambda>(scan, vk, extended). Key vk scan (key_is_down e) extended) (to_pc (ucast (te_keycode e)))
      else None)"

definition tap_callback :: "u64 \<Rightarrow> tap_event \<Rightarrow> mac_state \<Rightarrow> mac_state \<times> verdict" where
  "tap_callback now e s =
     (if te_kind e = kCGEventTapDisabledByTimeout \<or> te_kind e = kCGEventTapDisabledByUserInput
      then (if mc_tap s \<noteq> 0 then call (EnableTap (mc_tap s) True) s else s, Pass)
      else if te_user_data e = mac_INJECTED_MARKER then (s, Pass)
      else if is_escape e then (if mc_suppressing s then set_suppression False s else s, Pass)
      else
        let s = (case tap_report e of Some r \<Rightarrow> mac_emit r s | None \<Rightarrow> s);
            (s, b) = mac_suppressing_now now s
        in (s, swallow_if b))"

section \<open>Starting and stopping\<close>

definition event_mask :: u64 where
  "event_mask = fold (\<lambda>t mask. mask OR push_bit (unat t) 1)
     [kCGEventLeftMouseDown, kCGEventLeftMouseUp, kCGEventRightMouseDown, kCGEventRightMouseUp,
      kCGEventMouseMoved, kCGEventLeftMouseDragged, kCGEventRightMouseDragged, kCGEventKeyDown,
      kCGEventKeyUp, kCGEventFlagsChanged, kCGEventScrollWheel, kCGEventOtherMouseDown,
      kCGEventOtherMouseUp, kCGEventOtherMouseDragged] 0"

text \<open>What the tap thread comes to: it cannot be spawned, it dies before it reports, the tap is
  refused, it cannot be attached, or it runs with this tap on this run loop.\<close>

datatype tap_start = TapSpawnFailed string | TapThreadDied | TapRefused | NoSource | TapReady u64 u64

definition tap_thread :: "tap_start \<Rightarrow> mac_state \<Rightarrow> mac_state \<times> (input_error + unit) option" where
  "tap_thread os s =
     (case os of
        TapReady tap runloop \<Rightarrow>
          ((call (EnableTap tap True) (s\<lparr>mc_tap := tap\<rparr>))\<lparr>mc_runloop := runloop\<rparr>, Some (Inr ()))
      | TapRefused \<Rightarrow> (s, Some (Inl (Os (''macOS refused the event tap. Give InputShare permission in '' @
          ''System Settings > Privacy & Security > Accessibility, and in Input Monitoring, then try again.''))))
      | NoSource \<Rightarrow> (s\<lparr>mc_tap := 0\<rparr>, Some (Inl (Os ''could not attach the event tap'')))
      | _ \<Rightarrow> (s, None))"

definition tap_thread_end :: "mac_state \<Rightarrow> mac_state" where
  "tap_thread_end s = set_suppression False ((call (EnableTap (mc_tap s) False) s)\<lparr>mc_tap := 0\<rparr>)"

definition mac_capture_start :: "u64 \<Rightarrow> tap_start \<Rightarrow> mac_state \<Rightarrow> mac_state \<times> (input_error + unit)" where
  "mac_capture_start now os s =
     (if mc_running s then (s, Inl AlreadyRunning)
      else
        let s = (set_suppression False (s\<lparr>mc_running := True, mc_sink_open := True\<rparr>))
              \<lparr>mc_watchdog := now, mc_have_last := False, mc_held := 0, mc_flags := 0\<rparr>
        in case os of
             TapSpawnFailed e \<Rightarrow> (s, Inl (Os e))
           | _ \<Rightarrow>
               (case tap_thread os s of
                  (s, Some (Inr _)) \<Rightarrow> (s, Inr ())
                | (s, Some (Inl e)) \<Rightarrow> (s\<lparr>mc_running := False\<rparr>, Inl e)
                | (s, None) \<Rightarrow> (s\<lparr>mc_running := False\<rparr>, Inl (Os ''the capture thread died on startup''))))"

definition mac_set_suppressing :: "u64 \<Rightarrow> bool \<Rightarrow> mac_state \<Rightarrow> mac_state" where
  "mac_set_suppressing now suppress s =
     (let s = set_suppression suppress (s\<lparr>mc_watchdog := now\<rparr>)
      in if suppress then s\<lparr>mc_have_last := False\<rparr> else s)"

definition mac_heartbeat :: "u64 \<Rightarrow> mac_state \<Rightarrow> mac_state" where
  "mac_heartbeat now s = s\<lparr>mc_watchdog := now\<rparr>"

text \<open>Dropping the capture stops the run loop and waits for the thread to end.\<close>

definition mac_capture_drop :: "mac_state \<Rightarrow> mac_state" where
  "mac_capture_drop s =
     (let s = set_suppression False s; runloop = mc_runloop s; s = s\<lparr>mc_runloop := 0\<rparr>;
          s = (if runloop \<noteq> 0 then tap_thread_end (call (StopRunLoop runloop) s) else s)
      in s\<lparr>mc_sink_open := False, mc_running := False\<rparr>)"

section \<open>Sequences of what can happen\<close>

datatype mac_step =
    TapEvent u64 tap_event
  | AskSuppress u64 bool
  | MacBeat u64
  | Replay mac_os input_event
  | StartCapture u64 tap_start
  | DropCapture

fun mac_do :: "mac_step \<Rightarrow> mac_state \<Rightarrow> (mac_state \<times> verdict) option" where
  "mac_do (TapEvent now e) s = Some (tap_callback now e s)"
| "mac_do (AskSuppress now b) s = Some (mac_set_suppressing now b s, Pass)"
| "mac_do (MacBeat now) s = Some (mac_heartbeat now s, Pass)"
| "mac_do (Replay os e) s = map_option (\<lambda>(s, _). (s, Pass)) (mac_inject os e s)"
| "mac_do (StartCapture now os) s = Some (fst (mac_capture_start now os s), Pass)"
| "mac_do DropCapture s = Some (mac_capture_drop s, Pass)"

fun mac_run :: "mac_step list \<Rightarrow> mac_state \<Rightarrow> (mac_state \<times> verdict list) option" where
  "mac_run [] s = Some (s, [])"
| "mac_run (k # ks) s =
     (case mac_do k s of
        None \<Rightarrow> None
      | Some (s, v) \<Rightarrow> map_option (\<lambda>(s, vs). (s, v # vs)) (mac_run ks s))"

section \<open>The mouse and the cursor\<close>

text \<open>Whether the physical mouse moves the cursor, after these calls.\<close>

fun associates :: "bool \<Rightarrow> mac_call \<Rightarrow> bool" where
  "associates b (Associate c) = c"
| "associates b _ = b"

definition attached :: "mac_call list \<Rightarrow> bool" where
  "attached calls = foldl associates True calls"

lemma attached_append [simp]: "attached (calls @ ks) = foldl associates (attached calls) ks"
  by (simp add: attached_def)

lemma attached_Nil [simp]: "attached []"
  by (simp add: attached_def)

text \<open>The two statics agree, and the mouse is detached exactly while they are set.\<close>

definition mac_inv :: "mac_state \<Rightarrow> bool" where
  "mac_inv s \<longleftrightarrow> mc_detached s = mc_suppressing s \<and> attached (mc_calls s) = (\<not> mc_suppressing s)"

lemma call_fields [simp]:
  "mc_suppressing (call k s) = mc_suppressing s" "mc_detached (call k s) = mc_detached s"
  "mc_watchdog (call k s) = mc_watchdog s" "mc_tap (call k s) = mc_tap s" "mc_runloop (call k s) = mc_runloop s"
  "mc_flags (call k s) = mc_flags s" "mc_sink_open (call k s) = mc_sink_open s"
  "mc_reported (call k s) = mc_reported s" "mc_calls (call k s) = mc_calls s @ [k]" "mc_running (call k s) = mc_running s"
  by (simp_all add: call_def)

lemma set_suppression_fields [simp]:
  "mc_suppressing (set_suppression b s) = b" "mc_detached (set_suppression b s) = b"
  "mc_watchdog (set_suppression b s) = mc_watchdog s" "mc_tap (set_suppression b s) = mc_tap s"
  "mc_runloop (set_suppression b s) = mc_runloop s" "mc_sink_open (set_suppression b s) = mc_sink_open s"
  "mc_running (set_suppression b s) = mc_running s" "mc_flags (set_suppression b s) = mc_flags s"
  by (simp_all add: set_suppression_def detach_pointer_def)

text \<open>Setting suppression restores the agreement when the detached flag is true to the mouse.\<close>

lemma set_suppression_inv:
  "attached (mc_calls s) = (\<not> mc_detached s) \<Longrightarrow> mac_inv (set_suppression b s)"
  by (auto simp: mac_inv_def set_suppression_def detach_pointer_def)

lemma mac_invD: "mac_inv s \<Longrightarrow> attached (mc_calls s) = (\<not> mc_detached s)"
  by (auto simp: mac_inv_def)

lemma quiet_call_inv [simp]: "(\<And>b. associates b k = b) \<Longrightarrow> mac_inv (call k s) = mac_inv s"
  by (simp add: mac_inv_def)

lemma mac_inv_same:
  "mac_inv s \<Longrightarrow> mc_suppressing s' = mc_suppressing s \<Longrightarrow> mc_detached s' = mc_detached s \<Longrightarrow>
     attached (mc_calls s') = attached (mc_calls s) \<Longrightarrow> mac_inv s'"
  by (simp add: mac_inv_def)

lemma mac_inv_update [simp]:
  "mac_inv (s\<lparr>mc_held := h\<rparr>) = mac_inv s" "mac_inv (s\<lparr>mc_flags := f\<rparr>) = mac_inv s"
  by (simp_all add: mac_inv_def)

lemma emit_inv [simp]: "mac_inv (mac_emit e s) = mac_inv s"
  by (simp add: mac_emit_def mac_inv_def)

lemma suppressing_now_inv:
  "mac_inv s \<Longrightarrow> mac_suppressing_now now s = (s', b) \<Longrightarrow> mac_inv s'"
  by (auto simp: mac_suppressing_now_def set_suppression_inv mac_invD split: if_splits)

lemma tap_callback_inv: "mac_inv s \<Longrightarrow> mac_inv (fst (tap_callback now e s))"
proof -
  assume inv: "mac_inv s"
  let ?s = "case tap_report e of Some r \<Rightarrow> mac_emit r s | None \<Rightarrow> s"
  have "mac_inv ?s" using inv by (simp split: option.split)
  then have "mac_inv (fst (mac_suppressing_now now ?s))"
    by (cases "mac_suppressing_now now ?s") (auto dest: suppressing_now_inv)
  then show ?thesis using inv by (simp add: tap_callback_def Let_def split_def set_suppression_inv mac_invD)
qed

lemma set_suppressing_inv: "mac_inv s \<Longrightarrow> mac_inv (mac_set_suppressing now b s)"
  using set_suppression_inv [of "s\<lparr>mc_watchdog := now\<rparr>" b]
  by (auto simp: mac_set_suppressing_def Let_def mac_inv_def)

lemma mac_post_inv [simp]: "mac_inv (mac_post e s) = mac_inv s"
  by (simp add: mac_post_def)

lemma remember_inv [simp]: "mac_inv (remember x y s) = mac_inv s"
  by (simp add: remember_def mac_inv_def)

lemma desktop_bounds_inv: "desktop_bounds os s = (s', r) \<Longrightarrow> mac_inv s' = mac_inv s"
  by (auto simp: desktop_bounds_def mac_inv_def Let_def split: option.splits sum.splits list.splits if_splits)

lemma inject_move_inv: "mac_inv s \<Longrightarrow> inject_move os dx dy s = Some (s', r) \<Longrightarrow> mac_inv s'"
  by (auto simp: inject_move_def Let_def split: prod.splits option.splits if_splits dest: desktop_bounds_inv)

lemma mac_inject_inv: "mac_inv s \<Longrightarrow> mac_inject os e s = Some (s', r) \<Longrightarrow> mac_inv s'"
proof (cases e)
  case (CursorEnter x y)
  assume "mac_inv s" and "mac_inject os e s = Some (s', r)"
  with CursorEnter show ?thesis
    by (auto simp: set_cursor_position_def Let_def remember_def split: if_splits intro: mac_inv_same [of s]) (simp_all add: mac_inv_def)
next
  case (MouseMove dx dy)
  then show "mac_inv s \<Longrightarrow> mac_inject os e s = Some (s', r) \<Longrightarrow> ?thesis" by (simp add: inject_move_inv)
next
  case (MouseButton b down)
  then show "mac_inv s \<Longrightarrow> mac_inject os e s = Some (s', r) \<Longrightarrow> ?thesis"
    by (auto simp: inject_button_def Let_def split: prod.splits if_splits intro: mac_inv_same)
next
  case (Wheel delta horizontal)
  then show "mac_inv s \<Longrightarrow> mac_inject os e s = Some (s', r) \<Longrightarrow> ?thesis"
    by (auto simp: inject_wheel_def split: if_splits)
next
  case (Key vk scan down extended)
  then show "mac_inv s \<Longrightarrow> mac_inject os e s = Some (s', r) \<Longrightarrow> ?thesis"
    by (auto simp: inject_key_def Let_def split: option.splits if_splits intro: mac_inv_same)
qed

lemma tap_thread_inv: "mac_inv s \<Longrightarrow> mac_inv (fst (tap_thread os s))"
  by (cases os) (simp_all add: tap_thread_def mac_inv_def)

lemma start_inv: "mac_inv s \<Longrightarrow> mac_inv (fst (mac_capture_start now os s))"
proof -
  assume inv: "mac_inv s"
  let ?s = "(set_suppression False (s\<lparr>mc_running := True, mc_sink_open := True\<rparr>))
    \<lparr>mc_watchdog := now, mc_have_last := False, mc_held := 0, mc_flags := 0\<rparr>"
  have "mac_inv (set_suppression False (s\<lparr>mc_running := True, mc_sink_open := True\<rparr>))"
    using inv by (intro set_suppression_inv) (simp add: mac_invD)
  then have "mac_inv ?s" by (simp add: mac_inv_def)
  with tap_thread_inv [of ?s os] inv show ?thesis
    by (cases os) (auto simp: mac_capture_start_def Let_def tap_thread_def mac_inv_def)
qed

lemma drop_inv: "mac_inv s \<Longrightarrow> mac_inv (mac_capture_drop s) \<and> \<not> mc_suppressing (mac_capture_drop s)"
proof -
  assume inv: "mac_inv s"
  let ?s = "(set_suppression False s)\<lparr>mc_runloop := 0\<rparr>"
  have "mac_inv (set_suppression False s)" using inv by (simp add: set_suppression_inv mac_invD)
  then have "attached (mc_calls ?s) = (\<not> mc_detached ?s)" by (simp add: mac_inv_def)
  then have "mac_inv (tap_thread_end (call (StopRunLoop r) ?s))" for r
    unfolding tap_thread_end_def by (intro set_suppression_inv) simp
  then show ?thesis using \<open>mac_inv (set_suppression False s)\<close>
    by (auto simp: mac_capture_drop_def Let_def mac_inv_def tap_thread_end_def)
qed

lemma mac_do_inv: "mac_inv s \<Longrightarrow> mac_do k s = Some (s', v) \<Longrightarrow> mac_inv s'"
proof (cases k)
  case (Replay os e)
  then show "mac_inv s \<Longrightarrow> mac_do k s = Some (s', v) \<Longrightarrow> ?thesis" by (auto dest: mac_inject_inv)
next
  case (TapEvent now e)
  then show "mac_inv s \<Longrightarrow> mac_do k s = Some (s', v) \<Longrightarrow> ?thesis" using tap_callback_inv [of s now e] by simp
next
  case (MacBeat now)
  then show "mac_inv s \<Longrightarrow> mac_do k s = Some (s', v) \<Longrightarrow> ?thesis" by (auto simp: mac_heartbeat_def mac_inv_def)
qed (auto intro: set_suppressing_inv start_inv drop_inv [THEN conjunct1])

lemma mac_run_inv: "mac_inv s \<Longrightarrow> mac_run ks s = Some (s', vs) \<Longrightarrow> mac_inv s'"
  by (induction ks arbitrary: s vs) (auto split: option.splits dest: mac_do_inv)

section \<open>What is swallowed\<close>

lemma mac_verdict:
  "tap_callback now e s = (s', Swallow) \<Longrightarrow>
     mc_suppressing s \<and> u64_saturating_sub now (mc_watchdog s) \<le> mac_WATCHDOG_LIMIT_MS \<and>
     te_user_data e \<noteq> mac_INJECTED_MARKER \<and> \<not> is_escape e"
  by (auto simp: tap_callback_def Let_def mac_suppressing_now_def mac_emit_def split_def not_less
      split: if_splits option.splits)

lemma mac_escape:
  "is_escape e \<Longrightarrow> te_user_data e \<noteq> mac_INJECTED_MARKER \<Longrightarrow>
     tap_callback now e s = (if mc_suppressing s then set_suppression False s else s, Pass)"
  by (auto simp: is_escape_def tap_callback_def event_kinds)

lemma start_released: "\<not> mc_suppressing s \<Longrightarrow> \<not> mc_suppressing (fst (mac_capture_start now os s))"
  by (cases "mc_running s"; cases os) (simp_all add: mac_capture_start_def Let_def tap_thread_def)

text \<open>A run in which nobody asks for suppression leaves it off.\<close>

lemma mac_released_step:
  assumes "\<not> mc_suppressing s" and "\<forall>now. k \<noteq> AskSuppress now True" and "mac_do k s = Some (s', v)"
  shows "\<not> mc_suppressing s' \<and> v = Pass"
proof (cases k)
  case (TapEvent now e)
  then show ?thesis using assms
    by (auto simp: tap_callback_def Let_def mac_suppressing_now_def mac_emit_def split_def swallow_if_def
        split: if_splits option.splits)
next
  case (AskSuppress now b)
  then show ?thesis using assms by (cases b) (auto simp: mac_set_suppressing_def Let_def)
next
  case (Replay os e)
  have "mac_inject os e s = Some (s1, r) \<Longrightarrow> mc_suppressing s1 = mc_suppressing s" for s1 r
    by (cases e) (auto simp: set_cursor_position_def inject_move_def inject_button_def inject_wheel_def
        inject_key_def desktop_bounds_def remember_def mac_post_def Let_def
        split: if_splits option.splits prod.splits sum.splits list.splits)
  with Replay assms show ?thesis by auto
next
  case (StartCapture now os)
  then show ?thesis using assms start_released [of s now os] by simp
next
  case DropCapture
  then show ?thesis using assms by (auto simp: mac_capture_drop_def Let_def tap_thread_end_def split: if_splits)
qed (use assms in \<open>auto simp: mac_heartbeat_def\<close>)

lemma mac_released_run:
  "\<not> mc_suppressing s \<Longrightarrow> \<forall>now. AskSuppress now True \<notin> set ks \<Longrightarrow> mac_run ks s = Some (s', vs) \<Longrightarrow>
     \<not> mc_suppressing s' \<and> set vs \<subseteq> {Pass}"
proof (induction ks arbitrary: s vs)
  case (Cons k ks)
  then obtain s1 v vs' where step: "mac_do k s = Some (s1, v)" and rest: "mac_run ks s1 = Some (s', vs')" "vs = v # vs'"
    by (auto split: option.splits)
  have "\<not> mc_suppressing s1 \<and> v = Pass" using mac_released_step [OF Cons.prems(1) _ step] Cons.prems(2) by auto
  with Cons.IH [of s1 vs'] Cons.prems(2) rest show ?case by simp
qed simp

text \<open>The tap is asked for every kind of event it handles, and for no other.\<close>

lemma event_mask_bits:
  "list_all (\<lambda>t. bit event_mask t = (t \<in> {1, 2, 3, 4, 5, 6, 7, 10, 11, 12, 22, 25, 26, 27})) [0..<64]"
  by code_simp

section \<open>Modifier keys\<close>

definition modifier_masks_used :: "u64 set" where
  "modifier_masks_used = {kCGEventFlagMaskShift, kCGEventFlagMaskControl, kCGEventFlagMaskAlternate,
     kCGEventFlagMaskCommand}"

lemma mask_cases: "modifier_mask k \<noteq> 0 \<Longrightarrow> modifier_mask k \<in> modifier_masks_used"
  unfolding modifier_mask_def modifier_masks_used_def by (simp only: split: if_splits) simp_all

text \<open>The masks are single, different bits.\<close>

lemma mask_is_bit:
  assumes "m \<in> modifier_masks_used"
  obtains n where "n < 64" and "m = 2 ^ n"
proof -
  have "modifier_masks_used = {2 ^ 17, 2 ^ 18, 2 ^ 19, 2 ^ 20}"
    by (simp add: modifier_masks_used_def modifier_masks)
  with assms obtain n :: nat where "n \<in> {17, 18, 19, 20}" and m: "m = 2 ^ n" by blast
  then have "n < 64" by auto
  from that [OF this m] show ?thesis .
qed

lemma set_mask:
  assumes "m \<in> modifier_masks_used" and "m' \<in> modifier_masks_used"
  shows "(f OR m) AND m' \<noteq> 0 \<longleftrightarrow> m = m' \<or> f AND m' \<noteq> 0"
    and "(f AND NOT m) AND m' \<noteq> 0 \<longleftrightarrow> m \<noteq> m' \<and> f AND m' \<noteq> 0"
proof -
  obtain i where i: "i < 64" "m = 2 ^ i" using mask_is_bit [OF assms(1)] .
  obtain j where j: "j < 64" "m' = 2 ^ j" using mask_is_bit [OF assms(2)] .
  have bit: "bit (2 ^ n :: u64) k \<longleftrightarrow> k = n" if "n < 64" for n k using that by (auto simp: bit_simps)
  have "m = m' \<longleftrightarrow> i = j" using bit [OF i(1), of i] bit [OF j(1), of i] i(2) j(2) by auto
  then show "(f OR m) AND m' \<noteq> 0 \<longleftrightarrow> m = m' \<or> f AND m' \<noteq> 0"
    and "(f AND NOT m) AND m' \<noteq> 0 \<longleftrightarrow> m \<noteq> m' \<and> f AND m' \<noteq> 0"
    unfolding j(2) and_exp_eq_0_iff_not_bit unfolding i(2) using i(1) j(1)
    by (auto simp: bit_or_iff bit_and_iff bit_not_iff bit)
qed

text \<open>What one replayed event says about the modifier group with mask \<open>m\<close>.\<close>

definition group_after :: "u64 \<Rightarrow> input_event \<Rightarrow> bool \<Rightarrow> bool" where
  "group_after m e held =
     (case e of
        Key vk scan down extended \<Rightarrow>
          (case from_pc scan vk extended of
             Some k \<Rightarrow> if modifier_mask k = m then down else held
           | None \<Rightarrow> held)
      | _ \<Rightarrow> held)"

fun replay_all :: "(mac_os \<times> input_event) list \<Rightarrow> mac_state \<Rightarrow> mac_state option" where
  "replay_all [] s = Some s"
| "replay_all ((os, e) # es) s =
     (case mac_inject os e s of None \<Rightarrow> None | Some (s, _) \<Rightarrow> replay_all es s)"

lemma mac_post_flags [simp]: "mc_flags (mac_post e s) = mc_flags s"
  by (simp add: mac_post_def)

lemma remember_flags [simp]: "mc_flags (remember x y s) = mc_flags s"
  by (simp add: remember_def)

lemma inject_flags:
  assumes "m \<in> modifier_masks_used" and "mac_inject os e s = Some (s', r)"
  shows "mc_flags s' AND m \<noteq> 0 \<longleftrightarrow> group_after m e (mc_flags s AND m \<noteq> 0)"
proof (cases e)
  case (Key vk scan down extended)
  show ?thesis
  proof (cases "from_pc scan vk extended")
    case None
    then show ?thesis using assms(2) Key by (simp add: inject_key_def group_after_def)
  next
    case (Some k)
    show ?thesis
    proof (cases "modifier_mask k = 0")
      case True
      moreover have "m \<noteq> 0" using assms(1) by (auto simp: modifier_masks_used_def modifier_masks)
      ultimately show ?thesis using assms(2) Key Some
        by (auto simp: inject_key_def group_after_def split: if_splits)
    next
      case False
      note set_mask [OF mask_cases [OF False] assms(1), of "mc_flags s"]
      then show ?thesis using assms(2) Key Some False
        by (auto simp: inject_key_def group_after_def Let_def split: if_splits)
    qed
  qed
qed (use assms(2) in \<open>auto simp: group_after_def set_cursor_position_def inject_move_def inject_button_def
    inject_wheel_def desktop_bounds_def Let_def
    split: if_splits option.splits prod.splits sum.splits list.splits\<close>)

lemma replay_flags:
  "m \<in> modifier_masks_used \<Longrightarrow> replay_all es s = Some s' \<Longrightarrow>
     mc_flags s' AND m \<noteq> 0 \<longleftrightarrow> fold (\<lambda>(_, e). group_after m e) es (mc_flags s AND m \<noteq> 0)"
proof (induction es arbitrary: s)
  case (Cons p es)
  obtain os e where p: "p = (os, e)" by fastforce
  then obtain s1 r where "mac_inject os e s = Some (s1, r)" "replay_all es s1 = Some s'"
    using Cons.prems(2) by (auto split: option.splits)
  with Cons.IH [of s1] Cons.prems(1) inject_flags [of m os e s s1 r] p show ?case by simp
qed simp

section \<open>Replayed motion\<close>

definition desk_ok :: "desktop \<Rightarrow> bool" where
  "desk_ok r \<longleftrightarrow> sint (dk_min_x r) \<le> sint (dk_max_x r - 1) \<and> sint (dk_min_y r) \<le> sint (dk_max_y r - 1)"

definition on_desk :: "desktop \<Rightarrow> i32 \<Rightarrow> i32 \<Rightarrow> bool" where
  "on_desk r x y \<longleftrightarrow> sint (dk_min_x r) \<le> sint x \<and> sint x \<le> sint (dk_max_x r - 1) \<and>
     sint (dk_min_y r) \<le> sint y \<and> sint y \<le> sint (dk_max_y r - 1)"

lemma clamp_to_desk: "desk_ok r \<Longrightarrow> \<exists>nx ny. clamp_to (Some r) x y = Some (nx, ny) \<and> on_desk r nx ny"
  using i32_clamp_total [of "dk_min_x r" "dk_max_x r - 1" x] i32_clamp_total [of "dk_min_y r" "dk_max_y r - 1" y]
  by (auto simp: desk_ok_def on_desk_def clamp_to_def dest: i32_clamp_Some)

lemma clamp_to_inside: "on_desk r x y \<Longrightarrow> clamp_to (Some r) x y = Some (x, y)"
  by (simp add: on_desk_def clamp_to_def i32_clamp_inside)

lemma desktop_bounds_calls:
  "desktop_bounds os s = (s', r) \<Longrightarrow> mc_calls s' = mc_calls s \<and> mc_held s' = mc_held s \<and> mc_flags s' = mc_flags s"
  by (auto simp: desktop_bounds_def Let_def split: option.splits sum.splits list.splits if_splits)

section \<open>Two threads setting suppression\<close>

text \<open>
  \<open>set_suppression\<close> writes one atomic variable and swaps another, and both the tap's thread and
  the routing loop call it. Here the accesses are single steps (a swap is taken together with the
  call to the system that follows it, so the code has more interleavings than these).
\<close>

record shared =
  su_suppressing :: bool
  su_detached :: bool
  su_attached :: bool

datatype access = LoadSuppressing | StoreSuppressing bool | SwapDetached bool

fun access_do :: "access \<Rightarrow> shared \<Rightarrow> shared" where
  "access_do LoadSuppressing f = f"
| "access_do (StoreSuppressing b) f = f\<lparr>su_suppressing := b\<rparr>"
| "access_do (SwapDetached b) f = (if su_detached f = b then f else f\<lparr>su_detached := b, su_attached := \<not> b\<rparr>)"

definition set_accesses :: "bool \<Rightarrow> access list" where
  "set_accesses b = [StoreSuppressing b, SwapDetached b]"

definition shared_of :: "mac_state \<Rightarrow> shared" where
  "shared_of s = \<lparr>su_suppressing = mc_suppressing s, su_detached = mc_detached s, su_attached = attached (mc_calls s)\<rparr>"

definition idle_mac :: mac_state where
  "idle_mac = \<lparr>mc_suppressing = False, mc_detached = False, mc_watchdog = 0, mc_runloop = 0, mc_tap = 0,
     mc_running = False, mc_sink_open = False, mc_reported = [], mc_last_x = 0, mc_last_y = 0,
     mc_have_last = False, mc_held = 0, mc_flags = 0, mc_cache = None, mc_calls = []\<rparr>"

lemma set_accesses_model: "fold access_do (set_accesses b) (shared_of s) = shared_of (set_suppression b s)"
  by (auto simp: set_accesses_def shared_of_def set_suppression_def detach_pointer_def call_def)

section \<open>Properties\<close>


definition mac_click :: tap_event where
  "mac_click = \<lparr>te_kind = kCGEventLeftMouseDown, te_flags = 0, te_user_data = 0, te_delta_x = 0, te_delta_y = 0,
     te_button = 0, te_axis1 = 0, te_axis2 = 0, te_keycode = 0\<rparr>"

definition mac_session :: "mac_step list" where
  "mac_session = [StartCapture 1000 (TapReady 7 8), AskSuppress 2000 True, TapEvent 2500 mac_click,
     TapEvent 4001 mac_click]"


text \<open>
  Replayed modifiers follow the last key of their kind. After any replayed sequence, the
  modifier that goes out with every event is the one the last key of its kind (either Shift,
  either Control, either Option, either Command) left, pressed or released, whatever else was
  replayed in between. So with both keys of a kind held, releasing one turns the modifier off
  while the other is still down.
\<close>

theorem mac_modifiers_follow_last_key:
  assumes "m \<in> modifier_masks_used" and "replay_all es s = Some s'"
    and "modifier_mask k = m" and "from_pc scan vk extended = Some k"
  shows "(mc_flags s' AND m \<noteq> 0) = fold (\<lambda>(_, e). group_after m e) es (mc_flags s AND m \<noteq> 0) \<and>
    (\<forall>os s''. replay_all (es @ [(os, Key vk scan False extended)]) s = Some s'' \<longrightarrow> mc_flags s'' AND m = 0)"
proof -
  have "mc_flags s'' AND m = 0" if "replay_all (es @ [(os, Key vk scan False extended)]) s = Some s''" for os s''
    using replay_flags [OF assms(1) that] assms(3,4) by (simp add: group_after_def)
  with replay_flags [OF assms(1,2)] show ?thesis by blast
qed

definition calm_os :: mac_os where
  "calm_os = \<lparr>os_cursor = Some (0, 0), os_displays = Inl (Os ''none''), os_instant = 0, os_warp_status = 0,
     os_no_event = False\<rparr>"

text \<open>
  With both keys of a modifier pair held, the tap reports the release of the first as another
  press, because the flags still show the modifier; its release is never reported, and the
  machine the input went to keeps it down.
\<close>

definition flags_changed :: "u16 \<Rightarrow> u64 \<Rightarrow> tap_event" where
  "flags_changed key flags = \<lparr>te_kind = kCGEventFlagsChanged, te_flags = flags, te_user_data = 0,
     te_delta_x = 0, te_delta_y = 0, te_button = 0, te_axis1 = 0, te_axis2 = 0, te_keycode = ucast key\<rparr>"

theorem first_released_modifier_stays_down:
  assumes "modifier_mask k = modifier_mask l" and "modifier_mask k \<noteq> 0"
    and "to_pc k = Some (scan_k, vk_k, ext_k)" and "to_pc l = Some (scan_l, vk_l, ext_l)"
  shows "map tap_report [flags_changed k (modifier_mask k), flags_changed l (modifier_mask k),
      flags_changed k (modifier_mask k), flags_changed l 0] =
    map Some [Key vk_k scan_k True ext_k, Key vk_l scan_l True ext_l, Key vk_k scan_k True ext_k,
      Key vk_l scan_l False ext_l]"
proof -
  have code: "ucast (ucast key :: i64) = (key :: u16)" for key by (rule bit_word_eqI) (simp add: bit_simps)
  have held: "modifier_held key (modifier_mask key)" if "modifier_mask key \<noteq> 0" for key
    using that unfolding modifier_held_def modifier_mask_def by (simp add: modifier_masks split: if_split_asm)
  have "modifier_held l (modifier_mask k)" using held [of l] assms(1,2) by simp
  moreover have "\<not> modifier_held key 0" for key by (simp add: modifier_held_def)
  ultimately show ?thesis
    using held [OF assms(2)] assms(3,4)
    by (simp add: flags_changed_def tap_report_def key_is_down_def code event_kinds Let_def)
qed

text \<open>
  The two halves of \<open>set_suppression\<close> are not one step. Whoever sets it alone, and one after the
  other, leaves the statics and the mouse in agreement; but if Control+Option+F12 arrives while
  the routing loop is starting to swallow, input is released and the mouse stays detached from
  the cursor, which nothing in the tap undoes: the watchdog only looks while suppression is on.
\<close>

theorem release_race_detaches_mouse:
  "(\<forall>b c f. su_attached f = (\<not> su_detached f) \<longrightarrow>
     (let f' = fold access_do (set_accesses b @ set_accesses c) f
      in su_suppressing f' = c \<and> su_detached f' = c \<and> su_attached f' = (\<not> c))) \<and>
   (\<exists>before after. before @ LoadSuppressing # after \<in> shuffles (set_accesses True) (LoadSuppressing # set_accesses False) \<and>
     su_suppressing (fold access_do before (shared_of idle_mac)) \<and>
     fold access_do (before @ LoadSuppressing # after) (shared_of idle_mac) =
       \<lparr>su_suppressing = False, su_detached = True, su_attached = False\<rparr>)"
proof -
  let ?before = "[StoreSuppressing True]" and ?after = "[StoreSuppressing False, SwapDetached False, SwapDetached True]"
  have "?before @ LoadSuppressing # ?after \<in> shuffles (set_accesses True) (LoadSuppressing # set_accesses False)"
    by (simp add: set_accesses_def Cons_in_shuffles_iff)
  moreover have "su_suppressing (fold access_do ?before (shared_of idle_mac))"
    and "fold access_do (?before @ LoadSuppressing # ?after) (shared_of idle_mac) =
      \<lparr>su_suppressing = False, su_detached = True, su_attached = False\<rparr>"
    by (simp_all add: shared_of_def idle_mac_def)
  moreover have "\<forall>b c f. su_attached f = (\<not> su_detached f) \<longrightarrow>
     (let f' = fold access_do (set_accesses b @ set_accesses c) f
      in su_suppressing f' = c \<and> su_detached f' = c \<and> su_attached f' = (\<not> c))"
    by (auto simp: set_accesses_def Let_def)
  ultimately show ?thesis by blast
qed

text \<open>
  Replayed motion stays on the desktop: on a desktop that is at least one point wide and high
  the move never panics, the point posted and remembered is on it, and a point already on it is
  reached exactly.
\<close>

theorem mac_motion_stays_on_desktop:
  assumes "desktop_bounds os s = (s1, Some r)" and "desk_ok r" and "\<not> os_no_event os"
  shows "\<exists>s' x y kind button d. inject_move os dx dy s = Some (s', Inr ()) \<and> on_desk r x y \<and>
    mc_calls s' = mc_calls s @ [Post mac_INJECTED_MARKER (mc_flags s) (MouseEvent kind x y button (Some d) None)] \<and>
    mc_last_x s' = x \<and> mc_last_y s' = y \<and> mc_have_last s' \<and>
    (case current_point os s of (x0, y0) \<Rightarrow> on_desk r (x0 + dx) (y0 + dy) \<longrightarrow> x = x0 + dx \<and> y = y0 + dy)"
proof -
  obtain x0 y0 where at: "current_point os s = (x0, y0)" by fastforce
  obtain x y where to: "clamp_to (Some r) (x0 + dx) (y0 + dy) = Some (x, y)" and on: "on_desk r x y"
    using clamp_to_desk [OF assms(2)] by blast
  obtain kind button where "drag_kind (mc_held s1) = (kind, button)" by fastforce
  then show ?thesis
    using desktop_bounds_calls [OF assms(1)] at to on assms clamp_to_inside [of r "x0 + dx" "y0 + dy"]
    by (auto simp: inject_move_def mac_post_def call_def remember_def)
qed

end
