(* ===== verification/Peers.thy ===== *)
theory Peers
  imports Wire
begin

text \<open>
  The networking actor (\<^verbatim>\<open>crates/is-net/src/service.rs\<close>): what this machine knows about each
  peer at run time, and every handler that changes it.

  The actor handles one message at a time, so each handler is a function from the old state
  to the new one. \<^verbatim>\<open>Instant::now()\<close> is an argument in milliseconds (one reading per handler),
  and so is the workspace's answer to \<^verbatim>\<open>authorize\<close>. Tasks the actor spawns (a dial, a reply to
  a probe) and events it emits are recorded in order. An \<^verbatim>\<open>Outbound\<close> is the name of a bounded
  channel; the channels themselves are part of the state because the sessions drain them.
  \<^verbatim>\<open>peers\<close> is a \<^verbatim>\<open>HashMap\<close>, whose iteration order is unspecified; the model iterates in key
  order, and no result below depends on the order.
\<close>

section \<open>State\<close>

record sighting =
  sg_announcement :: announcement
  sg_from :: socket_addr

type_synonym instant = nat
type_synonym outbound = nat

datatype status = Offline | Connecting | Online

record peer_slot =
  ps_display_name :: string
  ps_addr :: "socket_addr option"
  last_workspace :: "workspace_id option option"
  last_seen :: "instant option"
  ps_status :: status
  ps_outbound :: "outbound option"
  attempts :: u32
  next_attempt :: instant

record channel =
  ch_queue :: "message list"
  ch_open :: bool

datatype event =
    EvSighted machine_id
  | EvCandidate machine_id string pub_key "workspace_id option" socket_addr bool
  | EvConnecting machine_id
  | EvOnline machine_id
  | EvOffline machine_id string
  | EvRejected machine_id pub_key socket_addr
  | EvDifferentWorkspaces machine_id string pub_key workspace_id u32
  | EvWorkspaceChanged

datatype task = Dial machine_id socket_addr | ReplyToProbe u16 ip_addr

datatype session_outcome =
    Established machine_id string outbound
  | Closed machine_id string
  | Rejected machine_id pub_key socket_addr
  | DifferentWorkspaces machine_id string pub_key workspace_id u32
  | WorkspaceChanged

datatype internal =
    Sighting sighting
  | Session session_outcome
  | Broadcast workspace_update
  | SendInput machine_id "input_event list"
  | AnnounceCursorOwner machine_id
  | Rescan
  | Tick
  | Shutdown

record actor =
  me :: machine_id
  discovery_port_of :: u16
  peers :: "(machine_id, peer_slot) btree_map"
  channels :: "outbound \<Rightarrow> channel"
  emitted :: "event list"
  spawned :: "task list"

section \<open>Slots and channels\<close>

definition HINT_TTL :: nat where "HINT_TTL = 20000"

definition peer_slot_new :: "instant \<Rightarrow> string \<Rightarrow> peer_slot" where
  "peer_slot_new now name =
     \<lparr>ps_display_name = name, ps_addr = None, last_workspace = None, last_seen = None,
      ps_status = Offline, ps_outbound = None, attempts = 0, next_attempt = now\<rparr>"

definition fresh :: "instant \<Rightarrow> peer_slot \<Rightarrow> bool" where
  "fresh now slot = (case last_seen slot of Some seen \<Rightarrow> now - seen < HINT_TTL | None \<Rightarrow> False)"

text \<open>\<^verbatim>\<open>mpsc::channel(128)\<close> and \<^verbatim>\<open>try_send\<close>: refused when the queue is full or its reader is gone.\<close>

definition CHANNEL_CAPACITY :: nat where "CHANNEL_CAPACITY = 128"

definition try_send :: "outbound \<Rightarrow> message \<Rightarrow> (outbound \<Rightarrow> channel) \<Rightarrow> (outbound \<Rightarrow> channel) option" where
  "try_send c msg chs =
     (if ch_open (chs c) \<and> length (ch_queue (chs c)) < CHANNEL_CAPACITY
      then Some (chs(c := (chs c)\<lparr>ch_queue := ch_queue (chs c) @ [msg]\<rparr>))
      else None)"

text \<open>
  \<^verbatim>\<open>backoff\<close>, in milliseconds: \<^verbatim>\<open>2u32.saturating_pow(attempts.min(5))\<close> is at most 32, so it
  never saturates.
\<close>

definition backoff :: "u32 \<Rightarrow> nat" where
  "backoff att = min (1000 * 2 ^ unat (min att 5)) 30000"

definition saturating_inc :: "u32 \<Rightarrow> u32" where
  "saturating_inc n = (if n = - 1 then n else n + 1)"

definition emit :: "event \<Rightarrow> actor \<Rightarrow> actor" where
  "emit e a = a\<lparr>emitted := emitted a @ [e]\<rparr>"

definition spawn :: "task \<Rightarrow> actor \<Rightarrow> actor" where
  "spawn t a = a\<lparr>spawned := spawned a @ [t]\<rparr>"

section \<open>Handlers\<close>

definition sighted :: "instant \<Rightarrow> announcement \<Rightarrow> socket_addr \<Rightarrow> peer_slot \<Rightarrow> peer_slot" where
  "sighted now an addr slot =
     (let slot = slot\<lparr>ps_display_name := an_display_name an, ps_addr := Some addr\<rparr>;
          was_stale = \<not> fresh now slot;
          changed_workspace = (case last_workspace slot of
              Some seen \<Rightarrow> seen \<noteq> an_workspace_id an | None \<Rightarrow> False);
          slot = slot\<lparr>last_workspace := Some (an_workspace_id an), last_seen := Some now\<rparr>
      in if was_stale \<or> changed_workspace then slot\<lparr>attempts := 0, next_attempt := now\<rparr> else slot)"

definition on_sighting ::
  "instant \<Rightarrow> (machine_id \<Rightarrow> pub_key \<Rightarrow> bool) \<Rightarrow> sighting \<Rightarrow> actor \<Rightarrow> actor" where
  "on_sighting now authorize s a =
     (let an = sg_announcement s in
      if an_machine_id an = me a then a
      else
        let addr = \<lparr>sa_ip = sa_ip (sg_from s), sa_port = an_transport_port an\<rparr>;
            a = (if an_probe an then spawn (ReplyToProbe (discovery_port_of a) (sa_ip (sg_from s))) a else a)
        in if \<not> authorize (an_machine_id an) (an_identity_key an)
           then emit (EvCandidate (an_machine_id an) (an_display_name an) (an_identity_key an)
                  (an_workspace_id an) addr (me a \<in> set (an_invitations an))) a
           else emit (EvSighted (an_machine_id an))
                  (a\<lparr>peers := bt_entry (an_machine_id an) (peer_slot_new now (an_display_name an))
                     (sighted now an addr) (peers a)\<rparr>))"

fun on_session :: "instant \<Rightarrow> session_outcome \<Rightarrow> actor \<Rightarrow> actor" where
  "on_session now (Established i name out) a =
     emit (EvOnline i)
       (a\<lparr>peers := bt_entry i (peer_slot_new now name)
          (\<lambda>slot. slot\<lparr>ps_display_name := name, ps_status := Online, ps_outbound := Some out,
             attempts := 0, last_seen := Some now\<rparr>) (peers a)\<rparr>)"
| "on_session now (Closed i reason) a =
     emit (EvOffline i reason)
       (a\<lparr>peers := bt_adjust i
          (\<lambda>slot. let att = saturating_inc (attempts slot) in
             slot\<lparr>ps_status := Offline, ps_outbound := None, attempts := att,
               next_attempt := now + backoff att\<rparr>) (peers a)\<rparr>)"
| "on_session now (Rejected i key addr) a = emit (EvRejected i key addr) a"
| "on_session now (DifferentWorkspaces i name key theirs sz) a =
     emit (EvDifferentWorkspaces i name key theirs sz)
       (a\<lparr>peers := bt_adjust i
          (\<lambda>slot. slot\<lparr>ps_status := Offline, ps_outbound := None, attempts := max (attempts slot) 5,
             next_attempt := now + 30000\<rparr>) (peers a)\<rparr>)"
| "on_session now WorkspaceChanged a = emit EvWorkspaceChanged a"

text \<open>One peer's share of a broadcast: queue the message or drop the connection.\<close>

definition push :: "message \<Rightarrow> peer_slot \<Rightarrow> (outbound \<Rightarrow> channel) \<Rightarrow> peer_slot \<times> (outbound \<Rightarrow> channel)" where
  "push msg slot chs =
     (case ps_outbound slot of
        None \<Rightarrow> (slot, chs)
      | Some c \<Rightarrow>
          (case try_send c msg chs of
             Some chs' \<Rightarrow> (slot, chs')
           | None \<Rightarrow> (slot\<lparr>ps_outbound := None\<rparr>, chs)))"

fun push_all ::
  "message \<Rightarrow> (machine_id \<times> peer_slot) list \<Rightarrow> (outbound \<Rightarrow> channel) \<Rightarrow>
     (machine_id \<times> peer_slot) list \<times> (outbound \<Rightarrow> channel)" where
  "push_all msg [] chs = ([], chs)"
| "push_all msg ((i, slot) # rest) chs =
     (let (slot', chs1) = push msg slot chs; (rest', chs2) = push_all msg rest chs1
      in ((i, slot') # rest', chs2))"

definition on_broadcast :: "workspace_update \<Rightarrow> actor \<Rightarrow> actor" where
  "on_broadcast u a =
     (let (ps, chs) = push_all (Update u) (peers a) (channels a)
      in a\<lparr>peers := ps, channels := chs\<rparr>)"

text \<open>An ownership announcement that does not fit a queue is dropped, and only it.\<close>

fun tell_all ::
  "message \<Rightarrow> (machine_id \<times> peer_slot) list \<Rightarrow> (outbound \<Rightarrow> channel) \<Rightarrow> (outbound \<Rightarrow> channel)" where
  "tell_all msg [] chs = chs"
| "tell_all msg ((i, slot) # rest) chs =
     tell_all msg rest
       (case ps_outbound slot of
          None \<Rightarrow> chs
        | Some c \<Rightarrow> (case try_send c msg chs of Some chs' \<Rightarrow> chs' | None \<Rightarrow> chs))"

definition on_announce_owner :: "machine_id \<Rightarrow> actor \<Rightarrow> actor" where
  "on_announce_owner m a = a\<lparr>channels := tell_all (CursorOwner m) (peers a) (channels a)\<rparr>"

definition on_send_input :: "machine_id \<Rightarrow> input_event list \<Rightarrow> actor \<Rightarrow> actor" where
  "on_send_input to events a =
     (case bt_get (peers a) to of
        None \<Rightarrow> a
      | Some slot \<Rightarrow>
          (let (slot', chs) = push (Input events) slot (channels a)
           in a\<lparr>peers := bt_adjust to (\<lambda>_. slot') (peers a), channels := chs\<rparr>))"

definition on_rescan :: "instant \<Rightarrow> actor \<Rightarrow> actor" where
  "on_rescan now a =
     a\<lparr>peers := bt_each (\<lambda>_ slot. if ps_status slot = Offline
          then slot\<lparr>attempts := 0, next_attempt := now\<rparr> else slot) (peers a)\<rparr>"

definition due :: "instant \<Rightarrow> machine_id \<Rightarrow> machine_id \<times> peer_slot \<Rightarrow> bool" where
  "due now self = (\<lambda>(i, slot). ps_status slot = Offline \<and> self < i \<and> fresh now slot \<and> next_attempt slot \<le> now)"

fun dial_all :: "(machine_id \<times> socket_addr) list \<Rightarrow> actor \<Rightarrow> actor" where
  "dial_all [] a = a"
| "dial_all ((i, addr) # rest) a =
     dial_all rest
       (case bt_get (peers a) i of
          None \<Rightarrow> a
        | Some _ \<Rightarrow>
            spawn (Dial i addr) (emit (EvConnecting i)
              (a\<lparr>peers := bt_adjust i (\<lambda>slot. slot\<lparr>ps_status := Connecting\<rparr>) (peers a)\<rparr>)))"

definition on_tick :: "instant \<Rightarrow> actor \<Rightarrow> actor" where
  "on_tick now a =
     (let dials = List.map_filter (\<lambda>(i, slot). map_option (Pair i) (ps_addr slot))
            (filter (due now (me a)) (peers a));
          a = dial_all dials a
      in a\<lparr>peers := bt_each (\<lambda>_ slot. if ps_status slot = Offline \<and> \<not> fresh now slot
             then slot\<lparr>ps_addr := None\<rparr> else slot) (peers a)\<rparr>)"

text \<open>One turn of \<^verbatim>\<open>Actor::run\<close>; None is the end of the loop.\<close>

fun actor_step ::
  "instant \<Rightarrow> (machine_id \<Rightarrow> pub_key \<Rightarrow> bool) \<Rightarrow> internal \<Rightarrow> actor \<Rightarrow> actor option" where
  "actor_step now auth (Sighting s) a = Some (on_sighting now auth s a)"
| "actor_step now auth (Session outcome) a = Some (on_session now outcome a)"
| "actor_step now auth (Broadcast u) a = Some (on_broadcast u a)"
| "actor_step now auth (SendInput to events) a = Some (on_send_input to events a)"
| "actor_step now auth (AnnounceCursorOwner m) a = Some (on_announce_owner m a)"
| "actor_step now auth Rescan a = Some (on_rescan now a)"
| "actor_step now auth Tick a = Some (on_tick now a)"
| "actor_step now auth Shutdown a = None"

text \<open>The mailbox, each message with the time and the workspace's answers at that moment.\<close>

fun actor_run ::
  "(instant \<times> (machine_id \<Rightarrow> pub_key \<Rightarrow> bool) \<times> internal) list \<Rightarrow> actor \<Rightarrow> actor" where
  "actor_run [] a = a"
| "actor_run ((now, auth, msg) # mail) a =
     (case actor_step now auth msg a of None \<Rightarrow> a | Some a' \<Rightarrow> actor_run mail a')"

text \<open>The default \<^verbatim>\<open>Workspace::authorize\<close>.\<close>

definition authorize_default :: "workspace_doc option \<Rightarrow> machine_id \<Rightarrow> pub_key \<Rightarrow> bool" where
  "authorize_default doc i key =
     (case Option.bind doc (machine i) of Some r \<Rightarrow> mr_public_key r = key | None \<Rightarrow> False)"

section \<open>Sending to every peer\<close>

definition accepts :: "(outbound \<Rightarrow> channel) \<Rightarrow> outbound \<Rightarrow> bool" where
  "accepts chs c \<longleftrightarrow> ch_open (chs c) \<and> length (ch_queue (chs c)) < CHANNEL_CAPACITY"

definition outbounds :: "(machine_id \<times> peer_slot) list \<Rightarrow> outbound list" where
  "outbounds ps = List.map_filter (\<lambda>(_, slot). ps_outbound slot) ps"

definition enqueue :: "message \<Rightarrow> channel \<Rightarrow> channel" where
  "enqueue msg ch = ch\<lparr>ch_queue := ch_queue ch @ [msg]\<rparr>"

text \<open>The slot a push leaves: without its connection when the queue did not take the message.\<close>

definition pushed :: "(outbound \<Rightarrow> channel) \<Rightarrow> peer_slot \<Rightarrow> peer_slot" where
  "pushed chs slot =
     (case ps_outbound slot of
        Some c \<Rightarrow> if accepts chs c then slot else slot\<lparr>ps_outbound := None\<rparr>
      | None \<Rightarrow> slot)"

definition delivered :: "message \<Rightarrow> outbound list \<Rightarrow> (outbound \<Rightarrow> channel) \<Rightarrow> (outbound \<Rightarrow> channel)" where
  "delivered msg cs chs = (\<lambda>c. if c \<in> set cs \<and> accepts chs c then enqueue msg (chs c) else chs c)"

lemma try_send_eq:
  "try_send c msg chs = (if accepts chs c then Some (chs(c := enqueue msg (chs c))) else None)"
  by (simp add: try_send_def accepts_def enqueue_def)

lemma push_eq:
  "push msg slot chs = (pushed chs slot, delivered msg (case ps_outbound slot of None \<Rightarrow> [] | Some c \<Rightarrow> [c]) chs)"
  by (auto simp: push_def pushed_def delivered_def try_send_eq fun_eq_iff split: option.splits)

lemma outbounds_simps [simp]:
  "outbounds [] = []"
  "outbounds ((i, slot) # ps) =
     (case ps_outbound slot of None \<Rightarrow> outbounds ps | Some c \<Rightarrow> c # outbounds ps)"
  by (simp_all add: outbounds_def List.map_filter_def split: option.split)

lemma set_outbounds: "c \<in> set (outbounds ps) \<longleftrightarrow> (\<exists>i slot. (i, slot) \<in> set ps \<and> ps_outbound slot = Some c)"
  by (auto simp: outbounds_def set_map_filter split: prod.splits)

lemma push_all_eq:
  "distinct (outbounds ps) \<Longrightarrow>
     push_all msg ps chs = (map (\<lambda>(i, slot). (i, pushed chs slot)) ps, delivered msg (outbounds ps) chs)"
proof (induction ps arbitrary: chs)
  case (Cons e ps)
  obtain i slot where e: "e = (i, slot)" by (cases e)
  let ?c = "case ps_outbound slot of None \<Rightarrow> [] | Some c \<Rightarrow> [c]"
  have new: "\<forall>c \<in> set ?c. c \<notin> set (outbounds ps)" and "distinct (outbounds ps)"
    using Cons.prems e by (auto split: option.splits)
  then have IH: "push_all msg ps (delivered msg ?c chs) =
      (map (\<lambda>(i, slot). (i, pushed (delivered msg ?c chs) slot)) ps,
       delivered msg (outbounds ps) (delivered msg ?c chs))"
    by (intro Cons.IH)
  have "pushed (delivered msg ?c chs) s = pushed chs s" if "(j, s) \<in> set ps" for j s
    using that new by (auto simp: pushed_def delivered_def accepts_def set_outbounds split: option.splits)
  then have "map (\<lambda>(i, slot). (i, pushed (delivered msg ?c chs) slot)) ps =
      map (\<lambda>(i, slot). (i, pushed chs slot)) ps" by auto
  moreover have "delivered msg (outbounds ps) (delivered msg ?c chs) = delivered msg (?c @ outbounds ps) chs"
    using new by (auto simp: delivered_def accepts_def fun_eq_iff)
  moreover have "?c @ outbounds ps = outbounds (e # ps)" by (simp add: e split: option.split)
  ultimately show ?case by (simp add: e push_eq IH)
qed (simp add: delivered_def)

lemma tell_all_eq:
  "distinct (outbounds ps) \<Longrightarrow> tell_all msg ps chs = delivered msg (outbounds ps) chs"
proof (induction ps arbitrary: chs)
  case (Cons e ps)
  obtain i slot where "e = (i, slot)" by (cases e)
  with Cons show ?case
    by (auto simp: try_send_eq delivered_def accepts_def fun_eq_iff split: option.splits)
qed (simp add: delivered_def)

section \<open>Dialling\<close>

lemma bt_each_comp: "bt_each f (bt_each g m) = bt_each (\<lambda>k v. f k (g k v)) m"
  by (simp add: bt_each_def split_def)

lemma bt_each_cong: "(\<And>k v. (k, v) \<in> set m \<Longrightarrow> f k v = g k v) \<Longrightarrow> bt_each f m = bt_each g m"
  by (auto simp: bt_each_def)

definition start_dial :: "machine_id set \<Rightarrow> machine_id \<Rightarrow> peer_slot \<Rightarrow> peer_slot" where
  "start_dial ids i slot = (if i \<in> ids then slot\<lparr>ps_status := Connecting\<rparr> else slot)"

lemma dial_all_eq:
  assumes "\<forall>(i, addr) \<in> set ds. bt_get (peers a) i \<noteq> None"
  shows "dial_all ds a = a\<lparr>peers := bt_each (start_dial (fst ` set ds)) (peers a),
    emitted := emitted a @ map (\<lambda>(i, _). EvConnecting i) ds,
    spawned := spawned a @ map (\<lambda>(i, addr). Dial i addr) ds\<rparr>"
  using assms
proof (induction ds arbitrary: a)
  case Nil
  have "bt_each (start_dial {}) m = m" for m by (simp add: bt_each_def start_dial_def split_def)
  then show ?case by simp
next
  case (Cons d ds)
  obtain i addr where d: "d = (i, addr)" by (cases d)
  let ?a = "spawn (Dial i addr) (emit (EvConnecting i)
    (a\<lparr>peers := bt_adjust i (\<lambda>slot. slot\<lparr>ps_status := Connecting\<rparr>) (peers a)\<rparr>))"
  have peers: "peers ?a = bt_each (start_dial {i}) (peers a)"
    by (auto simp: spawn_def emit_def bt_adjust_each start_dial_def intro!: bt_each_cong)
  have "\<forall>(j, ad) \<in> set ds. bt_get (peers ?a) j \<noteq> None"
    using Cons.prems unfolding peers by (auto simp: bt_get_each)
  moreover have "bt_each (start_dial (fst ` set ds)) (bt_each (start_dial {i}) (peers a)) =
      bt_each (start_dial (insert i (fst ` set ds))) (peers a)"
    unfolding bt_each_comp by (rule bt_each_cong) (auto simp: start_dial_def)
  moreover have "dial_all (d # ds) a = dial_all ds ?a"
    using Cons.prems by (auto simp: d)
  ultimately show ?case
    using Cons.IH [of ?a] unfolding peers by (simp add: d spawn_def emit_def)
qed

definition dials :: "instant \<Rightarrow> actor \<Rightarrow> (machine_id \<times> socket_addr) list" where
  "dials now a = List.map_filter (\<lambda>(i, slot). map_option (Pair i) (ps_addr slot))
     (filter (due now (me a)) (peers a))"

lemma set_dials:
  "bt_ok (peers a) \<Longrightarrow> (i, addr) \<in> set (dials now a) \<longleftrightarrow>
     (\<exists>slot. bt_get (peers a) i = Some slot \<and> due now (me a) (i, slot) \<and> ps_addr slot = Some addr)"
  by (auto simp: dials_def set_map_filter bt.entries_iff split: prod.splits)

lemma on_tick_eq:
  assumes "bt_ok (peers a)"
  shows "on_tick now a = a\<lparr>peers := bt_each (\<lambda>i slot.
       let slot = start_dial (fst ` set (dials now a)) i slot in
       if ps_status slot = Offline \<and> \<not> fresh now slot then slot\<lparr>ps_addr := None\<rparr> else slot) (peers a),
    emitted := emitted a @ map (\<lambda>(i, _). EvConnecting i) (dials now a),
    spawned := spawned a @ map (\<lambda>(i, addr). Dial i addr) (dials now a)\<rparr>"
proof -
  have "\<forall>(i, addr) \<in> set (dials now a). bt_get (peers a) i \<noteq> None"
    using set_dials [OF assms] by auto
  from dial_all_eq [OF this] show ?thesis
    by (simp add: on_tick_def dials_def [symmetric] bt_each_comp Let_def)
qed

text \<open>What a tick does to one slot.\<close>

definition tick_slot :: "instant \<Rightarrow> machine_id \<Rightarrow> machine_id \<Rightarrow> peer_slot \<Rightarrow> peer_slot" where
  "tick_slot now self i slot =
     (if due now self (i, slot) \<and> ps_addr slot \<noteq> None then slot\<lparr>ps_status := Connecting\<rparr>
      else if ps_status slot = Offline \<and> \<not> fresh now slot then slot\<lparr>ps_addr := None\<rparr> else slot)"

lemma get_on_tick:
  assumes "bt_ok (peers a)"
  shows "bt_get (peers (on_tick now a)) i = map_option (tick_slot now (me a) i) (bt_get (peers a) i)"
proof (cases "bt_get (peers a) i")
  case None
  then show ?thesis by (simp add: on_tick_eq [OF assms] bt_get_each)
next
  case (Some slot)
  have "i \<in> fst ` set (dials now a) \<longleftrightarrow> due now (me a) (i, slot) \<and> ps_addr slot \<noteq> None"
    using set_dials [OF assms, of i] Some by force
  then show ?thesis
    by (auto simp: on_tick_eq [OF assms] bt_get_each Some start_dial_def tick_slot_def)
qed

section \<open>The invariant of the actor\<close>

text \<open>
  The table is in order, only a peer that is online has a connection to send on, and no two
  peers share one.
\<close>

definition slot_ok :: "peer_slot \<Rightarrow> bool" where
  "slot_ok slot \<longleftrightarrow> (\<forall>c. ps_outbound slot = Some c \<longrightarrow> ps_status slot = Online)"

definition actor_inv :: "actor \<Rightarrow> bool" where
  "actor_inv a \<longleftrightarrow> bt_ok (peers a) \<and>
     (\<forall>i slot. bt_get (peers a) i = Some slot \<longrightarrow> slot_ok slot) \<and>
     (\<forall>i j s t c. bt_get (peers a) i = Some s \<longrightarrow> bt_get (peers a) j = Some t \<longrightarrow>
        ps_outbound s = Some c \<longrightarrow> ps_outbound t = Some c \<longrightarrow> i = j)"

text \<open>A session announces itself with a channel it has just made.\<close>

definition new_channel :: "internal \<Rightarrow> actor \<Rightarrow> bool" where
  "new_channel msg a \<longleftrightarrow> (\<forall>i name c. msg = Session (Established i name c) \<longrightarrow>
     (\<forall>j slot. bt_get (peers a) j = Some slot \<longrightarrow> ps_outbound slot \<noteq> Some c))"

lemma actor_invD:
  assumes "actor_inv a"
  shows "bt_ok (peers a)" and "bt_get (peers a) i = Some slot \<Longrightarrow> slot_ok slot"
    and "bt_get (peers a) i = Some s \<Longrightarrow> bt_get (peers a) j = Some t \<Longrightarrow>
      ps_outbound s = Some c \<Longrightarrow> ps_outbound t = Some c \<Longrightarrow> i = j"
  using assms by (auto simp: actor_inv_def)

lemma outbounds_distinct: "actor_inv a \<Longrightarrow> distinct (outbounds (peers a))"
proof -
  have "bt_ok m \<Longrightarrow> (\<And>i j s t c. (i, s) \<in> set m \<Longrightarrow> (j, t) \<in> set m \<Longrightarrow>
      ps_outbound s = Some c \<Longrightarrow> ps_outbound t = Some c \<Longrightarrow> i = j) \<Longrightarrow> distinct (outbounds m)" for m
  proof (induction m)
    case (Cons e m)
    obtain i slot where e: "e = (i, slot)" by (cases e)
    have "distinct (outbounds m)"
    proof (rule Cons.IH)
      show "bt_ok m" using Cons.prems(1) by (simp add: e bt_ok_Cons)
    next
      fix i j s t c
      assume "(i, s) \<in> set m" "(j, t) \<in> set m" "ps_outbound s = Some c" "ps_outbound t = Some c"
      then show "i = j" using Cons.prems(2) [of i s j t c] by simp
    qed
    moreover have "c \<notin> set (outbounds m)" if "ps_outbound slot = Some c" for c
      using Cons.prems that by (fastforce simp: e bt_ok_Cons set_outbounds)
    ultimately show ?case by (auto simp: e split: option.split)
  qed simp
  moreover assume inv: "actor_inv a"
  ultimately show ?thesis
    using bt.entries_iff [OF actor_invD(1) [OF inv]] actor_invD(1) [OF inv] actor_invD(3) [OF inv] by metis
qed

text \<open>A change of the slots that never gives one a connection keeps the invariant.\<close>

lemma inv_by_slots:
  assumes "actor_inv a" and "bt_ok (peers b)"
    and "\<And>i slot. bt_get (peers b) i = Some slot \<Longrightarrow> slot_ok slot \<and>
      (\<forall>c. ps_outbound slot = Some c \<longrightarrow> (\<exists>old. bt_get (peers a) i = Some old \<and> ps_outbound old = Some c))"
  shows "actor_inv b"
  unfolding actor_inv_def
proof (intro conjI allI impI)
  fix i j s t c
  assume "bt_get (peers b) i = Some s" "bt_get (peers b) j = Some t"
    "ps_outbound s = Some c" "ps_outbound t = Some c"
  then show "i = j" using assms(3) actor_invD(3) [OF assms(1)] by meson
qed (use assms in auto)

lemma peers_emit [simp]: "peers (emit e a) = peers a" "peers (spawn t a) = peers a"
  by (simp_all add: emit_def spawn_def)

lemma peers_unchanged: "actor_inv a \<Longrightarrow> peers b = peers a \<Longrightarrow> actor_inv b"
  by (simp add: actor_inv_def)

lemma sighted_fields [simp]:
  "ps_status (sighted now an addr slot) = ps_status slot"
  "ps_outbound (sighted now an addr slot) = ps_outbound slot"
  by (simp_all add: sighted_def Let_def)

lemma new_slot_fields [simp]:
  "ps_status (peer_slot_new now name) = Offline" "ps_outbound (peer_slot_new now name) = None"
  by (simp_all add: peer_slot_new_def)

lemma on_sighting_inv: "actor_inv a \<Longrightarrow> actor_inv (on_sighting now auth s a)"
proof -
  assume inv: "actor_inv a"
  let ?an = "sg_announcement s"
  let ?m = "bt_entry (an_machine_id ?an) (peer_slot_new now (an_display_name ?an))
    (sighted now ?an \<lparr>sa_ip = sa_ip (sg_from s), sa_port = an_transport_port ?an\<rparr>) (peers a)"
  have "peers (on_sighting now auth s a) = peers a \<or> peers (on_sighting now auth s a) = ?m"
    by (simp add: on_sighting_def Let_def)
  then show ?thesis
  proof
    assume "peers (on_sighting now auth s a) = peers a"
    then show ?thesis by (rule peers_unchanged [OF inv])
  next
    assume m: "peers (on_sighting now auth s a) = ?m"
    show ?thesis
      using actor_invD(1,2) [OF inv]
      by (intro inv_by_slots [OF inv])
        (auto simp: m bt_ok_entry bt_get_entry slot_ok_def split: if_splits option.splits)
  qed
qed

lemma on_session_inv:
  assumes inv: "actor_inv a" and "new_channel (Session outcome) a"
  shows "actor_inv (on_session now outcome a)"
proof (cases outcome)
  case (Established i name c)
  note ok = actor_invD [OF inv]
  show ?thesis
    using assms(2) ok Established
    by (auto simp: actor_inv_def bt_ok_entry bt_get_entry slot_ok_def new_channel_def)
next
  case (Closed i reason)
  then show ?thesis
    using actor_invD(1,2) [OF inv]
    by (intro inv_by_slots [OF inv]) (auto simp: bt_ok_adjust bt_get_adjust slot_ok_def Let_def split: if_splits)
next
  case (DifferentWorkspaces i name key theirs sz)
  then show ?thesis
    using actor_invD(1,2) [OF inv]
    by (intro inv_by_slots [OF inv]) (auto simp: bt_ok_adjust bt_get_adjust slot_ok_def split: if_splits)
qed (auto intro: peers_unchanged [OF inv])

lemma pushed_fields [simp]: "ps_status (pushed chs slot) = ps_status slot"
  by (simp add: pushed_def split: option.split)

lemma pushed_outbound: "ps_outbound (pushed chs slot) = Some c \<Longrightarrow> ps_outbound slot = Some c"
  by (auto simp: pushed_def split: option.splits if_splits)

lemma on_broadcast_eq:
  assumes "actor_inv a"
  shows "on_broadcast u a = a\<lparr>peers := bt_each (\<lambda>_. pushed (channels a)) (peers a),
    channels := delivered (Update u) (outbounds (peers a)) (channels a)\<rparr>"
  by (simp add: on_broadcast_def push_all_eq [OF outbounds_distinct [OF assms]] bt_each_def)

lemma on_send_input_eq:
  assumes "bt_get (peers a) to = Some slot"
  shows "on_send_input to events a = a\<lparr>peers := bt_adjust to (\<lambda>_. pushed (channels a) slot) (peers a),
    channels := delivered (Input events)
      (case ps_outbound slot of None \<Rightarrow> [] | Some c \<Rightarrow> [c]) (channels a)\<rparr>"
  by (simp add: on_send_input_def assms push_eq)

lemma actor_step_inv:
  assumes inv: "actor_inv a" and "new_channel msg a" and "actor_step now auth msg a = Some a'"
  shows "actor_inv a'"
proof (cases msg)
  case (Sighting s)
  then show ?thesis using on_sighting_inv [OF inv] assms(3) by auto
next
  case (Session outcome)
  then show ?thesis using on_session_inv [OF inv] assms(2,3) by auto
next
  case (Broadcast u)
  then have a': "a' = on_broadcast u a" using assms(3) by simp
  show ?thesis
    unfolding a' using actor_invD(1,2) [OF inv]
    by (intro inv_by_slots [OF inv])
      (auto simp: on_broadcast_eq [OF inv] bt_ok_each bt_get_each slot_ok_def dest: pushed_outbound)
next
  case (SendInput to events)
  then have a': "a' = on_send_input to events a" using assms(3) by simp
  show ?thesis
  proof (cases "bt_get (peers a) to")
    case None
    then show ?thesis using inv by (simp add: a' on_send_input_def)
  next
    case (Some slot)
    then show ?thesis
      unfolding a' using actor_invD(1,2) [OF inv]
      by (intro inv_by_slots [OF inv])
        (auto simp: on_send_input_eq bt_ok_adjust bt_get_adjust slot_ok_def
          split: if_splits dest: pushed_outbound)
  qed
next
  case (AnnounceCursorOwner m)
  then show ?thesis using assms(3) by (auto simp: on_announce_owner_def intro: peers_unchanged [OF inv])
next
  case Rescan
  then have a': "a' = on_rescan now a" using assms(3) by simp
  show ?thesis
    unfolding a' using actor_invD(1,2) [OF inv]
    by (intro inv_by_slots [OF inv]) (auto simp: on_rescan_def bt_ok_each bt_get_each slot_ok_def split: if_splits)
next
  case Tick
  then have a': "a' = on_tick now a" using assms(3) by simp
  note ok = actor_invD(1) [OF inv]
  have "bt_ok (peers a')" by (simp add: a' on_tick_eq [OF ok] bt_ok_each ok)
  moreover have "slot_ok (tick_slot now (me a) i slot) \<and>
      ps_outbound (tick_slot now (me a) i slot) = ps_outbound slot" if "slot_ok slot" for i slot
    using that by (auto simp: tick_slot_def due_def slot_ok_def)
  ultimately show ?thesis
    using actor_invD(2) [OF inv]
    by (intro inv_by_slots [OF inv]) (auto simp: a' get_on_tick [OF ok])
next
  case Shutdown
  then show ?thesis using assms(3) by simp
qed

section \<open>A peer that nothing takes out of its state\<close>

text \<open>Only three outcomes about a peer change its state once it is connecting or online.\<close>

fun quiet :: "machine_id \<Rightarrow> internal \<Rightarrow> bool" where
  "quiet i (Session (Established j _ _)) = (j \<noteq> i)"
| "quiet i (Session (Closed j _)) = (j \<noteq> i)"
| "quiet i (Session (DifferentWorkspaces j _ _ _ _)) = (j \<noteq> i)"
| "quiet i _ = True"

definition in_status :: "status \<Rightarrow> machine_id \<Rightarrow> actor \<Rightarrow> bool" where
  "in_status st i a \<longleftrightarrow> (\<exists>slot. bt_get (peers a) i = Some slot \<and> ps_status slot = st)"

abbreviation is_connecting :: "machine_id \<Rightarrow> actor \<Rightarrow> bool" where
  "is_connecting \<equiv> in_status Connecting"

definition dials_of :: "machine_id \<Rightarrow> actor \<Rightarrow> task list" where
  "dials_of i a = filter (\<lambda>t. case t of Dial j _ \<Rightarrow> j = i | _ \<Rightarrow> False) (spawned a)"

lemma quiet_session:
  assumes "bt_ok (peers a)" and "in_status st i a" and "quiet i (Session outcome)"
  shows "in_status st i (on_session now outcome a) \<and> dials_of i (on_session now outcome a) = dials_of i a"
  using assms
  by (cases outcome)
    (auto simp: in_status_def dials_of_def emit_def bt_get_entry bt_get_adjust)

lemma quiet_sighting:
  assumes "bt_ok (peers a)" and "in_status st i a"
  shows "in_status st i (on_sighting now auth s a) \<and> dials_of i (on_sighting now auth s a) = dials_of i a"
  using assms
  by (auto simp: on_sighting_def Let_def in_status_def dials_of_def emit_def spawn_def bt_get_entry)

lemma quiet_tick:
  assumes "bt_ok (peers a)" and "in_status st i a" and "st \<noteq> Offline"
  shows "in_status st i (on_tick now a) \<and> dials_of i (on_tick now a) = dials_of i a"
proof -
  obtain slot where slot: "bt_get (peers a) i = Some slot" "ps_status slot = st"
    using assms(2) by (auto simp: in_status_def)
  then have "(i, addr) \<notin> set (dials now a)" for addr
    using assms(3) by (simp add: set_dials [OF assms(1)] due_def)
  then have "filter (\<lambda>t. case t of Dial j _ \<Rightarrow> j = i | _ \<Rightarrow> False)
      (map (\<lambda>(i, addr). Dial i addr) (dials now a)) = []"
    by (auto simp: filter_empty_conv)
  then have "dials_of i (on_tick now a) = dials_of i a"
    by (simp add: dials_of_def on_tick_eq [OF assms(1)])
  moreover have "in_status st i (on_tick now a)"
    using slot assms(3) by (simp add: in_status_def get_on_tick [OF assms(1)] tick_slot_def due_def)
  ultimately show ?thesis by simp
qed

lemma quiet_step:
  assumes inv: "actor_inv a" and con: "in_status st i a" and "quiet i msg"
    and step: "actor_step now auth msg a = Some a'" and st: "st \<noteq> Offline"
  shows "in_status st i a' \<and> dials_of i a' = dials_of i a"
proof -
  note ok = actor_invD(1) [OF inv]
  obtain slot where slot: "bt_get (peers a) i = Some slot" "ps_status slot = st"
    using con by (auto simp: in_status_def)
  show ?thesis
  proof (cases msg)
    case (Sighting s)
    then show ?thesis using step quiet_sighting [OF ok con] by auto
  next
    case (Session outcome)
    then show ?thesis using step assms(3) quiet_session [OF ok con] by auto
  next
    case (Broadcast u)
    then show ?thesis
      using step slot by (auto simp: on_broadcast_eq [OF inv] in_status_def bt_get_each dials_of_def)
  next
    case (SendInput to events)
    then show ?thesis
      using step slot
      by (cases "bt_get (peers a) to")
        (auto simp: on_send_input_def push_eq in_status_def bt_get_adjust dials_of_def)
  next
    case (AnnounceCursorOwner m)
    then show ?thesis using step slot by (auto simp: on_announce_owner_def in_status_def dials_of_def)
  next
    case Rescan
    then show ?thesis
      using step slot st by (auto simp: on_rescan_def in_status_def bt_get_each dials_of_def)
  next
    case Tick
    then show ?thesis using step quiet_tick [OF ok con st] by auto
  next
    case Shutdown
    then show ?thesis using step by simp
  qed
qed

text \<open>Each session of the mailbox announces itself with a new channel.\<close>

fun new_channels :: "(instant \<times> (machine_id \<Rightarrow> pub_key \<Rightarrow> bool) \<times> internal) list \<Rightarrow> actor \<Rightarrow> bool" where
  "new_channels [] a = True"
| "new_channels ((now, auth, msg) # mail) a =
     (new_channel msg a \<and> (case actor_step now auth msg a of None \<Rightarrow> True | Some a' \<Rightarrow> new_channels mail a'))"

lemma actor_run_inv: "actor_inv a \<Longrightarrow> new_channels mail a \<Longrightarrow> actor_inv (actor_run mail a)"
proof (induction mail arbitrary: a)
  case (Cons m mail)
  obtain now auth msg where "m = (now, auth, msg)" by (cases m)
  with Cons actor_step_inv show ?case by (cases "actor_step now auth msg a") auto
qed simp

lemma quiet_run:
  "st \<noteq> Offline \<Longrightarrow> actor_inv a \<Longrightarrow> new_channels mail a \<Longrightarrow> in_status st i a \<Longrightarrow>
     \<forall>(_, _, msg) \<in> set mail. quiet i msg \<Longrightarrow>
     in_status st i (actor_run mail a) \<and> dials_of i (actor_run mail a) = dials_of i a"
proof (induction mail arbitrary: a)
  case (Cons m mail)
  obtain now auth msg where m: "m = (now, auth, msg)" by (cases m)
  show ?case
  proof (cases "actor_step now auth msg a")
    case None
    then show ?thesis using Cons.prems by (simp add: m)
  next
    case (Some a')
    have "in_status st i a' \<and> dials_of i a' = dials_of i a"
      using Cons.prems by (intro quiet_step [OF _ _ _ Some]) (auto simp: m)
    moreover have "actor_inv a'"
      using Cons.prems by (intro actor_step_inv [OF _ _ Some]) (auto simp: m)
    ultimately show ?thesis
      using Cons.IH [of a'] Cons.prems by (auto simp: m Some)
  qed
qed simp

section \<open>Coming back after a closed session\<close>

lemma backoff_cap: "backoff att \<le> 30000" "1000 \<le> backoff att"
  by (simp_all add: backoff_def)

lemma backoff_mono: "att \<le> att' \<Longrightarrow> backoff att \<le> backoff att'"
proof -
  assume "att \<le> att'"
  then have "unat (min att 5) \<le> unat (min att' 5)"
    by (simp add: word_le_nat_alt [symmetric] min.coboundedI1)
  then have "(2 :: nat) ^ unat (min att 5) \<le> 2 ^ unat (min att' 5)" by (simp add: power_increasing)
  then show ?thesis by (simp add: backoff_def min.coboundedI1)
qed

lemma fresh_now: "last_seen slot = Some t \<Longrightarrow> now < t + HINT_TTL \<Longrightarrow> fresh now slot"
  by (simp add: fresh_def HINT_TTL_def)

lemma sighted_next: "next_attempt (sighted now an addr slot) \<le> max now (next_attempt slot)"
  by (simp add: sighted_def Let_def)

lemma sighted_hint [simp]:
  "last_seen (sighted now an addr slot) = Some now" "ps_addr (sighted now an addr slot) = Some addr"
  by (simp_all add: sighted_def Let_def)

lemma redial:
  assumes "actor_inv a" and "bt_get (peers a) i = Some slot" and "me a < i"
    and "auth i (an_identity_key (sg_announcement s))" and "an_machine_id (sg_announcement s) = i"
    and "t1 \<le> now" and "now < t1 + HINT_TTL" and "t + 30000 \<le> now"
  shows "is_connecting i (on_tick now (on_sighting t1 auth s (on_session t (Closed i reason) a)))"
proof -
  let ?b = "on_session t (Closed i reason) a"
  let ?c = "on_sighting t1 auth s ?b"
  have invb: "actor_inv ?b" by (rule on_session_inv [OF assms(1)]) (simp add: new_channel_def)
  obtain old where old: "bt_get (peers ?b) i = Some old" "ps_status old = Offline"
      "next_attempt old = t + backoff (attempts old)"
    using assms(2) by (simp add: emit_def bt_get_adjust Let_def)
  let ?addr = "\<lparr>sa_ip = sa_ip (sg_from s), sa_port = an_transport_port (sg_announcement s)\<rparr>"
  have "me ?b = me a" by (simp add: emit_def)
  then have "bt_get (peers ?c) i = Some (sighted t1 (sg_announcement s) ?addr old)"
    using assms(3-5) old(1) actor_invD(1) [OF invb]
    by (auto simp: on_sighting_def Let_def bt_get_entry emit_def spawn_def)
  moreover have "me ?c = me a" by (simp add: on_sighting_def Let_def emit_def spawn_def)
  moreover have "next_attempt (sighted t1 (sg_announcement s) ?addr old) \<le> now"
    using sighted_next [of t1 "sg_announcement s" ?addr old] backoff_cap(1) [of "attempts old"] old(3)
      assms(6,8) by linarith
  moreover have "fresh now (sighted t1 (sg_announcement s) ?addr old)"
    using assms(7) by (intro fresh_now) simp_all
  moreover have "bt_ok (peers ?c)"
    by (rule actor_invD(1) [OF on_sighting_inv [OF invb]])
  ultimately show ?thesis
    using assms(3) old(2) by (simp add: in_status_def get_on_tick tick_slot_def due_def)
qed

section \<open>A sample actor\<close>

definition sample_key :: pub_key where "sample_key = PubKey [1]"

definition sample_announcement :: announcement where
  "sample_announcement = \<lparr>an_protocol = 1, an_machine_id = 2, an_identity_key = sample_key,
     an_display_name = ''pc'', an_workspace_id = Some 7, an_transport_port = 47452,
     an_probe = False, an_invitations = []\<rparr>"

definition sample_sighting :: sighting where
  "sample_sighting = \<lparr>sg_announcement = sample_announcement,
     sg_from = \<lparr>sa_ip = V4 0xC0A80002, sa_port = 47451\<rparr>\<rparr>"

definition sample_actor :: actor where
  "sample_actor = \<lparr>me = 1, discovery_port_of = 47451, peers = [], channels = (\<lambda>_. \<lparr>ch_queue = [], ch_open = True\<rparr>),
     emitted = [], spawned = []\<rparr>"

definition sample_online :: actor where
  "sample_online = on_session 1000 (Established 2 ''pc'' 5) (on_sighting 900 (\<lambda>_ _. True) sample_sighting sample_actor)"

lemma sample_actor_inv: "actor_inv sample_actor"
  by (simp add: actor_inv_def sample_actor_def bt_get_def)

lemma sample_online_inv: "actor_inv sample_online"
  unfolding sample_online_def
  by (intro on_session_inv on_sighting_inv sample_actor_inv)
    (simp add: new_channel_def on_sighting_def Let_def sample_actor_def sample_sighting_def
      sample_announcement_def bt_entry_def bt_get_def emit_def)

section \<open>Properties\<close>

text \<open>
  C11: Every message keeps the actor's table sound: peers in key order, a connection to send
  on only for a peer that is online, and no connection shared by two peers, provided a
  session that reports itself established brings a channel of its own.
\<close>

theorem actor_keeps_invariant:
  assumes "actor_inv a" and "new_channels mail a"
  shows "actor_inv (actor_run mail a)"
  using assms by (rule actor_run_inv)

theorem actor_keeps_invariant_witness:
  "actor_inv (actor_run [(900, \<lambda>_ _. True, Sighting sample_sighting), (1500, \<lambda>_ _. True, Tick)] sample_actor)"
  by (rule actor_keeps_invariant [OF sample_actor_inv]) (simp add: new_channel_def)

text \<open>
  A local change reaches every connected peer or costs it the connection. After a
  broadcast each connected peer either has the update at the end of its queue and keeps its
  connection, or has lost the connection (and will be sent the whole document when it
  reconnects). No update is dropped silently, and no other peer is touched.
\<close>

theorem broadcast_reaches_everyone:
  assumes "actor_inv a" and "bt_get (peers a) i = Some slot"
  shows "\<exists>slot'. bt_get (peers (on_broadcast u a)) i = Some slot' \<and>
    (case ps_outbound slot of
       None \<Rightarrow> slot' = slot
     | Some c \<Rightarrow>
         if accepts (channels a) c
         then slot' = slot \<and>
           ch_queue (channels (on_broadcast u a) c) = ch_queue (channels a c) @ [Update u]
         else slot' = slot\<lparr>ps_outbound := None\<rparr> \<and> channels (on_broadcast u a) c = channels a c)"
proof -
  have "c \<in> set (outbounds (peers a))" if "ps_outbound slot = Some c" for c
    using that assms(2) bt.entries_iff [OF actor_invD(1) [OF assms(1)]] by (auto simp: set_outbounds)
  then show ?thesis
    using assms(2)
    by (simp add: on_broadcast_eq [OF assms(1)] bt_get_each pushed_def delivered_def enqueue_def
        split: option.split)
qed



text \<open>
  What a tick dials: exactly the peers that are offline, have the higher id, were heard
  from within the last twenty seconds, are past their backoff and have an address; each
  becomes \<open>Connecting\<close> and is dialled at that address. So of two machines only one ever dials
  the other, and a machine that is switched off costs no dial; its address is forgotten.
\<close>

theorem tick_dials_due_peers:
  assumes "bt_ok (peers a)"
  shows "\<exists>ds. spawned (on_tick now a) = spawned a @ map (\<lambda>(i, addr). Dial i addr) ds \<and>
    (\<forall>i addr. (i, addr) \<in> set ds \<longleftrightarrow>
       (\<exists>slot. bt_get (peers a) i = Some slot \<and> ps_status slot = Offline \<and> me a < i \<and>
          fresh now slot \<and> next_attempt slot \<le> now \<and> ps_addr slot = Some addr)) \<and>
    (\<forall>i. bt_get (peers (on_tick now a)) i = map_option (tick_slot now (me a) i) (bt_get (peers a) i))"
  using set_dials [OF assms, of _ _ now] get_on_tick [OF assms, of now]
  by (intro exI [of _ "dials now a"]) (simp add: on_tick_eq [OF assms] due_def)



text \<open>
  A refusal on our own side wedges the peer. A dial that ends in \<^verbatim>\<open>Rejected\<close> (this machine
  no longer authorises the peer when the connection is up) reports nothing else, and no
  tick, rescan, sighting or other message takes the peer out of \<open>Connecting\<close>: from then on
  it is never dialled again, even after it is paired anew, until a session with it is
  reported by some other way.
\<close>

theorem rejected_dial_wedges_peer:
  assumes "actor_inv a" and "is_connecting i a"
    and "new_channels ((t, auth, Session (Rejected i key addr)) # mail) a"
    and "\<forall>(_, _, msg) \<in> set mail. quiet i msg"
  shows "is_connecting i (actor_run ((t, auth, Session (Rejected i key addr)) # mail) a) \<and>
    dials_of i (actor_run ((t, auth, Session (Rejected i key addr)) # mail) a) = dials_of i a"
  using assms by (intro quiet_run) auto

text \<open>
  An outcome does not say which session it is about. When a second session with a peer is
  established before the end of the first one is reported, the report takes the live
  session down: the peer is marked offline and its connection is dropped.
\<close>

theorem stale_close_drops_live_session:
  assumes "bt_ok (peers a)"
  shows "\<exists>slot. bt_get (peers (on_session t' (Closed i reason) (on_session t (Established i name c) a))) i = Some slot \<and>
    ps_status slot = Offline \<and> ps_outbound slot = None"
  using assms by (simp add: emit_def bt_get_adjust bt_get_entry Let_def)

text \<open>
  Captured input goes to the one machine it is meant for, and is never kept for later.
  If that peer is connected and its queue has room the events are appended to its queue; in
  every other case no queue changes at all, and a peer that is not keeping up loses its
  connection. No other peer's slot changes.
\<close>

theorem input_goes_to_target_only:
  assumes "bt_ok (peers a)"
  shows "(\<forall>i. i \<noteq> to \<longrightarrow> bt_get (peers (on_send_input to events a)) i = bt_get (peers a) i) \<and>
    channels (on_send_input to events a) =
      (case Option.bind (bt_get (peers a) to) ps_outbound of
         Some c \<Rightarrow>
           if accepts (channels a) c
           then (channels a)(c := enqueue (Input events) (channels a c)) else channels a
       | None \<Rightarrow> channels a)"
  by (cases "bt_get (peers a) to")
    (auto simp: on_send_input_def push_eq bt_get_adjust delivered_def fun_eq_iff split: option.split)

end
