(* ===== verification/Identity.thy ===== *)
theory Identity
  imports Workspace
begin

text \<open>
  The permanent identity of a machine (\<^verbatim>\<open>crates/is-core/src/identity.rs\<close>).

  Hexadecimal coding (crate \<^verbatim>\<open>hex\<close>), Ed25519 (\<^verbatim>\<open>ed25519_dalek\<close>), X25519, HKDF and the AEAD
  cipher are third-party code: they are the fields of the record \<open>crypto\<close>, an argument of
  every definition that calls them. What the program relies on is \<open>crypto_ok\<close>, which is the
  documented behaviour of those crates.
\<close>

section \<open>The crates the program calls\<close>

type_synonym bytes = "u8 list"

record crypto =
  hex_encode :: "bytes \<Rightarrow> string"
  hex_decode :: "string \<Rightarrow> string + bytes"
  ed_public :: "bytes \<Rightarrow> bytes"
  ed_key_error :: "bytes \<Rightarrow> string option"
  ed_sign :: "bytes \<Rightarrow> bytes \<Rightarrow> bytes"
  ed_verify :: "bytes \<Rightarrow> bytes \<Rightarrow> bytes \<Rightarrow> bool"
  x_public :: "bytes \<Rightarrow> bytes"
  x_shared :: "bytes \<Rightarrow> bytes \<Rightarrow> bytes"
  hkdf :: "bytes \<Rightarrow> bytes \<Rightarrow> bytes \<Rightarrow> nat \<Rightarrow> bytes option"
  aead_seal :: "bytes \<Rightarrow> bytes \<Rightarrow> bytes \<Rightarrow> bytes option"
  aead_open :: "bytes \<Rightarrow> bytes \<Rightarrow> bytes \<Rightarrow> bytes option"

text \<open>
  Documented behaviour: decoding undoes encoding; a key pair's signatures verify under its
  public key, which is a valid key of 32 bytes; both sides of a Diffie-Hellman exchange get
  one secret; HKDF-SHA256 yields the requested 64 bytes; decryption under the same key and
  nonce undoes encryption.
\<close>

definition crypto_ok :: "crypto \<Rightarrow> bool" where
  "crypto_ok C \<longleftrightarrow>
     (\<forall>b. hex_decode C (hex_encode C b) = Inr b) \<and>
     (\<forall>sk. length (ed_public C sk) = 32 \<and> ed_key_error C (ed_public C sk) = None) \<and>
     (\<forall>sk m. ed_verify C (ed_public C sk) m (ed_sign C sk m)) \<and>
     (\<forall>a b. x_shared C a (x_public C b) = x_shared C b (x_public C a)) \<and>
     (\<forall>salt ikm info. \<exists>k. hkdf C salt ikm info 64 = Some k \<and> length k = 64) \<and>
     (\<forall>k n m c. aead_seal C k n m = Some c \<longrightarrow> aead_open C k n c = Some m)"

section \<open>Public keys\<close>

definition pub_key_from_bytes :: "bytes \<Rightarrow> pub_key" where
  "pub_key_from_bytes b = PubKey b"

definition to_hex :: "crypto \<Rightarrow> pub_key \<Rightarrow> string" where
  "to_hex C k = hex_encode C (key_bytes k)"

definition from_hex :: "crypto \<Rightarrow> string \<Rightarrow> core_error + pub_key" where
  "from_hex C s =
     (case hex_decode C s of
        Inl e \<Rightarrow> Inl (HexError e)
      | Inr raw \<Rightarrow> if length raw = 32 then Inr (PubKey raw) else Inl (KeyLength 32 (length raw)))"

definition fingerprint :: "crypto \<Rightarrow> pub_key \<Rightarrow> string" where
  "fingerprint C k = hex_encode C (take 4 (key_bytes k))"

definition verifying_key :: "crypto \<Rightarrow> pub_key \<Rightarrow> core_error + bytes" where
  "verifying_key C k =
     (case ed_key_error C (key_bytes k) of Some e \<Rightarrow> Inl (BadKey e) | None \<Rightarrow> Inr (key_bytes k))"

definition verify :: "crypto \<Rightarrow> pub_key \<Rightarrow> bytes \<Rightarrow> bytes \<Rightarrow> bool" where
  "verify C k msg sig =
     (case verifying_key C k of Inr vk \<Rightarrow> ed_verify C vk msg sig | Inl _ \<Rightarrow> False)"

section \<open>The identity\<close>

record identity =
  id_machine_id :: machine_id
  created_at_ms :: u64
  secret_key :: bytes

text \<open>\<^verbatim>\<open>generate\<close>: the random id and secret and the clock are arguments.\<close>

definition generate :: "machine_id \<Rightarrow> u64 \<Rightarrow> bytes \<Rightarrow> identity" where
  "generate rand_id now secret = \<lparr>id_machine_id = rand_id, created_at_ms = now, secret_key = secret\<rparr>"

definition public_key :: "crypto \<Rightarrow> identity \<Rightarrow> pub_key" where
  "public_key C i = PubKey (ed_public C (secret_key i))"

definition sign :: "crypto \<Rightarrow> identity \<Rightarrow> bytes \<Rightarrow> bytes" where
  "sign C i msg = ed_sign C (secret_key i) msg"

text \<open>\<^verbatim>\<open>hex32\<close>, the serialized form of the secret key.\<close>

definition hex32_serialize :: "crypto \<Rightarrow> bytes \<Rightarrow> string" where
  "hex32_serialize C b = hex_encode C b"

definition hex32_deserialize :: "crypto \<Rightarrow> string \<Rightarrow> string + bytes" where
  "hex32_deserialize C s =
     (case hex_decode C s of
        Inl e \<Rightarrow> Inl e
      | Inr raw \<Rightarrow> if length raw = 32 then Inr raw else Inl ''expected 32 bytes'')"

section \<open>Facts\<close>

lemma crypto_okD:
  assumes "crypto_ok C"
  shows "hex_decode C (hex_encode C b) = Inr b"
    and "length (ed_public C sk) = 32" and "ed_key_error C (ed_public C sk) = None"
    and "ed_verify C (ed_public C sk) m (ed_sign C sk m)"
    and "x_shared C a (x_public C b) = x_shared C b (x_public C a)"
    and "\<exists>k. hkdf C salt ikm info 64 = Some k \<and> length k = 64"
    and "aead_seal C k n m = Some c \<Longrightarrow> aead_open C k n c = Some m"
  using assms by (auto simp: crypto_ok_def)

lemma verify_own: "crypto_ok C \<Longrightarrow> verify C (public_key C i) m (sign C i m)"
  by (simp add: verify_def verifying_key_def public_key_def sign_def crypto_okD)

lemma hex_round_trip:
  "crypto_ok C \<Longrightarrow> length (key_bytes k) = 32 \<Longrightarrow> from_hex C (to_hex C k) = Inr k"
  by (cases k) (simp add: from_hex_def to_hex_def crypto_okD)

section \<open>A concrete instance of the crates\<close>

text \<open>
  A toy instance that satisfies the laws, so that theorems about the handshake can be run:
  real hexadecimal coding, and arithmetic in place of cryptography.
\<close>

definition hex_digit :: "nat \<Rightarrow> char" where
  "hex_digit n = ''0123456789abcdef'' ! n"

definition hex_value :: "char \<Rightarrow> nat option" where
  "hex_value c =
     (let n = of_char c :: nat in
      if 48 \<le> n \<and> n \<le> 57 then Some (n - 48)
      else if 97 \<le> n \<and> n \<le> 102 then Some (n - 87)
      else if 65 \<le> n \<and> n \<le> 70 then Some (n - 55) else None)"

definition toy_hex_encode :: "bytes \<Rightarrow> string" where
  "toy_hex_encode bs = concat (map (\<lambda>b. [hex_digit (unat b div 16), hex_digit (unat b mod 16)]) bs)"

fun toy_hex_decode :: "string \<Rightarrow> string + bytes" where
  "toy_hex_decode [] = Inr []"
| "toy_hex_decode [c] = Inl ''odd number of digits''"
| "toy_hex_decode (c # d # cs) =
     (case (hex_value c, hex_value d) of
        (Some x, Some y) \<Rightarrow>
          (case toy_hex_decode cs of Inr bs \<Rightarrow> Inr (of_nat (16 * x + y) # bs) | Inl e \<Rightarrow> Inl e)
      | _ \<Rightarrow> Inl ''invalid character'')"

definition pad32 :: "bytes \<Rightarrow> bytes" where
  "pad32 b = take 32 (b @ replicate 32 0)"

definition xor_bytes :: "bytes \<Rightarrow> bytes \<Rightarrow> bytes" where
  "xor_bytes a b = map2 (XOR) a b"

definition toy_crypto :: crypto where
  "toy_crypto = \<lparr>hex_encode = toy_hex_encode, hex_decode = toy_hex_decode, ed_public = pad32,
     ed_key_error = (\<lambda>_. None), ed_sign = (\<lambda>sk m. pad32 sk @ pad32 m),
     ed_verify = (\<lambda>pk m sig. sig = pk @ pad32 m), x_public = pad32,
     x_shared = (\<lambda>a b. xor_bytes (pad32 a) (pad32 b)),
     hkdf = (\<lambda>salt ikm info n. Some (take n (salt @ replicate n 0))),
     aead_seal = (\<lambda>k n m. Some (n @ m)), aead_open = (\<lambda>k n c. if take (length n) c = n then Some (drop (length n) c) else None)\<rparr>"

lemma hex_value_digit: "n < 16 \<Longrightarrow> hex_value (hex_digit n) = Some n"
proof -
  have "\<forall>n \<in> set [0..<16]. hex_value (hex_digit n) = Some n" by code_simp
  then show "n < 16 \<Longrightarrow> ?thesis" by simp
qed

lemma toy_hex: "toy_hex_decode (toy_hex_encode bs) = Inr bs"
proof (induction bs)
  case (Cons b bs)
  have "unat b < 256" using unsigned_less [of b] by (simp add: unat_of_nat)
  then have "hex_value (hex_digit (unat b div 16)) = Some (unat b div 16)"
    and "hex_value (hex_digit (unat b mod 16)) = Some (unat b mod 16)"
    by (intro hex_value_digit; simp)+
  moreover have "16 * (unat b div 16) + unat b mod 16 = unat b" by simp
  ultimately show ?case
    using Cons by (simp add: toy_hex_encode_def del: of_nat_add of_nat_mult)
qed (simp add: toy_hex_encode_def)

lemma xor_bytes_commute: "xor_bytes a b = xor_bytes b a"
  unfolding xor_bytes_def by (induction a b rule: list_induct2') (simp_all add: xor.commute)

lemma length_pad32 [simp]: "length (pad32 b) = 32"
  by (simp add: pad32_def)

lemma toy_crypto_ok: "crypto_ok toy_crypto"
proof -
  have pad: "pad32 (pad32 b) = pad32 b" for b by (simp add: pad32_def)
  show ?thesis
    unfolding crypto_ok_def toy_crypto_def
    by (simp add: toy_hex pad xor_bytes_commute min_def)
qed

section \<open>Properties\<close>

text \<open>
  Keys survive their text form and signatures survive verification. A 32-byte public key
  comes back from its hexadecimal form, text of any other decoded length is refused with
  both lengths, and a signature made by an identity verifies under that identity's public
  key.
\<close>

theorem identity_round_trips:
  assumes "crypto_ok C"
  shows "(length (key_bytes k) = 32 \<longrightarrow> from_hex C (to_hex C k) = Inr k) \<and>
    (length (key_bytes k) \<noteq> 32 \<longrightarrow>
       from_hex C (to_hex C k) = Inl (KeyLength 32 (length (key_bytes k)))) \<and>
    hex32_deserialize C (hex32_serialize C b) =
      (if length b = 32 then Inr b else Inl ''expected 32 bytes'') \<and>
    verify C (public_key C i) m (sign C i m) \<and>
    from_hex C (to_hex C (public_key C i)) = Inr (public_key C i)"
  using hex_round_trip [OF assms] verify_own [OF assms]
  by (simp add: from_hex_def to_hex_def hex32_deserialize_def hex32_serialize_def public_key_def
      crypto_okD [OF assms])

end
