(* ===== verification/Handshake.thy ===== *)
theory Handshake
  imports Wire Identity
begin

text \<open>
  The handshake and the cipher after it (\<^verbatim>\<open>crates/is-net/src/crypto.rs\<close>), over the crates in
  \<open>crypto\<close>.

  The random ephemeral secret and nonce are arguments. The counter of a direction is a
  \<^verbatim>\<open>u64\<close> that wraps in the release build. The signature's text form is decoded byte by byte
  from slices of a \<^verbatim>\<open>String\<close>; slicing inside a multi-byte character panics, which is the
  outcome \<open>Panic\<close> here.
\<close>

section \<open>Hello\<close>

record hello =
  hl_protocol :: u16
  hl_machine_id :: machine_id
  hl_identity_key :: pub_key
  hl_ephemeral :: bytes
  hl_nonce :: bytes
  hl_signature :: bytes

definition bytes_of :: "string \<Rightarrow> bytes" where
  "bytes_of s = map of_char s"

definition SIGNING_CONTEXT :: bytes where
  "SIGNING_CONTEXT = bytes_of ''inputshare-handshake-v1''"

definition HKDF_INFO :: bytes where
  "HKDF_INFO = bytes_of ''inputshare-session-v1''"

definition transcript :: "machine_id \<Rightarrow> bytes \<Rightarrow> bytes \<Rightarrow> bytes" where
  "transcript i ephemeral nonce = SIGNING_CONTEXT @ be_bytes 16 i @ ephemeral @ nonce"

definition hello_verify :: "crypto \<Rightarrow> hello \<Rightarrow> bool" where
  "hello_verify C h \<longleftrightarrow> hl_protocol h = PROTOCOL_VERSION \<and>
     verify C (hl_identity_key h) (transcript (hl_machine_id h) (hl_ephemeral h) (hl_nonce h))
       (hl_signature h)"

section \<open>Handshake\<close>

record initiation =
  in_hello :: hello
  in_secret :: bytes
  in_nonce :: bytes

definition begin_handshake :: "crypto \<Rightarrow> bytes \<Rightarrow> bytes \<Rightarrow> identity \<Rightarrow> initiation" where
  "begin_handshake C secret nonce me =
     (let ephemeral = x_public C secret
      in \<lparr>in_hello = \<lparr>hl_protocol = PROTOCOL_VERSION, hl_machine_id = id_machine_id me,
            hl_identity_key = public_key C me, hl_ephemeral = ephemeral, hl_nonce = nonce,
            hl_signature = sign C me (transcript (id_machine_id me) ephemeral nonce)\<rparr>,
          in_secret = secret, in_nonce = nonce\<rparr>)"

record channel_direction =
  cd_key :: bytes
  cd_counter :: u64

definition direction_new :: "bytes \<Rightarrow> channel_direction" where
  "direction_new key = \<lparr>cd_key = key, cd_counter = 0\<rparr>"

record session =
  peer_machine :: machine_id
  peer_key :: pub_key
  ses_send :: channel_direction
  ses_receive :: channel_direction

definition complete :: "crypto \<Rightarrow> initiation \<Rightarrow> hello \<Rightarrow> bool \<Rightarrow> net_error + session" where
  "complete C self peer dialled =
     (if \<not> hello_verify C peer then Inl (HandshakeError ''peer could not prove its identity key'')
      else if hl_machine_id peer = hl_machine_id (in_hello self)
      then Inl (HandshakeError ''peer reports our own machine id'')
      else
        let shared = x_shared C (in_secret self) (hl_ephemeral peer);
            (first, second) = (if dialled then (in_nonce self, hl_nonce peer)
              else (hl_nonce peer, in_nonce self))
        in case hkdf C (first @ second) shared HKDF_INFO 64 of
             None \<Rightarrow> Inl (HandshakeError ''key derivation failed'')
           | Some keys \<Rightarrow>
               let (send, receive) = (if dialled then (take 32 keys, drop 32 keys)
                 else (drop 32 keys, take 32 keys))
               in Inr \<lparr>peer_machine = hl_machine_id peer, peer_key = hl_identity_key peer,
                    ses_send = direction_new send, ses_receive = direction_new receive\<rparr>)"

section \<open>The cipher\<close>

definition next_nonce :: "channel_direction \<Rightarrow> bytes \<times> channel_direction" where
  "next_nonce dir =
     (replicate 4 0 @ be_bytes 8 (cd_counter dir), dir\<lparr>cd_counter := cd_counter dir + 1\<rparr>)"

definition split_session :: "session \<Rightarrow> channel_direction \<times> channel_direction" where
  "split_session s = (ses_send s, ses_receive s)"

definition seal :: "crypto \<Rightarrow> bytes \<Rightarrow> channel_direction \<Rightarrow> channel_direction \<times> (net_error + bytes)" where
  "seal C plaintext dir =
     (let (nonce, dir') = next_nonce dir
      in (dir', case aead_seal C (cd_key dir) nonce plaintext of
            Some c \<Rightarrow> Inr c | None \<Rightarrow> Inl (CryptoError ''could not encrypt frame'')))"

definition open_frame :: "crypto \<Rightarrow> bytes \<Rightarrow> channel_direction \<Rightarrow> channel_direction \<times> (net_error + bytes)" where
  "open_frame C ciphertext dir =
     (let (nonce, dir') = next_nonce dir
      in (dir', case aead_open C (cd_key dir) nonce ciphertext of
            Some m \<Rightarrow> Inr m | None \<Rightarrow> Inl (CryptoError ''frame failed authentication'')))"

section \<open>The text form of a signature\<close>

datatype 'a parsed = Parsed 'a | Refused string | Panic

definition lower_hex :: "nat \<Rightarrow> u8" where
  "lower_hex n = (if n < 10 then of_nat (48 + n) else of_nat (87 + n))"

definition sig64_serialize :: "bytes \<Rightarrow> bytes" where
  "sig64_serialize bs = concat (map (\<lambda>b. [lower_hex (unat b div 16), lower_hex (unat b mod 16)]) bs)"

text \<open>Texts are their UTF-8 bytes; a boundary is a position that is not a continuation byte.\<close>

definition char_boundary :: "bytes \<Rightarrow> nat \<Rightarrow> bool" where
  "char_boundary text i \<longleftrightarrow> length text = i \<or> (i < length text \<and> text ! i AND 0xC0 \<noteq> 0x80)"

definition digit_value :: "u8 \<Rightarrow> nat option" where
  "digit_value c =
     (let n = unat c in
      if 48 \<le> n \<and> n \<le> 57 then Some (n - 48)
      else if 97 \<le> n \<and> n \<le> 102 then Some (n - 87)
      else if 65 \<le> n \<and> n \<le> 70 then Some (n - 55) else None)"

text \<open>\<^verbatim>\<open>u8::from_str_radix(_, 16)\<close> on two bytes: a leading plus sign is accepted.\<close>

definition from_str_radix16 :: "u8 \<Rightarrow> u8 \<Rightarrow> u8 option" where
  "from_str_radix16 c d =
     (if c = 43 then map_option of_nat (digit_value d)
      else case (digit_value c, digit_value d) of
        (Some x, Some y) \<Rightarrow> Some (of_nat (16 * x + y))
      | _ \<Rightarrow> None)"

fun sig64_bytes :: "bytes \<Rightarrow> nat \<Rightarrow> nat \<Rightarrow> bytes parsed" where
  "sig64_bytes text i 0 = Parsed []"
| "sig64_bytes text i (Suc n) =
     (if \<not> (char_boundary text (i * 2) \<and> char_boundary text (i * 2 + 2)) then Panic
      else case from_str_radix16 (text ! (i * 2)) (text ! (i * 2 + 1)) of
        None \<Rightarrow> Refused ''invalid digit found in string''
      | Some b \<Rightarrow>
          (case sig64_bytes text (Suc i) n of
             Parsed bs \<Rightarrow> Parsed (b # bs)
           | Refused e \<Rightarrow> Refused e
           | Panic \<Rightarrow> Panic))"

definition sig64_deserialize :: "bytes \<Rightarrow> bytes parsed" where
  "sig64_deserialize text =
     (if length text \<noteq> 128 then Refused ''expected a 64-byte signature'' else sig64_bytes text 0 64)"

section \<open>Streams of frames\<close>

fun seal_all :: "crypto \<Rightarrow> bytes list \<Rightarrow> channel_direction \<Rightarrow> channel_direction \<times> (net_error + bytes) list" where
  "seal_all C [] dir = (dir, [])"
| "seal_all C (m # ms) dir =
     (let (dir1, c) = seal C m dir; (dir2, cs) = seal_all C ms dir1 in (dir2, c # cs))"

fun open_all :: "crypto \<Rightarrow> bytes list \<Rightarrow> channel_direction \<Rightarrow> channel_direction \<times> (net_error + bytes) list" where
  "open_all C [] dir = (dir, [])"
| "open_all C (c # cs) dir =
     (let (dir1, m) = open_frame C c dir; (dir2, ms) = open_all C cs dir1 in (dir2, m # ms))"

fun used_nonces :: "nat \<Rightarrow> channel_direction \<Rightarrow> bytes list" where
  "used_nonces 0 dir = []"
| "used_nonces (Suc n) dir =
     (let (nonce, dir') = next_nonce dir in nonce # used_nonces n dir')"

lemma open_sealed:
  "crypto_ok C \<Longrightarrow> seal_all C ms dir = (dir', map Inr cs) \<Longrightarrow> open_all C cs dir = (dir', map Inr ms)"
proof (induction ms arbitrary: dir cs)
  case (Cons m ms)
  let ?nonce = "fst (next_nonce dir)" and ?dir = "snd (next_nonce dir)"
  obtain c cs' where cs: "cs = c # cs'"
    using Cons.prems(2) by (cases cs) (auto simp: split_def Let_def)
  then have c: "aead_seal C (cd_key dir) ?nonce m = Some c"
    and rest: "seal_all C ms ?dir = (dir', map Inr cs')"
    using Cons.prems(2) by (auto simp: seal_def split_def Let_def prod_eq_iff split: option.splits)
  from Cons.IH [OF Cons.prems(1) rest] crypto_okD(7) [OF Cons.prems(1) c] show ?case
    by (simp add: cs open_frame_def split_def Let_def)
qed simp

lemma used_nonces_eq:
  "used_nonces n dir = map (\<lambda>k. replicate 4 0 @ be_bytes 8 (cd_counter dir + of_nat k)) [0..<n]"
proof (induction n arbitrary: dir)
  case (Suc n)
  have "[0..<Suc n] = 0 # map Suc [0..<n]" by (simp add: map_Suc_upt upt_conv_Cons)
  then show ?case
    by (simp add: Suc next_nonce_def Let_def o_def ac_simps del: upt_Suc)
qed simp

lemma nonces_distinct: "n \<le> 2 ^ 64 \<Longrightarrow> distinct (used_nonces n dir)"
proof -
  assume n: "n \<le> 2 ^ 64"
  have "inj_on (\<lambda>k. replicate 4 (0 :: u8) @ be_bytes 8 (cd_counter dir + of_nat k)) {0..<n}"
  proof (rule inj_onI)
    fix j k
    assume jk: "j \<in> {0..<n}" "k \<in> {0..<n}"
      and "replicate 4 (0 :: u8) @ be_bytes 8 (cd_counter dir + of_nat j) =
        replicate 4 0 @ be_bytes 8 (cd_counter dir + of_nat k)"
    then have "cd_counter dir + of_nat j = cd_counter dir + of_nat k"
      by (intro be_bytes_inject [where k = 8]) simp_all
    then have "(of_nat j :: u64) = of_nat k" by simp
    then have "unat (of_nat j :: u64) = unat (of_nat k :: u64)" by simp
    moreover have "j < 2 ^ LENGTH(64)" "k < 2 ^ LENGTH(64)" using jk n by simp_all
    ultimately show "j = k" by (simp add: unsigned_of_nat take_bit_nat_eq_self)
  qed
  then show ?thesis by (simp add: used_nonces_eq distinct_map)
qed

section \<open>The two ends of a handshake\<close>

lemma hello_verify_own: "crypto_ok C \<Longrightarrow> hello_verify C (in_hello (begin_handshake C secret nonce me))"
  by (simp add: hello_verify_def begin_handshake_def Let_def verify_own)

lemma complete_ok:
  "complete C self peer dialled = Inr s \<Longrightarrow>
     hello_verify C peer \<and> hl_machine_id peer \<noteq> hl_machine_id (in_hello self) \<and>
     peer_machine s = hl_machine_id peer \<and> peer_key s = hl_identity_key peer \<and>
     cd_counter (ses_send s) = 0 \<and> cd_counter (ses_receive s) = 0"
  by (auto simp: complete_def direction_new_def Let_def split: if_splits option.splits)

lemma handshake_both_ends:
  assumes "crypto_ok C" and "id_machine_id a \<noteq> id_machine_id b"
  shows "\<exists>s t.
    complete C (begin_handshake C sa na a) (in_hello (begin_handshake C sb nb b)) True = Inr s \<and>
    complete C (begin_handshake C sb nb b) (in_hello (begin_handshake C sa na a)) False = Inr t \<and>
    ses_send s = ses_receive t \<and> ses_receive s = ses_send t \<and>
    peer_machine s = id_machine_id b \<and> peer_key s = public_key C b \<and>
    peer_machine t = id_machine_id a \<and> peer_key t = public_key C a"
proof -
  obtain keys where "hkdf C (na @ nb) (x_shared C sa (x_public C sb)) HKDF_INFO 64 = Some keys"
    using crypto_okD(6) [OF assms(1)] by blast
  moreover have "x_shared C sb (x_public C sa) = x_shared C sa (x_public C sb)"
    by (rule crypto_okD(5) [OF assms(1)])
  ultimately show ?thesis
    using assms(2) hello_verify_own [OF assms(1), of sa na a] hello_verify_own [OF assms(1), of sb nb b]
    by (simp add: complete_def) (simp add: begin_handshake_def Let_def)
qed

section \<open>Hexadecimal\<close>

lemma digit_value_lower: "n < 16 \<Longrightarrow> digit_value (lower_hex n) = Some n \<and> lower_hex n \<noteq> 43 \<and> lower_hex n AND 0xC0 \<noteq> 0x80"
proof -
  have "\<forall>n \<in> set [0..<16]. digit_value (lower_hex n) = Some n \<and> lower_hex n \<noteq> 43 \<and> lower_hex n AND 0xC0 \<noteq> 0x80"
    by code_simp
  then show "n < 16 \<Longrightarrow> ?thesis" by simp
qed

lemma unat_u8: "unat (b :: u8) < 256"
  using unsigned_less [of b] by (simp add: unat_of_nat)

lemma radix_lower: "from_str_radix16 (lower_hex (unat b div 16)) (lower_hex (unat b mod 16)) = Some b"
proof -
  have "unat b div 16 < 16" and "unat b mod 16 < 16" using unat_u8 [of b] by simp_all
  then have "digit_value (lower_hex (unat b div 16)) = Some (unat b div 16)"
    and "digit_value (lower_hex (unat b mod 16)) = Some (unat b mod 16)"
    and "lower_hex (unat b div 16) \<noteq> 43"
    using digit_value_lower by blast+
  moreover have "16 * (unat b div 16) + unat b mod 16 = unat b" by simp
  ultimately show ?thesis by (simp add: from_str_radix16_def del: of_nat_add of_nat_mult)
qed

lemma length_sig64 [simp]: "length (sig64_serialize bs) = 2 * length bs"
  by (induction bs) (simp_all add: sig64_serialize_def)

lemma sig64_nth:
  "i < length bs \<Longrightarrow> sig64_serialize bs ! (i * 2) = lower_hex (unat (bs ! i) div 16) \<and>
     sig64_serialize bs ! (i * 2 + 1) = lower_hex (unat (bs ! i) mod 16)"
proof (induction bs arbitrary: i)
  case (Cons b bs)
  show ?case
  proof (cases i)
    case (Suc j)
    then show ?thesis using Cons.IH [of j] Cons.prems by (simp add: sig64_serialize_def)
  qed (simp add: sig64_serialize_def)
qed simp

lemma sig64_boundary: "i \<le> length bs \<Longrightarrow> char_boundary (sig64_serialize bs) (i * 2)"
  using sig64_nth [of i bs] digit_value_lower [of "unat (bs ! i) div 16"] unat_u8 [of "bs ! i"]
  by (cases "i = length bs") (auto simp: char_boundary_def)

lemma sig64_bytes_serialized:
  "i + n = length bs \<Longrightarrow> sig64_bytes (sig64_serialize bs) i n = Parsed (drop i bs)"
proof (induction n arbitrary: i)
  case (Suc n)
  then have i: "i < length bs" and "Suc i + n = length bs" by simp_all
  from Suc.IH [OF this(2)] have rest: "sig64_bytes (sig64_serialize bs) (Suc i) n = Parsed (drop (Suc i) bs)" .
  have "char_boundary (sig64_serialize bs) (i * 2)" and "char_boundary (sig64_serialize bs) (Suc i * 2)"
    using i by (intro sig64_boundary; simp)+
  moreover have "Suc i * 2 = i * 2 + 2" by simp
  ultimately show ?case
    using i sig64_nth [OF i] by (simp add: radix_lower rest Cons_nth_drop_Suc)
qed simp

section \<open>Properties\<close>

text \<open>
  C18: The handshake gives two honest machines one private duplex channel. Whoever dials,
  both sides complete; each learns the other's machine id and identity key; and each sends
  with the key and counter the other receives with.
\<close>

theorem handshake_agrees:
  assumes "crypto_ok C" and "id_machine_id a \<noteq> id_machine_id b"
  shows "\<exists>s t.
    complete C (begin_handshake C sa na a) (in_hello (begin_handshake C sb nb b)) True = Inr s \<and>
    complete C (begin_handshake C sb nb b) (in_hello (begin_handshake C sa na a)) False = Inr t \<and>
    ses_send s = ses_receive t \<and> ses_receive s = ses_send t \<and>
    peer_machine s = id_machine_id b \<and> peer_key s = public_key C b \<and>
    peer_machine t = id_machine_id a \<and> peer_key t = public_key C a"
  using assms by (rule handshake_both_ends)

theorem handshake_agrees_witness:
  "\<exists>s t.
    complete toy_crypto (begin_handshake toy_crypto [1] [2] (generate 1 0 [3]))
      (in_hello (begin_handshake toy_crypto [4] [5] (generate 2 0 [6]))) True = Inr s \<and>
    complete toy_crypto (begin_handshake toy_crypto [4] [5] (generate 2 0 [6]))
      (in_hello (begin_handshake toy_crypto [1] [2] (generate 1 0 [3]))) False = Inr t \<and>
    ses_send s = ses_receive t"
proof -
  have "id_machine_id (generate 1 0 [3]) \<noteq> id_machine_id (generate 2 0 [6])" by (simp add: generate_def)
  from handshake_agrees [OF toy_crypto_ok this] show ?thesis by blast
qed

text \<open>
  A completed handshake is with a verified peer. It completes only with a peer that
  speaks this protocol version, whose signature over its id, ephemeral key and nonce
  verifies under the identity key it presents, and that is not this machine itself; the
  session is labelled with exactly that id and key.
\<close>

theorem handshake_proves_identity:
  assumes "complete C self peer dialled = Inr s"
  shows "hl_protocol peer = PROTOCOL_VERSION \<and>
    verify C (peer_key s) (transcript (peer_machine s) (hl_ephemeral peer) (hl_nonce peer)) (hl_signature peer) \<and>
    peer_machine s \<noteq> hl_machine_id (in_hello self)"
  using complete_ok [OF assms] by (simp add: hello_verify_def)

text \<open>
  C19: What one end seals the other end opens. A stream of frames sealed in one direction,
  opened in the same order from the same key and counter, gives back every plaintext, and
  both ends stay in step; and no nonce is used twice under one key for the first \<open>2 ^ 64\<close>
  frames.
\<close>

theorem sealed_stream_opens:
  assumes "crypto_ok C" and "seal_all C ms dir = (dir', map Inr cs)" and "n \<le> 2 ^ 64"
  shows "open_all C cs dir = (dir', map Inr ms) \<and> distinct (used_nonces n dir)"
  using open_sealed [OF assms(1,2)] nonces_distinct [OF assms(3)] by blast

theorem sealed_stream_opens_witness:
  "\<exists>dir' cs. seal_all toy_crypto [[1], [2, 3]] (direction_new [9]) = (dir', map Inr cs) \<and>
     open_all toy_crypto cs (direction_new [9]) = (dir', map Inr [[1], [2, 3]])"
proof -
  let ?n = "\<lambda>k. replicate 4 0 @ be_bytes 8 (k :: u64)"
  have "seal_all toy_crypto [[1], [2, 3]] (direction_new [9]) =
      (\<lparr>cd_key = [9], cd_counter = 2\<rparr>, map Inr [?n 0 @ [1], ?n 1 @ [2, 3]])"
    by (simp add: seal_def next_nonce_def direction_new_def toy_crypto_def Let_def)
  with sealed_stream_opens [OF toy_crypto_ok this, of 0] show ?thesis by blast
qed

text \<open>
  A 64-byte signature survives its text form. Parsing the lower-case hexadecimal text
  gives the signature back, and a text of the wrong length is refused. But the parser slices
  the text before it knows that it is ASCII: a text of 128 bytes in which a two-byte
  character straddles an even position makes it panic, before the peer has proved anything.
\<close>

theorem signature_text_parses_or_panics:
  "(\<forall>bs. length bs = 64 \<longrightarrow> sig64_deserialize (sig64_serialize bs) = Parsed bs) \<and>
   (\<forall>text. length text \<noteq> 128 \<longrightarrow> sig64_deserialize text = Refused ''expected a 64-byte signature'') \<and>
   sig64_deserialize ([0x61, 0xC3, 0xA9] @ replicate 125 0x30) = Panic"
proof (intro conjI allI impI)
  show "sig64_deserialize (sig64_serialize bs) = Parsed bs" if "length bs = 64" for bs
    using that sig64_bytes_serialized [of 0 64 bs] by (simp add: sig64_deserialize_def)
  let ?text = "[0x61, 0xC3, 0xA9] @ replicate 125 0x30 :: bytes"
  have "\<not> char_boundary ?text 2" by (simp add: char_boundary_def)
  then have "sig64_bytes ?text 0 (Suc n) = Panic" for n by (simp add: numeral_2_eq_2)
  then have "sig64_bytes ?text 0 64 = Panic" by (metis numeral_eq_Suc)
  then show "sig64_deserialize ?text = Panic" by (simp add: sig64_deserialize_def)
qed (simp add: sig64_deserialize_def)

end
