(* ===== verification/Store.thy ===== *)
theory Store
  imports Identity
begin

text \<open>
  Local persistence (\<^verbatim>\<open>crates/is-core/src/store.rs\<close>) on a file system that can fail or lose
  power at any call.

  A disk maps paths to contents. Each primitive the program calls either succeeds or fails
  as the argument \<open>fault\<close> says; a failed or interrupted write leaves any prefix of what was
  being written, or nothing. Since every failure makes \<^verbatim>\<open>write_atomic\<close> return at once, the
  disk it leaves when call number \<open>n\<close> fails is the disk a power loss during that call leaves,
  so one theorem covers both. The JSON crate is a pair of functions per stored type: \<open>enc\<close>
  is \<^verbatim>\<open>to_vec_pretty\<close>, \<open>dec\<close> is \<^verbatim>\<open>from_slice\<close>. File permissions are not modelled.
\<close>

section \<open>Disks and faults\<close>

type_synonym disk = "string \<Rightarrow> bytes option"

datatype fs_call =
    FsCreate string | FsWrite string | FsSync string | FsCopy string string
  | FsRename string string | FsRead string | FsRemove string | FsCreateDir string

record fault =
  fails :: "fs_call \<Rightarrow> io_error_kind option"
  partial :: "fs_call \<Rightarrow> nat option"

definition no_fault :: fault where
  "no_fault = \<lparr>fails = (\<lambda>_. None), partial = (\<lambda>_. None)\<rparr>"

record 'a codec =
  enc :: "'a \<Rightarrow> bytes option"
  dec :: "bytes \<Rightarrow> 'a option"

text \<open>serde's promise for one value: what was written for it reads back as it.\<close>

definition reads_back :: "'a codec \<Rightarrow> 'a \<Rightarrow> bool" where
  "reads_back c v \<longleftrightarrow> (\<exists>b. enc c v = Some b \<and> dec c b = Some v)"

text \<open>Actions on the disk that can fail, and \<^verbatim>\<open>?\<close> between two of them.\<close>

type_synonym 'a fs = "disk \<Rightarrow> disk \<times> (core_error + 'a)"

definition fs_return :: "'a \<Rightarrow> 'a fs" where
  "fs_return x d = (d, Inr x)"

definition fs_fail :: "core_error \<Rightarrow> 'a fs" where
  "fs_fail e d = (d, Inl e)"

definition fs_bind :: "'a fs \<Rightarrow> ('a \<Rightarrow> 'b fs) \<Rightarrow> 'b fs" where
  "fs_bind m k d = (case m d of (d', Inl e) \<Rightarrow> (d', Inl e) | (d', Inr x) \<Rightarrow> k x d')"

section \<open>Primitives\<close>

text \<open>What is in a file whose write was cut short.\<close>

definition torn :: "fault \<Rightarrow> fs_call \<Rightarrow> string \<Rightarrow> bytes \<Rightarrow> disk \<Rightarrow> disk" where
  "torn F call p bs d = (case partial F call of None \<Rightarrow> d | Some n \<Rightarrow> d(p \<mapsto> take n bs))"

definition fs_create :: "fault \<Rightarrow> string \<Rightarrow> unit fs" where
  "fs_create F p d =
     (case fails F (FsCreate p) of
        Some k \<Rightarrow> (torn F (FsCreate p) p [] d, Inl (Io p k))
      | None \<Rightarrow> (d(p \<mapsto> []), Inr ()))"

definition fs_write_all :: "fault \<Rightarrow> string \<Rightarrow> bytes \<Rightarrow> unit fs" where
  "fs_write_all F p bs d =
     (case fails F (FsWrite p) of
        Some k \<Rightarrow> (torn F (FsWrite p) p bs d, Inl (Io p k))
      | None \<Rightarrow> (d(p \<mapsto> bs), Inr ()))"

definition fs_sync :: "fault \<Rightarrow> string \<Rightarrow> unit fs" where
  "fs_sync F p d =
     (case fails F (FsSync p) of Some k \<Rightarrow> (d, Inl (Io p k)) | None \<Rightarrow> (d, Inr ()))"

definition fs_copy :: "fault \<Rightarrow> string \<Rightarrow> string \<Rightarrow> unit fs" where
  "fs_copy F p q d =
     (let bs = (case d p of Some bs \<Rightarrow> bs | None \<Rightarrow> []) in
      case fails F (FsCopy p q) of
        Some k \<Rightarrow> (torn F (FsCopy p q) q bs d, Inl (Io q k))
      | None \<Rightarrow> (d(q \<mapsto> bs), Inr ()))"

definition fs_rename :: "fault \<Rightarrow> string \<Rightarrow> string \<Rightarrow> unit fs" where
  "fs_rename F p q d =
     (case fails F (FsRename p q) of
        Some k \<Rightarrow> (d, Inl (Io q k))
      | None \<Rightarrow> (d(q := d p, p := None), Inr ()))"

definition fs_remove :: "fault \<Rightarrow> string \<Rightarrow> disk \<Rightarrow> disk \<times> io_error_kind option" where
  "fs_remove F p d =
     (case fails F (FsRemove p) of
        Some k \<Rightarrow> (d, Some k)
      | None \<Rightarrow> if d p = None then (d, Some NotFound) else (d(p := None), None))"

section \<open>The store\<close>

record store = store_dir :: string

definition IDENTITY_FILE :: string where "IDENTITY_FILE = ''identity.json''"
definition WORKSPACE_FILE :: string where "WORKSPACE_FILE = ''workspace.json''"
definition HINTS_FILE :: string where "HINTS_FILE = ''peer-hints.json''"
definition PREFS_FILE :: string where "PREFS_FILE = ''local-prefs.json''"

record local_prefs = sharing :: bool

definition local_prefs_default :: local_prefs where
  "local_prefs_default = \<lparr>sharing = False\<rparr>"

record peer_hint =
  ph_addrs :: "socket_addr list"
  ph_hostname :: "string option"
  ph_last_seen_ms :: u64

type_synonym peer_hints = "(machine_id, peer_hint) btree_map"

record backup =
  bk_identity :: identity
  bk_workspace :: "workspace_doc option"

definition store_at :: "fault \<Rightarrow> string \<Rightarrow> core_error + store" where
  "store_at F dir =
     (case fails F (FsCreateDir dir) of
        Some k \<Rightarrow> Inl (Io dir k)
      | None \<Rightarrow> Inr \<lparr>store_dir = dir\<rparr>)"

text \<open>
  \<^verbatim>\<open>paths::config_dir\<close> and \<^verbatim>\<open>Store::open\<close>: the environment variable if it is set and not empty,
  otherwise what the crate \<^verbatim>\<open>directories\<close> answers.
\<close>

definition CONFIG_DIR_ENV :: string where "CONFIG_DIR_ENV = ''INPUTSHARE_CONFIG_DIR''"

definition config_dir :: "(string \<Rightarrow> string option) \<Rightarrow> string option \<Rightarrow> core_error + string" where
  "config_dir env project_dir =
     (case env CONFIG_DIR_ENV of
        Some dir \<Rightarrow> if dir \<noteq> [] then Inr dir else (case project_dir of Some p \<Rightarrow> Inr p | None \<Rightarrow> Inl NoConfigDir)
      | None \<Rightarrow> (case project_dir of Some p \<Rightarrow> Inr p | None \<Rightarrow> Inl NoConfigDir))"

definition store_open :: "fault \<Rightarrow> (string \<Rightarrow> string option) \<Rightarrow> string option \<Rightarrow> core_error + store" where
  "store_open F env project_dir =
     (case config_dir env project_dir of Inl e \<Rightarrow> Inl e | Inr dir \<Rightarrow> store_at F dir)"

definition file_path :: "store \<Rightarrow> string \<Rightarrow> string" where
  "file_path s name = store_dir s @ ''/'' @ name"

definition read_json :: "fault \<Rightarrow> 'a codec \<Rightarrow> string \<Rightarrow> disk \<Rightarrow> core_error + 'a option" where
  "read_json F c p d =
     (case (fails F (FsRead p), d p) of
        (Some NotFound, _) \<Rightarrow> Inr None
      | (Some k, _) \<Rightarrow> Inl (Io p k)
      | (None, None) \<Rightarrow> Inr None
      | (None, Some bs) \<Rightarrow> (case dec c bs of Some v \<Rightarrow> Inr (Some v) | None \<Rightarrow> Inl (ParseError p)))"

definition read_with_fallback ::
  "fault \<Rightarrow> 'a codec \<Rightarrow> store \<Rightarrow> string \<Rightarrow> disk \<Rightarrow> core_error + 'a option" where
  "read_with_fallback F c s name d =
     (case read_json F c (file_path s name) d of
        Inr v \<Rightarrow> Inr v
      | Inl primary \<Rightarrow>
          (case read_json F c (file_path s (name @ ''.bak'')) d of
             Inr (Some v) \<Rightarrow> Inr (Some v)
           | _ \<Rightarrow> Inl primary))"

definition write_atomic :: "fault \<Rightarrow> 'a codec \<Rightarrow> store \<Rightarrow> string \<Rightarrow> 'a \<Rightarrow> unit fs" where
  "write_atomic F c s name v =
     (let path = file_path s name; tmp = file_path s (name @ ''.tmp'');
          backup = file_path s (name @ ''.bak'')
      in case enc c v of
           None \<Rightarrow> fs_fail SerializeError
         | Some bs \<Rightarrow>
             fs_bind (fs_create F tmp) (\<lambda>_.
             fs_bind (fs_write_all F tmp bs) (\<lambda>_.
             fs_bind (fs_sync F tmp) (\<lambda>_.
             fs_bind (\<lambda>d. if d path \<noteq> None then fs_copy F path backup d else (d, Inr ())) (\<lambda>_.
             fs_rename F tmp path)))))"

definition load_or_create_identity ::
  "fault \<Rightarrow> identity codec \<Rightarrow> identity \<Rightarrow> store \<Rightarrow> identity fs" where
  "load_or_create_identity F c fresh s d =
     (case read_with_fallback F c s IDENTITY_FILE d of
        Inl e \<Rightarrow> (d, Inl e)
      | Inr (Some i) \<Rightarrow> (d, Inr i)
      | Inr None \<Rightarrow>
          fs_bind (write_atomic F c s IDENTITY_FILE fresh) (\<lambda>_. fs_return fresh) d)"

definition load_workspace ::
  "fault \<Rightarrow> workspace_doc codec \<Rightarrow> store \<Rightarrow> disk \<Rightarrow> core_error + workspace_doc option" where
  "load_workspace F c s d =
     (case read_with_fallback F c s WORKSPACE_FILE d of
        Inl e \<Rightarrow> Inl e
      | Inr None \<Rightarrow> Inr None
      | Inr (Some doc) \<Rightarrow>
          if SCHEMA_VERSION < schema_version doc
          then Inl (SchemaVersion (schema_version doc) SCHEMA_VERSION)
          else Inr (Some doc))"

definition save_workspace :: "fault \<Rightarrow> workspace_doc codec \<Rightarrow> store \<Rightarrow> workspace_doc \<Rightarrow> unit fs" where
  "save_workspace F c s doc = write_atomic F c s WORKSPACE_FILE doc"

fun remove_files :: "fault \<Rightarrow> string list \<Rightarrow> unit fs" where
  "remove_files F [] d = (d, Inr ())"
| "remove_files F (p # ps) d =
     (case fs_remove F p d of
        (d', None) \<Rightarrow> remove_files F ps d'
      | (d', Some NotFound) \<Rightarrow> remove_files F ps d'
      | (d', Some k) \<Rightarrow> (d', Inl (Io p k)))"

definition clear_workspace :: "fault \<Rightarrow> store \<Rightarrow> unit fs" where
  "clear_workspace F s =
     remove_files F [file_path s WORKSPACE_FILE, file_path s (WORKSPACE_FILE @ ''.bak''),
       file_path s (WORKSPACE_FILE @ ''.tmp'')]"

definition load_hints :: "fault \<Rightarrow> peer_hints codec \<Rightarrow> store \<Rightarrow> disk \<Rightarrow> core_error + peer_hints" where
  "load_hints F c s d =
     (case read_with_fallback F c s HINTS_FILE d of
        Inl e \<Rightarrow> Inl e
      | Inr (Some h) \<Rightarrow> Inr h
      | Inr None \<Rightarrow> Inr bt_empty)"

definition save_hints :: "fault \<Rightarrow> peer_hints codec \<Rightarrow> store \<Rightarrow> peer_hints \<Rightarrow> unit fs" where
  "save_hints F c s h = write_atomic F c s HINTS_FILE h"

definition load_prefs :: "fault \<Rightarrow> local_prefs codec \<Rightarrow> store \<Rightarrow> disk \<Rightarrow> local_prefs" where
  "load_prefs F c s d =
     (case read_with_fallback F c s PREFS_FILE d of
        Inr (Some p) \<Rightarrow> p
      | Inr None \<Rightarrow> local_prefs_default
      | Inl _ \<Rightarrow> local_prefs_default)"

definition save_prefs :: "fault \<Rightarrow> local_prefs codec \<Rightarrow> store \<Rightarrow> local_prefs \<Rightarrow> unit fs" where
  "save_prefs F c s p = write_atomic F c s PREFS_FILE p"

text \<open>\<^verbatim>\<open>fs::write\<close> creates the file and writes it.\<close>

definition export_backup ::
  "fault \<Rightarrow> identity codec \<Rightarrow> workspace_doc codec \<Rightarrow> backup codec \<Rightarrow> identity \<Rightarrow> store \<Rightarrow> string \<Rightarrow> unit fs" where
  "export_backup F ci cw cb fresh s path =
     fs_bind (load_or_create_identity F ci fresh s) (\<lambda>i.
     fs_bind (\<lambda>d. (d, load_workspace F cw s d)) (\<lambda>w.
     case enc cb \<lparr>bk_identity = i, bk_workspace = w\<rparr> of
       None \<Rightarrow> fs_fail SerializeError
     | Some bs \<Rightarrow> fs_bind (fs_create F path) (\<lambda>_. fs_write_all F path bs)))"

definition import_backup ::
  "fault \<Rightarrow> identity codec \<Rightarrow> workspace_doc codec \<Rightarrow> backup codec \<Rightarrow> store \<Rightarrow> string \<Rightarrow> identity fs" where
  "import_backup F ci cw cb s path =
     fs_bind (\<lambda>d. (d, read_json F cb path d)) (\<lambda>b.
     case b of
       None \<Rightarrow> fs_fail (Io path NotFound)
     | Some b \<Rightarrow>
         fs_bind (write_atomic F ci s IDENTITY_FILE (bk_identity b)) (\<lambda>_.
         fs_bind (case bk_workspace b of
             Some doc \<Rightarrow> write_atomic F cw s WORKSPACE_FILE doc
           | None \<Rightarrow> fs_return ()) (\<lambda>_.
         fs_return (bk_identity b))))"

section \<open>What an atomic write leaves\<close>

lemmas fs_defs = fs_bind_def fs_create_def fs_write_all_def fs_sync_def fs_copy_def fs_rename_def
  fs_return_def fs_fail_def torn_def

lemma file_path_inject [simp]: "file_path s n = file_path s m \<longleftrightarrow> n = m"
  by (simp add: file_path_def)

lemma write_atomic_path:
  assumes "write_atomic F c s name v d = (d', r)"
  shows "d' (file_path s name) =
    (if r = Inr () then enc c v else d (file_path s name)) \<and> (r = Inr () \<longrightarrow> enc c v \<noteq> None)"
  using assms
  by (auto simp: write_atomic_def Let_def fs_defs split: option.splits if_splits)

lemma write_atomic_frame:
  assumes "write_atomic F c s name v d = (d', r)"
    and "p \<noteq> file_path s name" and "p \<noteq> file_path s (name @ ''.tmp'')"
    and "p \<noteq> file_path s (name @ ''.bak'')"
  shows "d' p = d p"
  using assms
  by (auto simp: write_atomic_def Let_def fs_defs split: option.splits if_splits)

lemma write_atomic_no_fault:
  "enc c v = Some bs \<Longrightarrow> \<exists>d'. write_atomic no_fault c s name v d = (d', Inr ())"
  by (simp add: write_atomic_def Let_def fs_defs no_fault_def)

lemma read_json_ok:
  "fails F (FsRead p) = None \<Longrightarrow> d p = Some bs \<Longrightarrow> dec c bs = Some v \<Longrightarrow> read_json F c p d = Inr (Some v)"
  by (simp add: read_json_def)

lemma read_primary:
  "read_json F c (file_path s name) d = Inr v \<Longrightarrow> read_with_fallback F c s name d = Inr v"
  by (simp add: read_with_fallback_def)

lemma read_after_write:
  assumes "reads_back c v" and "write_atomic F c s name v d = (d', Inr ())"
  shows "read_with_fallback no_fault c s name d' = Inr (Some v)"
  using assms write_atomic_path [OF assms(2)]
  by (intro read_primary) (auto simp: reads_back_def read_json_def no_fault_def)

text \<open>Preferences and hints that were saved are the ones that are loaded; without a file, the defaults.\<close>

lemma saved_prefs_load:
  "reads_back c p \<Longrightarrow> save_prefs F c s p d = (d', Inr ()) \<Longrightarrow> load_prefs no_fault c s d' = p"
  by (simp add: save_prefs_def load_prefs_def read_after_write)

lemma saved_hints_load:
  "reads_back c h \<Longrightarrow> save_hints F c s h d = (d', Inr ()) \<Longrightarrow> load_hints no_fault c s d' = Inr h"
  by (simp add: save_hints_def load_hints_def read_after_write)

lemma hints_default: "d (file_path s HINTS_FILE) = None \<Longrightarrow> load_hints no_fault c s d = Inr bt_empty"
  by (simp add: load_hints_def read_with_fallback_def read_json_def no_fault_def)

lemma read_after_failed_write:
  assumes "read_json no_fault c (file_path s name) d = Inr x" and "write_atomic F c s name v d = (d', Inl e)"
  shows "read_with_fallback no_fault c s name d' = Inr x"
  using assms write_atomic_path [OF assms(2)]
  by (intro read_primary) (auto simp: read_json_def no_fault_def)

text \<open>Files with different names do not share a temporary file or a backup.\<close>

lemma other_file:
  assumes "write_atomic F c s name v d = (d', r)"
    and "other \<notin> {name, name @ ''.tmp'', name @ ''.bak''}"
  shows "d' (file_path s other) = d (file_path s other)"
  by (rule write_atomic_frame [OF assms(1)]) (use assms(2) in simp_all)

lemma store_names [simp]:
  "IDENTITY_FILE @ x \<noteq> WORKSPACE_FILE" "WORKSPACE_FILE @ x \<noteq> IDENTITY_FILE"
  "IDENTITY_FILE @ x \<noteq> WORKSPACE_FILE @ y" "WORKSPACE_FILE @ x \<noteq> IDENTITY_FILE @ y"
  "IDENTITY_FILE \<noteq> WORKSPACE_FILE @ y" "WORKSPACE_FILE \<noteq> IDENTITY_FILE @ y"
  "IDENTITY_FILE \<noteq> WORKSPACE_FILE" "WORKSPACE_FILE \<noteq> IDENTITY_FILE"
  by (simp_all add: IDENTITY_FILE_def WORKSPACE_FILE_def)

lemma read_json_same: "d' p = d p \<Longrightarrow> read_json F c p d' = read_json F c p d"
  by (simp add: read_json_def)

lemma read_other_file:
  assumes "write_atomic F c s name v d = (d', r)"
    and "other \<notin> {name, name @ ''.tmp'', name @ ''.bak''}"
    and "other @ ''.bak'' \<notin> {name, name @ ''.tmp'', name @ ''.bak''}"
  shows "read_with_fallback F' c' s other d' = read_with_fallback F' c' s other d"
  by (simp only: read_with_fallback_def read_json_same [where d' = d' and d = d, OF other_file [OF assms(1,2)]]
      read_json_same [where d' = d' and d = d, OF other_file [OF assms(1,3)]])

text \<open>\<^verbatim>\<open>load_or_create_identity\<close> on a machine that has an identity, and on one that has none.\<close>

lemma load_existing_identity:
  "read_with_fallback F c s IDENTITY_FILE d = Inr (Some i) \<Longrightarrow>
     load_or_create_identity F c new s d = (d, Inr i)"
  by (simp add: load_or_create_identity_def)

lemma create_identity:
  assumes "load_or_create_identity F c new s d = (d', Inr i)" and "reads_back c new"
    and "fails F = (\<lambda>_. None)"
  shows "load_or_create_identity F c new' s d' = (d', Inr i)"
proof (cases "read_with_fallback F c s IDENTITY_FILE d")
  case (Inl e)
  then show ?thesis using assms(1) by (simp add: load_or_create_identity_def)
next
  case (Inr x)
  show ?thesis
  proof (cases x)
    case (Some j)
    then show ?thesis using assms(1) Inr by (simp add: load_or_create_identity_def)
  next
    case None
    obtain r where w: "write_atomic F c s IDENTITY_FILE new d = (d', r)" and "r = Inr ()" and i: "i = new"
      using assms(1) Inr None
      by (auto simp: load_or_create_identity_def fs_bind_def fs_return_def split: prod.splits sum.splits)
    with write_atomic_path [OF w] assms(2,3) have "read_with_fallback F c s IDENTITY_FILE d' = Inr (Some new)"
      by (intro read_primary) (auto simp: reads_back_def read_json_def)
    then show ?thesis using i by (simp add: load_existing_identity)
  qed
qed

lemma remove_files_ok:
  "remove_files F ps d = (d', Inr ()) \<Longrightarrow> fails F = (\<lambda>_. None) \<Longrightarrow>
     d' = (\<lambda>p. if p \<in> set ps then None else d p)"
  by (induction ps arbitrary: d) (fastforce simp: fs_remove_def fun_eq_iff split: if_splits)+

lemma remove_files_total:
  "fails F = (\<lambda>_. None) \<Longrightarrow> \<exists>d'. remove_files F ps d = (d', Inr ())"
  by (induction ps arbitrary: d) (auto simp: fs_remove_def)

definition power_loss :: "fs_call \<Rightarrow> fault" where
  "power_loss call = \<lparr>fails = (\<lambda>c. if c = call then Some OtherIo else None), partial = (\<lambda>_. Some 0)\<rparr>"

lemma export_run:
  assumes "read_with_fallback no_fault ci s IDENTITY_FILE d = Inr (Some i)"
    and "load_workspace no_fault cw s d = Inr w"
    and "enc cb \<lparr>bk_identity = i, bk_workspace = w\<rparr> = Some bs"
  shows "export_backup no_fault ci cw cb new s path d = (d(path \<mapsto> bs), Inr ())"
  using assms(2,3)
  by (simp add: export_backup_def fs_bind_def load_existing_identity [OF assms(1)])
    (simp add: fs_create_def fs_write_all_def no_fault_def)

lemma import_run:
  assumes "d path = Some bs" and "dec cb bs = Some \<lparr>bk_identity = i, bk_workspace = w\<rparr>"
    and "reads_back ci i" and "\<And>doc. w = Some doc \<Longrightarrow> reads_back cw doc"
  obtains d' where "import_backup no_fault ci cw cb s path d = (d', Inr i)"
    and "read_with_fallback no_fault ci s IDENTITY_FILE d' = Inr (Some i)"
    and "read_with_fallback no_fault cw s WORKSPACE_FILE d' =
      (case w of Some doc \<Rightarrow> Inr (Some doc) | None \<Rightarrow> read_with_fallback no_fault cw s WORKSPACE_FILE d)"
proof -
  obtain b where "enc ci i = Some b" using assms(3) by (auto simp: reads_back_def)
  from write_atomic_no_fault [OF this]
  obtain d1 where w1: "write_atomic no_fault ci s IDENTITY_FILE i d = (d1, Inr ())" by blast
  note id1 = read_after_write [OF assms(3) w1]
  have keep: "read_with_fallback no_fault cw s WORKSPACE_FILE d1 = read_with_fallback no_fault cw s WORKSPACE_FILE d"
    by (rule read_other_file [OF w1]) simp_all
  have read: "read_json no_fault cb path d = Inr (Some \<lparr>bk_identity = i, bk_workspace = w\<rparr>)"
    using assms(1,2) by (simp add: read_json_def no_fault_def)
  show thesis
  proof (cases w)
    case None
    show thesis
      by (rule that [of d1]) (use read w1 id1 keep None in \<open>simp_all add: import_backup_def fs_bind_def fs_return_def\<close>)
  next
    case (Some doc)
    obtain b2 where "enc cw doc = Some b2" using assms(4) [OF Some] by (auto simp: reads_back_def)
    from write_atomic_no_fault [OF this]
    obtain d2 where w2: "write_atomic no_fault cw s WORKSPACE_FILE doc d1 = (d2, Inr ())" by blast
    note doc2 = read_after_write [OF assms(4) [OF Some] w2]
    have "read_with_fallback no_fault ci s IDENTITY_FILE d2 = read_with_fallback no_fault ci s IDENTITY_FILE d1"
      by (rule read_other_file [OF w2]) simp_all
    then show thesis
      by (intro that [of d2]) (use read w1 w2 id1 doc2 Some in \<open>simp_all add: import_backup_def fs_bind_def fs_return_def\<close>)
  qed
qed

lemma interrupted_rename:
  assumes "d (file_path s name) = Some junk" and "dec c junk = None" and "enc c v = Some bs"
    and "F = power_loss (FsRename (file_path s (name @ ''.tmp'')) (file_path s name))"
  shows "read_with_fallback no_fault c s name (fst (write_atomic F c s name v d)) =
    Inl (ParseError (file_path s name))"
  using assms(1-3)
  by (simp add: assms(4) write_atomic_def Let_def fs_defs power_loss_def read_with_fallback_def
      read_json_def no_fault_def)

section \<open>Sample codecs and disks\<close>

definition sample_store :: store where "sample_store = \<lparr>store_dir = ''c''\<rparr>"

definition sample_doc_codec :: "workspace_doc codec" where
  "sample_doc_codec =
     \<lparr>enc = (\<lambda>d. if d = sample_doc then Some [1] else if d = sample_pair then Some [2] else None),
      dec = (\<lambda>b. if b = [1] then Some sample_doc else if b = [2] then Some sample_pair else None)\<rparr>"

definition sample_identity :: identity where "sample_identity = generate 1 0 [7]"

definition sample_identity_codec :: "identity codec" where
  "sample_identity_codec =
     \<lparr>enc = (\<lambda>i. if i = sample_identity then Some [3] else if i = generate 9 0 [8] then Some [4] else None),
      dec = (\<lambda>b. if b = [3] then Some sample_identity else if b = [4] then Some (generate 9 0 [8]) else None)\<rparr>"

definition sample_backup_codec :: "backup codec" where
  "sample_backup_codec =
     \<lparr>enc = (\<lambda>b. if b = \<lparr>bk_identity = sample_identity, bk_workspace = Some sample_doc\<rparr> then Some [5]
        else if b = \<lparr>bk_identity = sample_identity, bk_workspace = None\<rparr> then Some [6] else None),
      dec = (\<lambda>b. if b = [5] then Some \<lparr>bk_identity = sample_identity, bk_workspace = Some sample_doc\<rparr>
        else if b = [6] then Some \<lparr>bk_identity = sample_identity, bk_workspace = None\<rparr> else None)\<rparr>"

lemma sample_docs_differ: "sample_doc \<noteq> sample_pair"
proof
  assume "sample_doc = sample_pair"
  then have "doc_lamport sample_doc = doc_lamport sample_pair" by simp
  moreover have "doc_lamport sample_doc \<noteq> doc_lamport sample_pair" by code_simp
  ultimately show False by simp
qed

lemma sample_reads_back:
  "reads_back sample_doc_codec sample_doc" "reads_back sample_doc_codec sample_pair"
  using sample_docs_differ by (auto simp: reads_back_def sample_doc_codec_def)

lemma sample_identity_reads_back: "reads_back sample_identity_codec sample_identity"
  by (simp add: reads_back_def sample_identity_codec_def)

section \<open>Properties\<close>





text \<open>
  A workspace document that was saved is the one that is loaded; a document written by a
  newer build is refused, with both versions, instead of being read and losing fields; and
  a machine that gives its workspace up finds none afterwards, not even the backup copy,
  while it keeps its identity.
\<close>

theorem workspace_file_lifecycle:
  assumes "reads_back c doc" and "save_workspace no_fault c s doc d = (d', r)"
    and "clear_workspace no_fault s d' = (d'', q)"
  shows "r = Inr () \<and> q = Inr () \<and>
    load_workspace no_fault c s d' =
      (if SCHEMA_VERSION < schema_version doc
       then Inl (SchemaVersion (schema_version doc) SCHEMA_VERSION) else Inr (Some doc)) \<and>
    load_workspace no_fault c s d'' = Inr None \<and>
    read_with_fallback no_fault ci s IDENTITY_FILE d'' = read_with_fallback no_fault ci s IDENTITY_FILE d'"
proof -
  have none: "fails no_fault = (\<lambda>_. None)" by (simp add: no_fault_def)
  obtain b where "enc c doc = Some b" using assms(1) by (auto simp: reads_back_def)
  from write_atomic_no_fault [OF this, of s WORKSPACE_FILE d] assms(2)
  have r: "r = Inr ()" by (auto simp: save_workspace_def)
  have q: "q = Inr ()"
    using remove_files_total [OF none] assms(3) unfolding clear_workspace_def by (metis Pair_inject)
  have "read_with_fallback no_fault c s WORKSPACE_FILE d' = Inr (Some doc)"
    using read_after_write [OF assms(1)] assms(2) r by (simp add: save_workspace_def)
  then have load: "load_workspace no_fault c s d' =
      (if SCHEMA_VERSION < schema_version doc
       then Inl (SchemaVersion (schema_version doc) SCHEMA_VERSION) else Inr (Some doc))"
    by (simp add: load_workspace_def)
  have d'': "d'' = (\<lambda>p. if p \<in> {file_path s WORKSPACE_FILE, file_path s (WORKSPACE_FILE @ ''.bak''),
      file_path s (WORKSPACE_FILE @ ''.tmp'')} then None else d' p)"
    using remove_files_ok [OF _ none] assms(3) q unfolding clear_workspace_def by fastforce
  then have "load_workspace no_fault c s d'' = Inr None"
    by (simp add: load_workspace_def read_with_fallback_def read_json_def no_fault_def)
  moreover have "d'' (file_path s IDENTITY_FILE) = d' (file_path s IDENTITY_FILE)"
    and "d'' (file_path s (IDENTITY_FILE @ ''.bak'')) = d' (file_path s (IDENTITY_FILE @ ''.bak''))"
    by (simp_all add: d'')
  then have "read_with_fallback no_fault ci s IDENTITY_FILE d'' = read_with_fallback no_fault ci s IDENTITY_FILE d'"
    by (simp only: read_with_fallback_def read_json_same [where d' = d'' and d = d'])
  ultimately show ?thesis using r q load by simp
qed

text \<open>
  A backup restores the machine. Exporting from a machine with an identity and importing
  the file on any machine gives that identity back, from then on, and the workspace that was
  exported. If the exported machine had no workspace, the import leaves the workspace of the
  importing machine where it was, under the restored identity.
\<close>

theorem backup_restores_machine:
  assumes "read_with_fallback no_fault ci s IDENTITY_FILE d = Inr (Some i)"
    and "load_workspace no_fault cw s d = Inr w"
    and "reads_back ci i" and "\<forall>doc. w = Some doc \<longrightarrow> reads_back cw doc"
    and "reads_back cb \<lparr>bk_identity = i, bk_workspace = w\<rparr>"
    and "export_backup no_fault ci cw cb new s path d = (d1, r)" and "e path = d1 path"
  shows "r = Inr () \<and>
    (\<exists>e'. import_backup no_fault ci cw cb t path e = (e', Inr i) \<and>
       load_or_create_identity no_fault ci new' t e' = (e', Inr i) \<and>
       load_workspace no_fault cw t e' =
         (case w of Some doc \<Rightarrow> Inr (Some doc) | None \<Rightarrow> load_workspace no_fault cw t e))"
proof -
  obtain bs where bs: "enc cb \<lparr>bk_identity = i, bk_workspace = w\<rparr> = Some bs"
    and dec: "dec cb bs = Some \<lparr>bk_identity = i, bk_workspace = w\<rparr>"
    using assms(5) by (auto simp: reads_back_def)
  have run: "d1 = d(path \<mapsto> bs)" "r = Inr ()"
    using export_run [OF assms(1,2) bs, of new path] assms(6) by simp_all
  then have "e path = Some bs" using assms(7) by simp
  then obtain e' where "import_backup no_fault ci cw cb t path e = (e', Inr i)"
    and "read_with_fallback no_fault ci t IDENTITY_FILE e' = Inr (Some i)"
    and "read_with_fallback no_fault cw t WORKSPACE_FILE e' =
      (case w of Some doc \<Rightarrow> Inr (Some doc) | None \<Rightarrow> read_with_fallback no_fault cw t WORKSPACE_FILE e)"
    using assms(3,4) dec by (elim import_run) auto
  moreover have "\<not> SCHEMA_VERSION < schema_version doc" if "w = Some doc" for doc
    using assms(2) that by (auto simp: load_workspace_def split: sum.splits option.splits if_splits)
  ultimately show ?thesis
    using run(2) by (cases w) (auto simp: load_existing_identity load_workspace_def)
qed

text \<open>
  The backup copy is not always good. When the primary file has become unreadable, loads
  recover from the \<^verbatim>\<open>.bak\<close> copy; but the next save first copies the unreadable primary over
  that copy, so if power is lost before the new file is renamed into place both are
  unreadable and the load that used to recover fails.
\<close>

theorem save_overwrites_recovery_copy:
  assumes "d (file_path s name) = Some junk" and "dec c junk = None"
    and "d (file_path s (name @ ''.bak'')) = Some good" and "dec c good = Some old"
    and "enc c v = Some bs"
    and "F = power_loss (FsRename (file_path s (name @ ''.tmp'')) (file_path s name))"
  shows "read_with_fallback no_fault c s name d = Inr (Some old) \<and>
    read_with_fallback no_fault c s name (fst (write_atomic F c s name v d)) =
      Inl (ParseError (file_path s name))"
  using interrupted_rename [where d = d, OF assms(1,2,5,6)] assms(1-4)
  by (simp add: read_with_fallback_def read_json_def no_fault_def)

end
