(* ===== verification/Session.thy ===== *)
theory Session
  imports Peers Handshake Store
begin

text \<open>
  One connection to one peer (\<^verbatim>\<open>crates/is-net/src/session.rs\<close>), from handshake to teardown,
  against the interface it has on the rest of the program: the trait \<^verbatim>\<open>Workspace\<close> of
  \<^verbatim>\<open>crates/is-net/src/service.rs\<close>, here a record of operations on an abstract state, with
  the laws the session relies on in the locale \<open>workspace_host\<close>.

  A session waits for the network while other tasks change the workspace. Each frame it
  receives therefore comes with the change the others made while it waited, and the outcome
  of the timed read: a frame, a time-out or an error. Writing succeeds \<open>io_room\<close> more times.
  JSON and the texts of errors are the record \<open>wire_format\<close>.
\<close>

section \<open>The interface to the workspace\<close>

record 's workspace_trait =
  ws_snapshot :: "'s \<Rightarrow> workspace_doc option"
  ws_merge :: "workspace_doc \<Rightarrow> 's \<Rightarrow> 's \<times> (core_error + bool)"
  ws_apply :: "workspace_update \<Rightarrow> 's \<Rightarrow> 's \<times> (core_error + bool)"
  ws_display_name :: "'s \<Rightarrow> string"
  ws_on_cursor_owner :: "machine_id \<Rightarrow> machine_id \<Rightarrow> 's \<Rightarrow> 's"
  ws_on_input :: "machine_id \<Rightarrow> input_event list \<Rightarrow> 's \<Rightarrow> 's"
  ws_pending_invitations :: "'s \<Rightarrow> machine_id list"
  ws_authorize :: "machine_id \<Rightarrow> pub_key \<Rightarrow> 's \<Rightarrow> bool"

record wire_format =
  hello_codec :: "hello codec"
  message_codec :: "message codec"
  error_text :: "net_error \<Rightarrow> string"
  core_error_text :: "core_error \<Rightarrow> string"

section \<open>A connection\<close>

record 's session_io =
  io_state :: 's
  io_in :: "(('s \<Rightarrow> 's) \<times> (net_error + bytes)) list"
  io_out :: bytes
  io_room :: nat
  io_actor_alive :: bool
  io_inbox :: "session_outcome list"

definition tell :: "session_outcome \<Rightarrow> 's session_io \<Rightarrow> 's session_io" where
  "tell outcome io = (if io_actor_alive io then io\<lparr>io_inbox := io_inbox io @ [outcome]\<rparr> else io)"

definition put_frame :: "bytes \<Rightarrow> 's session_io \<Rightarrow> 's session_io \<times> (net_error + unit)" where
  "put_frame bytes io =
     (case write_frame bytes of
        Inl e \<Rightarrow> (io, Inl e)
      | Inr out \<Rightarrow>
          if io_room io = 0 then (io, Inl (NetIo OtherIo))
          else (io\<lparr>io_out := io_out io @ out, io_room := io_room io - 1\<rparr>, Inr ()))"

definition next_frame :: "'s session_io \<Rightarrow> 's session_io \<times> (net_error + bytes)" where
  "next_frame io =
     (case io_in io of
        [] \<Rightarrow> (io, Inl UnexpectedEof)
      | (others, r) # rest \<Rightarrow> (io\<lparr>io_state := others (io_state io), io_in := rest\<rparr>, r))"

definition send_message ::
  "crypto \<Rightarrow> wire_format \<Rightarrow> message \<Rightarrow> channel_direction \<Rightarrow> 's session_io
     \<Rightarrow> (channel_direction \<times> 's session_io) \<times> (net_error + unit)" where
  "send_message C J msg sealer io =
     (case enc (message_codec J) msg of
        None \<Rightarrow> ((sealer, io), Inl Json)
      | Some plaintext \<Rightarrow>
          (case seal C plaintext sealer of
             (sealer', Inl e) \<Rightarrow> ((sealer', io), Inl e)
           | (sealer', Inr sealed) \<Rightarrow> (let (io', r) = put_frame sealed io in ((sealer', io'), r))))"

definition recv_message ::
  "crypto \<Rightarrow> wire_format \<Rightarrow> channel_direction \<Rightarrow> 's session_io
     \<Rightarrow> (channel_direction \<times> 's session_io) \<times> (net_error + message)" where
  "recv_message C J opener io =
     (case next_frame io of
        (io', Inl e) \<Rightarrow> ((opener, io'), Inl e)
      | (io', Inr sealed) \<Rightarrow>
          (case open_frame C sealed opener of
             (opener', Inl e) \<Rightarrow> ((opener', io'), Inl e)
           | (opener', Inr plaintext) \<Rightarrow>
               ((opener', io'), case dec (message_codec J) plaintext of None \<Rightarrow> Inl Json | Some m \<Rightarrow> Inr m)))"

section \<open>The session\<close>

text \<open>Handshake: whoever is at the other end proves an identity, and the expected one if dialled.\<close>

definition handshake_phase ::
  "crypto \<Rightarrow> wire_format \<Rightarrow> bytes \<Rightarrow> bytes \<Rightarrow> identity \<Rightarrow> bool \<Rightarrow> machine_id option
     \<Rightarrow> 's session_io \<Rightarrow> 's session_io \<times> (net_error + session)" where
  "handshake_phase C J secret nonce self dialled expect io =
     (let initiation = begin_handshake C secret nonce self in
      case enc (hello_codec J) (in_hello initiation) of
        None \<Rightarrow> (io, Inl Json)
      | Some bytes \<Rightarrow>
      (case put_frame bytes io of
        (io, Inl e) \<Rightarrow> (io, Inl e)
      | (io, Inr _) \<Rightarrow>
      (case next_frame io of
        (io, Inl e) \<Rightarrow> (io, Inl e)
      | (io, Inr bytes) \<Rightarrow>
      (case dec (hello_codec J) bytes of
        None \<Rightarrow> (io, Inl Json)
      | Some peer_hello \<Rightarrow>
      (case complete C initiation peer_hello dialled of
        Inl e \<Rightarrow> (io, Inl e)
      | Inr ses \<Rightarrow>
          if expect \<noteq> None \<and> expect \<noteq> Some (peer_machine ses)
          then (io, Inl (HandshakeError ''connected to a different machine''))
          else (io, Inr ses))))))"

text \<open>
  Authorisation and identification. \<open>Inr None\<close> is the early \<^verbatim>\<open>return Ok(())\<close> of a refused peer
  or of one in another workspace.
\<close>

definition goodbye :: message where
  "goodbye = Goodbye ''our configurations are separate; one of us will adopt the other''"

definition identify_phase ::
  "'s workspace_trait \<Rightarrow> crypto \<Rightarrow> wire_format \<Rightarrow> session \<Rightarrow> socket_addr \<Rightarrow> 's session_io
     \<Rightarrow> 's session_io \<times> (net_error + (channel_direction \<times> channel_direction \<times> string) option)" where
  "identify_phase W C J ses addr io =
     (if \<not> ws_authorize W (peer_machine ses) (peer_key ses) (io_state io)
      then (tell (Rejected (peer_machine ses) (peer_key ses) addr) io, Inr None)
      else
        let (sealer, opener) = split_session ses; ours = ws_snapshot W (io_state io);
            hello = Identify (ws_display_name W (io_state io)) (map_option doc_workspace_id ours)
              (case ours of Some d \<Rightarrow> of_nat (length (machines_present d)) | None \<Rightarrow> 0)
        in case send_message C J hello sealer io of
             ((sealer, io), Inl e) \<Rightarrow> (io, Inl e)
           | ((sealer, io), Inr _) \<Rightarrow>
           (case recv_message C J opener io of
             ((opener, io), Inl e) \<Rightarrow> (io, Inl e)
           | ((opener, io), Inr (Identify name theirs n)) \<Rightarrow>
               (case (map_option doc_workspace_id ours, theirs) of
                  (Some mine, Some other) \<Rightarrow>
                    if mine \<noteq> other
                    then (snd (fst (send_message C J goodbye sealer
                           (tell (DifferentWorkspaces (peer_machine ses) name (peer_key ses) other n) io))), Inr None)
                    else (io, Inr (Some (sealer, opener, name)))
                | _ \<Rightarrow> (io, Inr (Some (sealer, opener, name))))
           | ((opener, io), Inr _) \<Rightarrow> (io, Inl (HandshakeError ''peer did not identify itself''))))"

text \<open>One message of the read loop; a text is the reason to stop.\<close>

fun handle_message ::
  "'s workspace_trait \<Rightarrow> wire_format \<Rightarrow> machine_id \<Rightarrow> message \<Rightarrow> 's session_io \<Rightarrow> 's session_io \<times> string option" where
  "handle_message W J peer (DocFull d) io =
     (case ws_merge W d (io_state io) of
        (s, Inr True) \<Rightarrow> (tell WorkspaceChanged (io\<lparr>io_state := s\<rparr>), None)
      | (s, Inr False) \<Rightarrow> (io\<lparr>io_state := s\<rparr>, None)
      | (s, Inl e) \<Rightarrow> (io\<lparr>io_state := s\<rparr>, Some (''incompatible workspace: '' @ core_error_text J e)))"
| "handle_message W J peer (Update u) io =
     (case ws_apply W u (io_state io) of
        (s, Inr True) \<Rightarrow> (tell WorkspaceChanged (io\<lparr>io_state := s\<rparr>), None)
      | (s, Inr False) \<Rightarrow> (io\<lparr>io_state := s\<rparr>, None)
      | (s, Inl e) \<Rightarrow> (io\<lparr>io_state := s\<rparr>, Some (''rejected update: '' @ core_error_text J e)))"
| "handle_message W J peer (Input events) io =
     (io\<lparr>io_state := ws_on_input W peer events (io_state io)\<rparr>, None)"
| "handle_message W J peer (CursorOwner m) io =
     (io\<lparr>io_state := ws_on_cursor_owner W peer m (io_state io)\<rparr>, None)"
| "handle_message W J peer (Ping n) io = (io, None)"
| "handle_message W J peer (Pong n) io = (io, None)"
| "handle_message W J peer (Identify name theirs n) io = (io, None)"
| "handle_message W J peer (Goodbye reason) io = (io, Some reason)"

lemma tell_fields [simp]:
  "io_in (tell outcome io) = io_in io" "io_state (tell outcome io) = io_state io"
  "io_out (tell outcome io) = io_out io" "io_actor_alive (tell outcome io) = io_actor_alive io"
  "io_room (tell outcome io) = io_room io"
  "io_inbox (tell outcome io) = io_inbox io @ (if io_actor_alive io then [outcome] else [])"
  by (simp_all add: tell_def)

lemma handle_message_in [simp]: "io_in (fst (handle_message W J peer m io)) = io_in io"
  by (cases m) (auto split: prod.split sum.split bool.split)

lemma handle_message_keeps_in: "handle_message W J peer m io = (io', r) \<Longrightarrow> io_in io' = io_in io"
  using handle_message_in [of W J peer m io] by simp

lemma next_frame_shorter: "next_frame io = (io', Inr b) \<Longrightarrow> length (io_in io') < length (io_in io)"
  by (auto simp: next_frame_def split: list.splits prod.splits)

lemma recv_message_shorter:
  "recv_message C J opener io = ((opener', io'), Inr m) \<Longrightarrow> length (io_in io') < length (io_in io)"
  by (auto simp: recv_message_def dest: next_frame_shorter split: prod.splits sum.splits option.splits)

lemma received_shorter:
  "((opener', io'), Inr m) = recv_message C J opener io \<Longrightarrow> (io'', r) = handle_message W J peer m io' \<Longrightarrow>
     length (io_in io'') < length (io_in io)"
  using recv_message_shorter [of C J opener io opener' io' m] handle_message_in [of W J peer m io']
  by (metis fst_conv)

function read_loop ::
  "'s workspace_trait \<Rightarrow> crypto \<Rightarrow> wire_format \<Rightarrow> machine_id \<Rightarrow> channel_direction \<Rightarrow> 's session_io
     \<Rightarrow> 's session_io \<times> string" where
  "read_loop W C J peer opener io =
     (case recv_message C J opener io of
        ((opener', io'), Inl e) \<Rightarrow>
          (io', if e = Timeout then ''peer went quiet'' else error_text J e)
      | ((opener', io'), Inr m) \<Rightarrow>
          (case handle_message W J peer m io' of
             (io'', Some reason) \<Rightarrow> (io'', reason)
           | (io'', None) \<Rightarrow> read_loop W C J peer opener' io''))"
  by pat_completeness auto
termination
  by (relation "measure (\<lambda>(W, C, J, peer, opener, io). length (io_in io))")
    (auto dest: received_shorter)

declare read_loop.simps [simp del]

definition session_run ::
  "'s workspace_trait \<Rightarrow> crypto \<Rightarrow> wire_format \<Rightarrow> bytes \<Rightarrow> bytes \<Rightarrow> identity \<Rightarrow> socket_addr \<Rightarrow> bool
     \<Rightarrow> machine_id option \<Rightarrow> outbound \<Rightarrow> 's session_io \<Rightarrow> 's session_io \<times> (net_error + unit)" where
  "session_run W C J secret nonce self addr dialled expect out io =
     (case handshake_phase C J secret nonce self dialled expect io of
        (io, Inl e) \<Rightarrow> (io, Inl e)
      | (io, Inr ses) \<Rightarrow>
     (case identify_phase W C J ses addr io of
        (io, Inl e) \<Rightarrow> (io, Inl e)
      | (io, Inr None) \<Rightarrow> (io, Inr ())
      | (io, Inr (Some (sealer, opener, name))) \<Rightarrow>
          if \<not> io_actor_alive io then (io, Inl ClosedError)
          else
            let io = tell (Established (peer_machine ses) name out) io in
            (case (case ws_snapshot W (io_state io) of
                     None \<Rightarrow> ((sealer, io), Inr ())
                   | Some d \<Rightarrow> send_message C J (DocFull d) sealer io) of
               ((sealer, io), Inl e) \<Rightarrow> (io, Inl e)
             | ((sealer, io), Inr _) \<Rightarrow>
                 let (io, reason) = read_loop W C J (peer_machine ses) opener io
                 in (tell (Closed (peer_machine ses) reason) io, Inr ()))))"

text \<open>The two ways a session starts. The connection of a dial may not open.\<close>

definition spawn_dial ::
  "'s workspace_trait \<Rightarrow> crypto \<Rightarrow> wire_format \<Rightarrow> bytes \<Rightarrow> bytes \<Rightarrow> identity \<Rightarrow> machine_id \<Rightarrow> socket_addr
     \<Rightarrow> outbound \<Rightarrow> net_error option \<Rightarrow> 's session_io \<Rightarrow> 's session_io" where
  "spawn_dial W C J secret nonce self expect addr out dial io =
     (case (case dial of
              Some e \<Rightarrow> (io, Inl e)
            | None \<Rightarrow> session_run W C J secret nonce self addr True (Some expect) out io) of
        (io, Inl e) \<Rightarrow> tell (Closed expect (error_text J e)) io
      | (io, Inr _) \<Rightarrow> io)"

definition spawn_accepted ::
  "'s workspace_trait \<Rightarrow> crypto \<Rightarrow> wire_format \<Rightarrow> bytes \<Rightarrow> bytes \<Rightarrow> identity \<Rightarrow> socket_addr
     \<Rightarrow> outbound \<Rightarrow> 's session_io \<Rightarrow> 's session_io" where
  "spawn_accepted W C J secret nonce self addr out io =
     fst (session_run W C J secret nonce self addr False None out io)"

section \<open>What each phase does to the connection\<close>

lemma put_frame_fields:
  "put_frame b io = (io', r) \<Longrightarrow> io_in io' = io_in io \<and> io_state io' = io_state io \<and>
     io_inbox io' = io_inbox io \<and> io_actor_alive io' = io_actor_alive io \<and>
     (\<exists>out. io_out io' = io_out io @ out \<and> (out = [] \<or> write_frame b = Inr out))"
  by (auto simp: put_frame_def split: sum.splits if_splits)

lemma next_frame_fields:
  "next_frame io = (io', r) \<Longrightarrow> io_out io' = io_out io \<and> io_inbox io' = io_inbox io \<and>
     io_actor_alive io' = io_actor_alive io \<and> io_room io' = io_room io"
  by (auto simp: next_frame_def split: list.splits)

lemma send_message_fields:
  "send_message C J msg sealer io = ((sealer', io'), r) \<Longrightarrow> io_in io' = io_in io \<and>
     io_state io' = io_state io \<and> io_inbox io' = io_inbox io \<and> io_actor_alive io' = io_actor_alive io"
  by (auto simp: send_message_def dest: put_frame_fields split: option.splits prod.splits sum.splits)

lemma sent_fields [simp]:
  "io_inbox (snd (fst (send_message C J msg sealer io))) = io_inbox io"
  "io_actor_alive (snd (fst (send_message C J msg sealer io))) = io_actor_alive io"
  "io_state (snd (fst (send_message C J msg sealer io))) = io_state io"
  "io_in (snd (fst (send_message C J msg sealer io))) = io_in io"
  using send_message_fields by (metis prod.collapse)+

lemma recv_message_fields:
  "recv_message C J opener io = ((opener', io'), r) \<Longrightarrow> io_out io' = io_out io \<and>
     io_inbox io' = io_inbox io \<and> io_actor_alive io' = io_actor_alive io"
  by (auto simp: recv_message_def dest: next_frame_fields split: option.splits prod.splits sum.splits)

lemma handle_message_inbox:
  "handle_message W J peer m io = (io', r) \<Longrightarrow> io_actor_alive io' = io_actor_alive io \<and>
     (io_inbox io' = io_inbox io \<or> io_inbox io' = io_inbox io @ [WorkspaceChanged])"
  by (cases m) (auto split: prod.splits sum.splits bool.splits)

lemma read_loop_inbox:
  "read_loop W C J peer opener io = (io', reason) \<Longrightarrow> io_actor_alive io' = io_actor_alive io \<and>
     (\<exists>k. io_inbox io' = io_inbox io @ replicate k WorkspaceChanged)"
proof (induction W C J peer opener io arbitrary: io' reason rule: read_loop.induct)
  case (1 W C J peer opener io)
  obtain opener1 io1 r where recv: "recv_message C J opener io = ((opener1, io1), r)"
    by (metis prod.collapse)
  note f = recv_message_fields [OF recv]
  show ?case
  proof (cases r)
    case (Inl e)
    then have "io' = io1" using 1(2) recv by (simp add: read_loop.simps [of W C J peer opener io])
    then show ?thesis using f by (auto intro: exI [of _ 0])
  next
    case (Inr m)
    obtain io2 stop where handled: "handle_message W J peer m io1 = (io2, stop)" by fastforce
    note g = handle_message_inbox [OF handled]
    have step: "\<exists>j. io_inbox io2 = io_inbox io @ replicate j WorkspaceChanged"
      using f g by (auto intro: exI [of _ 0] exI [of _ 1])
    show ?thesis
    proof (cases stop)
      case None
      then have "read_loop W C J peer opener1 io2 = (io', reason)"
        using 1(2) recv Inr handled by (simp add: read_loop.simps [of W C J peer opener io])
      from 1(1) [OF recv [symmetric] refl Inr handled [symmetric] None this] step f g
      show ?thesis by (auto simp: replicate_add [symmetric])
    next
      case (Some why)
      then have "io' = io2" using 1(2) recv Inr handled by (simp add: read_loop.simps [of W C J peer opener io])
      then show ?thesis using step f g by auto
    qed
  qed
qed

text \<open>A completed handshake read one frame, and in it a hello that proves its sender's identity.\<close>

definition proves :: "crypto \<Rightarrow> wire_format \<Rightarrow> bytes \<Rightarrow> session \<Rightarrow> bool" where
  "proves C J b ses \<longleftrightarrow> (\<exists>h. dec (hello_codec J) b = Some h \<and> hello_verify C h \<and>
     peer_machine ses = hl_machine_id h \<and> peer_key ses = hl_identity_key h)"

lemma complete_peer:
  "complete C init h dialled = Inr ses \<Longrightarrow>
     hello_verify C h \<and> peer_machine ses = hl_machine_id h \<and> peer_key ses = hl_identity_key h"
  by (auto simp: complete_def Let_def split: if_splits option.splits)

lemma handshake_phase_cases:
  assumes "handshake_phase C J secret nonce self dialled expect io = (io', r)"
  shows "io_inbox io' = io_inbox io \<and> io_actor_alive io' = io_actor_alive io \<and>
    (\<exists>out. io_out io' = io_out io @ out \<and>
      (out = [] \<or> (\<exists>b. enc (hello_codec J) (in_hello (begin_handshake C secret nonce self)) = Some b \<and>
        write_frame b = Inr out)))"
    and "r = Inl e \<Longrightarrow> io_state io' = io_state io \<or> (\<exists>x xs. io_in io = x # xs \<and> io_state io' = fst x (io_state io))"
    and "r = Inr ses \<Longrightarrow> \<exists>others b rest. io_in io = (others, Inr b) # rest \<and> io_in io' = rest \<and>
      io_state io' = others (io_state io) \<and> proves C J b ses \<and>
      (expect = None \<or> expect = Some (peer_machine ses))"
  using assms
  by (auto simp: handshake_phase_def Let_def next_frame_def proves_def
      dest!: complete_peer dest: put_frame_fields
      split: option.splits prod.splits sum.splits if_splits list.splits)

lemma identify_phase_refused:
  assumes "io_actor_alive io" and "\<not> ws_authorize W (peer_machine ses) (peer_key ses) (io_state io)"
  shows "identify_phase W C J ses addr io =
    (io\<lparr>io_inbox := io_inbox io @ [Rejected (peer_machine ses) (peer_key ses) addr]\<rparr>, Inr None)"
  using assms by (simp add: identify_phase_def tell_def)

lemma identify_phase_inbox:
  assumes "io_actor_alive io" and "identify_phase W C J ses addr io = (io', r)"
  shows "io_actor_alive io' \<and>
    (case r of
       Inr None \<Rightarrow> (\<exists>outcome. io_inbox io' = io_inbox io @ [outcome] \<and>
         (outcome = Rejected (peer_machine ses) (peer_key ses) addr \<or>
          (\<exists>name theirs n. outcome = DifferentWorkspaces (peer_machine ses) name (peer_key ses) theirs n)))
     | _ \<Rightarrow> io_inbox io' = io_inbox io)"
proof (cases "ws_authorize W (peer_machine ses) (peer_key ses) (io_state io)")
  case False
  then show ?thesis using assms by (auto simp: identify_phase_refused)
next
  case True
  obtain sealer opener where sp: "split_session ses = (sealer, opener)" by fastforce
  let ?ours = "ws_snapshot W (io_state io)"
  let ?hello = "Identify (ws_display_name W (io_state io)) (map_option doc_workspace_id ?ours)
      (case ?ours of Some d \<Rightarrow> of_nat (length (machines_present d)) | None \<Rightarrow> 0)"
  obtain sealer1 io1 r1 where send: "send_message C J ?hello sealer io = ((sealer1, io1), r1)"
    by (metis prod.collapse)
  obtain opener2 io2 r2 where recv: "recv_message C J opener io1 = ((opener2, io2), r2)"
    by (metis prod.collapse)
  note f = send_message_fields [OF send] recv_message_fields [OF recv]
  show ?thesis
    using assms True f
    by (cases r1; cases r2)
      (auto simp: identify_phase_def Let_def sp send recv split: message.splits option.splits if_splits)
qed

text \<open>What a session reports.\<close>

definition turned_away :: "machine_id \<Rightarrow> session_outcome \<Rightarrow> bool" where
  "turned_away i outcome \<longleftrightarrow> (\<exists>key addr. outcome = Rejected i key addr) \<or>
     (\<exists>name key theirs n. outcome = DifferentWorkspaces i name key theirs n)"

datatype report = Nothing | TurnedAway | Ran | Vanished

fun reports :: "machine_id \<Rightarrow> outbound \<Rightarrow> report \<Rightarrow> session_outcome list \<Rightarrow> bool" where
  "reports i out Nothing new = (new = [])"
| "reports i out TurnedAway new = (\<exists>outcome. new = [outcome] \<and> turned_away i outcome)"
| "reports i out Ran new = (\<exists>name k reason.
     new = Established i name out # replicate k WorkspaceChanged @ [Closed i reason])"
| "reports i out Vanished new = (\<exists>name. new = [Established i name out])"

lemma session_run_reports:
  assumes "io_actor_alive io" and "session_run W C J secret nonce self addr dialled expect out io = (io', r)"
  shows "io_actor_alive io' \<and> (\<exists>i rep new. io_inbox io' = io_inbox io @ new \<and> reports i out rep new \<and>
    (rep \<noteq> Nothing \<longrightarrow> expect \<in> {None, Some i}) \<and>
    (rep = Nothing \<or> rep = Vanished \<longleftrightarrow> (\<exists>e. r = Inl e)))"
proof -
  obtain io1 r1 where hs: "handshake_phase C J secret nonce self dialled expect io = (io1, r1)" by fastforce
  note f = handshake_phase_cases [OF hs]
  have alive1: "io_actor_alive io1" and in1: "io_inbox io1 = io_inbox io" using f(1) assms(1) by simp_all
  show ?thesis
  proof (cases r1)
    case (Inl e)
    then have "io' = io1" "r = Inl e" using assms(2) hs by (simp_all add: session_run_def)
    then show ?thesis using alive1 in1 by (auto intro!: exI [of _ Nothing])
  next
    case (Inr ses)
    have expect: "expect \<in> {None, Some (peer_machine ses)}" using f(3) Inr by auto
    obtain io2 r2 where idp: "identify_phase W C J ses addr io1 = (io2, r2)" by fastforce
    note g = identify_phase_inbox [OF alive1 idp]
    show ?thesis
    proof (cases "\<exists>sealer opener name. r2 = Inr (Some (sealer, opener, name))")
      case False
      then have io': "io' = io2" and r: "case r2 of Inl e \<Rightarrow> r = Inl e | Inr _ \<Rightarrow> r2 = Inr None \<and> r = Inr ()"
        using assms(2) hs Inr idp by (auto simp: session_run_def split: sum.splits option.splits)
      show ?thesis
      proof (cases r2)
        case (Inl e)
        then show ?thesis using g r io' in1 by (auto intro!: exI [of _ Nothing])
      next
        case (Inr x)
        then have "reports (peer_machine ses) out TurnedAway (drop (length (io_inbox io)) (io_inbox io'))
            \<and> io_inbox io' = io_inbox io @ drop (length (io_inbox io)) (io_inbox io')"
          using g r io' in1 by (auto simp: turned_away_def)
        then show ?thesis using g r io' Inr expect by (intro conjI exI [of _ "peer_machine ses"] exI [of _ TurnedAway]) auto
      qed
    next
      case True
      then obtain sealer opener name where r2: "r2 = Inr (Some (sealer, opener, name))" by blast
      let ?io3 = "tell (Established (peer_machine ses) name out) io2"
      let ?sync = "case ws_snapshot W (io_state ?io3) of None \<Rightarrow> ((sealer, ?io3), Inr ())
        | Some d \<Rightarrow> send_message C J (DocFull d) sealer ?io3"
      obtain sealer4 io4 r4 where sync: "?sync = ((sealer4, io4), r4)" by (metis prod.collapse)
      have in4: "io_inbox io4 = io_inbox io @ [Established (peer_machine ses) name out]" "io_actor_alive io4"
        using sync g r2 in1 by (auto split: option.splits dest: send_message_fields)
      obtain io5 reason where loop: "read_loop W C J (peer_machine ses) opener io4 = (io5, reason)" by fastforce
      note h = read_loop_inbox [OF loop]
      have run: "(io', r) = (case r4 of Inl e \<Rightarrow> (io4, Inl e)
          | Inr _ \<Rightarrow> (tell (Closed (peer_machine ses) reason) io5, Inr ()))"
        using assms(2) hs Inr idp r2 sync loop g
        by (cases r4) (auto simp: session_run_def Let_def)
      show ?thesis
      proof (cases r4)
        case (Inl e)
        then show ?thesis
          using run in4 expect by (intro conjI exI [of _ "peer_machine ses"] exI [of _ Vanished]) auto
      next
        case r4: (Inr u)
        obtain k where "io_inbox io5 = io_inbox io @ Established (peer_machine ses) name out # replicate k WorkspaceChanged"
          using h in4 by auto
        then show ?thesis
          using run r4 h in4 expect
          by (intro conjI exI [of _ "peer_machine ses"] exI [of _ Ran]) auto
      qed
    qed
  qed
qed

section \<open>What the workspace promises, and what a session keeps\<close>

text \<open>
  The contract of the trait: its operations keep an invariant of the host's state, for the
  documents \<open>good\<close> describes (a decoded \<^verbatim>\<open>BTreeMap\<close> is in key order); an operation that fails
  changes nothing.
\<close>

definition decodes_only :: "(workspace_doc \<Rightarrow> bool) \<Rightarrow> wire_format \<Rightarrow> bool" where
  "decodes_only good J \<longleftrightarrow> (\<forall>b d. dec (message_codec J) b = Some (DocFull d) \<longrightarrow> good d)"

locale workspace_host =
  fixes W :: "'s workspace_trait" and inv :: "'s \<Rightarrow> bool" and good :: "workspace_doc \<Rightarrow> bool"
  assumes merge_keeps: "inv s \<Longrightarrow> good d \<Longrightarrow> inv (fst (ws_merge W d s))"
    and apply_keeps: "inv s \<Longrightarrow> inv (fst (ws_apply W u s))"
    and input_keeps: "inv s \<Longrightarrow> inv (ws_on_input W i events s)"
    and owner_keeps: "inv s \<Longrightarrow> inv (ws_on_cursor_owner W i m s)"
    and failed_merge: "ws_merge W d s = (s', Inl e) \<Longrightarrow> s' = s"
    and failed_apply: "ws_apply W u s = (s', Inl e) \<Longrightarrow> s' = s"
begin

lemma handle_keeps:
  assumes "inv (io_state io)" and "\<And>d. m = DocFull d \<Longrightarrow> good d"
  shows "inv (io_state (fst (handle_message W J peer m io)))"
proof (cases m)
  case (DocFull d)
  with assms merge_keeps [of "io_state io" d] show ?thesis
    by (auto split: prod.splits sum.splits bool.splits)
next
  case (Update u)
  with assms apply_keeps [of "io_state io" u] show ?thesis
    by (auto split: prod.splits sum.splits bool.splits)
qed (use assms input_keeps owner_keeps in simp_all)

lemma stop_changes_nothing:
  "handle_message W J peer m io = (io', Some reason) \<Longrightarrow> io_state io' = io_state io"
  by (cases m) (auto split: prod.splits sum.splits bool.splits dest: failed_merge failed_apply)

lemma recv_keeps:
  assumes "inv (io_state io)" and "\<forall>(others, _) \<in> set (io_in io). \<forall>s. inv s \<longrightarrow> inv (others s)"
    and "recv_message C J opener io = ((opener', io'), r)"
  shows "inv (io_state io') \<and> set (io_in io') \<subseteq> set (io_in io) \<and>
    (decodes_only good J \<longrightarrow> (\<forall>d. r = Inr (DocFull d) \<longrightarrow> good d))"
  using assms
  by (auto simp: recv_message_def next_frame_def decodes_only_def
      split: list.splits prod.splits sum.splits option.splits)

lemma loop_keeps:
  "decodes_only good J \<Longrightarrow> inv (io_state io) \<Longrightarrow>
     \<forall>(others, _) \<in> set (io_in io). \<forall>s. inv s \<longrightarrow> inv (others s) \<Longrightarrow>
     inv (io_state (fst (read_loop W C J peer opener io)))"
proof (induction "length (io_in io)" arbitrary: opener io rule: less_induct)
  case less
  obtain opener1 io1 r where recv: "recv_message C J opener io = ((opener1, io1), r)"
    by (metis prod.collapse)
  note f = recv_keeps [OF less.prems(2,3) recv]
  show ?case
  proof (cases r)
    case (Inl e)
    then show ?thesis using f recv by (simp add: read_loop.simps [of W C J peer opener io])
  next
    case (Inr m)
    obtain io2 stop where handled: "handle_message W J peer m io1 = (io2, stop)" by fastforce
    have inv2: "inv (io_state io2)"
      using handle_keeps [of io1 m J peer] f handled Inr less.prems(1) by simp
    have in2: "io_in io2 = io_in io1" and shorter: "length (io_in io2) < length (io_in io)"
      using handle_message_keeps_in [OF handled] recv_message_shorter [of C J opener io] recv Inr by auto
    have "\<forall>(others, _) \<in> set (io_in io2). \<forall>s. inv s \<longrightarrow> inv (others s)"
      using f less.prems(3) unfolding in2 by blast
    from less.hyps [OF shorter less.prems(1) inv2 this]
    have "inv (io_state (fst (read_loop W C J peer opener1 io2)))" .
    then show ?thesis
      using recv Inr handled inv2 by (cases stop) (simp_all add: read_loop.simps [of W C J peer opener io])
  qed
qed

text \<open>From the handshake to the end, whatever the other tasks and the peer do.\<close>

lemma handshake_keeps:
  assumes "inv (io_state io)" and "\<forall>(others, _) \<in> set (io_in io). \<forall>s. inv s \<longrightarrow> inv (others s)"
    and "handshake_phase C J secret nonce self dialled expect io = (io', r)"
  shows "inv (io_state io') \<and> (\<forall>ses. r = Inr ses \<longrightarrow> set (io_in io') \<subseteq> set (io_in io))"
proof (cases r)
  case (Inl e)
  with handshake_phase_cases(2) [OF assms(3)] assms(1,2) show ?thesis by fastforce
next
  case (Inr ses)
  from handshake_phase_cases(3) [OF assms(3) this] assms(1,2) show ?thesis by auto
qed

lemma identify_keeps:
  assumes "inv (io_state io)" and "\<forall>(others, _) \<in> set (io_in io). \<forall>s. inv s \<longrightarrow> inv (others s)"
    and "identify_phase W C J ses addr io = (io', r)"
  shows "inv (io_state io') \<and> set (io_in io') \<subseteq> set (io_in io)"
proof (cases "ws_authorize W (peer_machine ses) (peer_key ses) (io_state io)")
  case False
  then show ?thesis using assms by (auto simp: identify_phase_def)
next
  case True
  obtain sealer opener where sp: "split_session ses = (sealer, opener)" by fastforce
  let ?ours = "ws_snapshot W (io_state io)"
  let ?hello = "Identify (ws_display_name W (io_state io)) (map_option doc_workspace_id ?ours)
      (case ?ours of Some d \<Rightarrow> of_nat (length (machines_present d)) | None \<Rightarrow> 0)"
  obtain sealer1 io1 r1 where send: "send_message C J ?hello sealer io = ((sealer1, io1), r1)"
    by (metis prod.collapse)
  note f = send_message_fields [OF send]
  obtain opener2 io2 r2 where recv: "recv_message C J opener io1 = ((opener2, io2), r2)"
    by (metis prod.collapse)
  have g: "inv (io_state io2) \<and> set (io_in io2) \<subseteq> set (io_in io)"
    using recv_keeps [OF _ _ recv] f assms(1,2) by simp
  show ?thesis
    using assms(1,3) True f g
    by (cases r1; cases r2)
      (auto simp: identify_phase_def Let_def sp send recv split: message.splits option.splits if_splits)
qed

lemma session_keeps:
  assumes "inv (io_state io)" and "\<forall>(others, _) \<in> set (io_in io). \<forall>s. inv s \<longrightarrow> inv (others s)"
    and "decodes_only good J"
  shows "inv (io_state (fst (session_run W C J secret nonce self addr dialled expect out io)))"
proof -
  obtain io1 r1 where hs: "handshake_phase C J secret nonce self dialled expect io = (io1, r1)" by fastforce
  note f = handshake_keeps [OF assms(1,2) hs]
  show ?thesis
  proof (cases r1)
    case (Inl e)
    then show ?thesis using f hs by (simp add: session_run_def)
  next
    case (Inr ses)
    obtain io2 r2 where idp: "identify_phase W C J ses addr io1 = (io2, r2)" by fastforce
    have g: "inv (io_state io2) \<and> set (io_in io2) \<subseteq> set (io_in io)"
      using identify_keeps [OF _ _ idp] f Inr assms(2) by blast
    have loop: "inv (io_state (fst (read_loop W C J peer opener io3)))"
      if "io_state io3 = io_state io2" and "io_in io3 = io_in io2" for io3 :: "'s session_io" and opener peer
      using that g assms(2,3) by (intro loop_keeps) auto
    show ?thesis
      using hs idp Inr g loop
      by (auto simp: session_run_def Let_def split_beta dest: send_message_fields
          split: sum.splits option.splits prod.split_asm)
  qed
qed

end

section \<open>Concrete sessions\<close>

text \<open>The trait with its default methods, over a document: enough for a run.\<close>

definition default_workspace :: "workspace_doc option workspace_trait" where
  "default_workspace = \<lparr>ws_snapshot = (\<lambda>s. s),
     ws_merge = (\<lambda>d s. case s of
         Some mine \<Rightarrow> (case merge_doc mine d of Inl e \<Rightarrow> (s, Inl e) | Inr (d', c) \<Rightarrow> (Some d', Inr c))
       | None \<Rightarrow> (Some d, Inr True)),
     ws_apply = (\<lambda>u s. case s of
         Some mine \<Rightarrow> (case apply_update u mine of Inl e \<Rightarrow> (s, Inl e) | Inr (d', c) \<Rightarrow> (Some d', Inr c))
       | None \<Rightarrow> (s, Inr False)),
     ws_display_name = (\<lambda>_. ''pc''), ws_on_cursor_owner = (\<lambda>_ _ s. s), ws_on_input = (\<lambda>_ _ s. s),
     ws_pending_invitations = (\<lambda>_. []), ws_authorize = (\<lambda>i key s. authorize_default s i key)\<rparr>"

definition sample_peer :: identity where "sample_peer = generate 2 0 [6]"

definition sample_desk :: workspace_doc where
  "sample_desk = fst (upsert_machine 5 1
     ((sample_machine 2 1920)\<lparr>mr_public_key := public_key toy_crypto sample_peer\<rparr>) sample_doc)"

definition sample_format :: wire_format where
  "sample_format = \<lparr>
     hello_codec = \<lparr>enc = (\<lambda>_. Some [0]), dec = (\<lambda>b. if b = [1]
       then Some (in_hello (begin_handshake toy_crypto [4] [5] sample_peer)) else None)\<rparr>,
     message_codec = \<lparr>enc = (\<lambda>_. Some [2]), dec = (\<lambda>b. if b = [2] then Some (Identify ''b'' None 0)
       else None)\<rparr>,
     error_text = (\<lambda>_. ''error''), core_error_text = (\<lambda>_. ''refused'')\<rparr>"

text \<open>The peer has said hello and identified itself; \<open>room\<close> writes succeed.\<close>

definition sample_io :: "workspace_doc \<Rightarrow> nat \<Rightarrow> workspace_doc option session_io" where
  "sample_io d room = \<lparr>io_state = Some d, io_in = [(id, Inr [1]), (id, Inr (replicate 12 0 @ [2]))],
     io_out = [], io_room = room, io_actor_alive = True, io_inbox = []\<rparr>"

definition sample_address :: socket_addr where
  "sample_address = \<lparr>sa_ip = V4 0xC0A80002, sa_port = 47452\<rparr>"

definition sample_run ::
  "bool \<Rightarrow> machine_id option \<Rightarrow> outbound \<Rightarrow> workspace_doc option session_io \<Rightarrow> workspace_doc option session_io \<times> (net_error + unit)" where
  "sample_run = session_run default_workspace toy_crypto sample_format [1] [2] (generate 1 0 [3]) sample_address"

lemma sample_write: "length b \<le> 1000 \<Longrightarrow> write_frame b = Inr (be_bytes 4 (of_nat (length b) :: u32) @ b)"
  by (simp add: write_frame_def MAX_FRAME_def)

lemma sample_handshake:
  "\<exists>ses. handshake_phase toy_crypto sample_format [1] [2] (generate 1 0 [3]) False None (sample_io d (Suc n)) =
      ((sample_io d n)\<lparr>io_in := [(id, Inr (replicate 12 0 @ [2]))], io_out := be_bytes 4 (1 :: u32) @ [0]\<rparr>, Inr ses) \<and>
    peer_machine ses = 2 \<and> peer_key ses = public_key toy_crypto sample_peer \<and> cd_counter (ses_receive ses) = 0"
proof -
  have "id_machine_id sample_peer \<noteq> id_machine_id (generate 1 0 [3])" by (simp add: sample_peer_def generate_def)
  from handshake_both_ends [OF toy_crypto_ok this, of "[4]" "[5]" "[1]" "[2]"]
  obtain ses where ses: "complete toy_crypto (begin_handshake toy_crypto [1] [2] (generate 1 0 [3]))
      (in_hello (begin_handshake toy_crypto [4] [5] sample_peer)) False = Inr ses"
    and "peer_machine ses = 2" "peer_key ses = public_key toy_crypto sample_peer"
    by (auto simp: sample_peer_def generate_def)
  moreover have "cd_counter (ses_receive ses) = 0" using complete_ok [OF ses] by simp
  ultimately show ?thesis
    by (simp add: handshake_phase_def Let_def sample_format_def put_frame_def sample_write sample_io_def next_frame_def)
qed

lemma sample_vanishes:
  "\<exists>io' e. sample_run False None 7 (sample_io sample_desk 2) = (io', Inl e) \<and>
     io_inbox io' = [Established 2 ''b'' 7]"
proof -
  obtain ses where hs: "handshake_phase toy_crypto sample_format [1] [2] (generate 1 0 [3]) False None (sample_io sample_desk 2) =
      ((sample_io sample_desk 1)\<lparr>io_in := [(id, Inr (replicate 12 0 @ [2]))], io_out := be_bytes 4 (1 :: u32) @ [0]\<rparr>, Inr ses)"
    and ses: "peer_machine ses = 2" "peer_key ses = public_key toy_crypto sample_peer" "cd_counter (ses_receive ses) = 0"
    using sample_handshake [of sample_desk 1] by (auto simp: numeral_2_eq_2)
  have "map_option mr_public_key (machine 2 sample_desk) = Some (public_key toy_crypto sample_peer)"
    by code_simp
  then have auth: "authorize_default (Some sample_desk) 2 (public_key toy_crypto sample_peer)"
    by (auto simp: authorize_default_def)
  have "be_bytes 8 (0 :: u64) = replicate 8 0" by code_simp
  then have nonce: "replicate 4 0 @ be_bytes 8 (0 :: u64) = replicate 12 0"
    by (simp add: replicate_add [symmetric])
  have toy: "aead_seal toy_crypto k n m = Some (n @ m)"
    "aead_open toy_crypto k n c = (if take (length n) c = n then Some (drop (length n) c) else None)" for k n m c
    by (simp_all add: toy_crypto_def)
  show ?thesis
    unfolding sample_run_def session_run_def hs
    by (simp add: identify_phase_def Let_def ses auth split_session_def sample_io_def default_workspace_def
        send_message_def recv_message_def seal_def open_frame_def next_nonce_def toy sample_format_def
        put_frame_def sample_write next_frame_def nonce)
qed

section \<open>Properties\<close>

text \<open>
  C6: Nobody reaches the workspace before being let in. Unless the one frame read proves the
  identity of a machine (and, for a dial, of the machine that was dialled) that the
  workspace authorises at that moment with that key, the session runs no operation of the
  workspace, writes nothing but its own hello, and reports nothing but the refusal: no
  name, no document and no update go either way.
\<close>

theorem workspace_reached_only_when_authorised:
  assumes "session_run W C J secret nonce self addr dialled expect out io = (io', r)"
    and "io_actor_alive io"
    and "\<And>others b rest ses. io_in io = (others, Inr b) # rest \<Longrightarrow> proves C J b ses \<Longrightarrow>
      expect = None \<or> expect = Some (peer_machine ses) \<Longrightarrow>
      \<not> ws_authorize W (peer_machine ses) (peer_key ses) (others (io_state io))"
  shows "(io_state io' = io_state io \<or> (\<exists>x xs. io_in io = x # xs \<and> io_state io' = fst x (io_state io))) \<and>
    (\<exists>sent. io_out io' = io_out io @ sent \<and> (sent = [] \<or>
      (\<exists>b. enc (hello_codec J) (in_hello (begin_handshake C secret nonce self)) = Some b \<and>
        write_frame b = Inr sent))) \<and>
    (io_inbox io' = io_inbox io \<or> (\<exists>i key. io_inbox io' = io_inbox io @ [Rejected i key addr]))"
proof -
  obtain io1 r1 where hs: "handshake_phase C J secret nonce self dialled expect io = (io1, r1)" by fastforce
  note f = handshake_phase_cases [OF hs]
  show ?thesis
  proof (cases r1)
    case (Inl e)
    then have "io' = io1" using assms(1) hs by (simp add: session_run_def)
    then show ?thesis using f(1) f(2) [OF Inl] by simp
  next
    case (Inr ses)
    from f(3) [OF Inr] obtain others b rest where first: "io_in io = (others, Inr b) # rest"
      "io_state io1 = others (io_state io)" "proves C J b ses"
      "expect = None \<or> expect = Some (peer_machine ses)" by blast
    from assms(3) [OF first(1,3,4)] f(1) assms(2) first(2)
    have "identify_phase W C J ses addr io1 =
        (io1\<lparr>io_inbox := io_inbox io1 @ [Rejected (peer_machine ses) (peer_key ses) addr]\<rparr>, Inr None)"
      by (intro identify_phase_refused) simp_all
    then have "io' = io1\<lparr>io_inbox := io_inbox io1 @ [Rejected (peer_machine ses) (peer_key ses) addr]\<rparr>"
      using assms(1) hs Inr by (simp add: session_run_def)
    then show ?thesis using f(1) first(1,2) by simp
  qed
qed

theorem workspace_reached_only_when_authorised_witness:
  "io_state (fst (sample_run False None 7 (sample_io sample_pair 5))) = Some sample_pair"
proof -
  have "map_option mr_public_key (machine 2 sample_pair) = Some (PubKey [])"
    and "key_bytes (public_key toy_crypto sample_peer) \<noteq> []"
    by code_simp+
  moreover from this(2) have "public_key toy_crypto sample_peer \<noteq> PubKey []" by (metis pub_key.sel)
  ultimately have "\<not> authorize_default (Some sample_pair) 2 (public_key toy_crypto sample_peer)"
    by (auto simp: authorize_default_def)
  moreover have "peer_machine ses = 2 \<and> peer_key ses = public_key toy_crypto sample_peer"
    if "proves toy_crypto sample_format b ses" for b ses
    using that
    by (auto simp: proves_def sample_format_def begin_handshake_def Let_def sample_peer_def generate_def
        split: if_splits)
  ultimately show ?thesis
    using workspace_reached_only_when_authorised [of default_workspace toy_crypto sample_format "[1]" "[2]"
        "generate 1 0 [3]" sample_address False None 7 "sample_io sample_pair 5"]
    by (fastforce simp: sample_run_def sample_io_def default_workspace_def prod_eq_iff)
qed

text \<open>
  C25: A dial always comes to an end the actor hears of. It reports that the machine it was
  meant for refused or was refused, that it runs another workspace, or that the connection
  closed, in every case last and exactly once; a session that was up reports first that it
  is up, then only changes of the workspace.
\<close>

theorem dial_always_reports:
  assumes "io_actor_alive io"
  shows "\<exists>new. io_inbox (spawn_dial W C J secret nonce self i addr out dial io) = io_inbox io @ new \<and>
    ((\<exists>reason. new = [Closed i reason]) \<or> (\<exists>outcome. new = [outcome] \<and> turned_away i outcome) \<or>
     (\<exists>name k reason. new = Established i name out # replicate k WorkspaceChanged @ [Closed i reason]))"
proof (cases dial)
  case (Some e)
  then show ?thesis using assms by (simp add: spawn_dial_def)
next
  case None
  obtain io' r where run: "session_run W C J secret nonce self addr True (Some i) out io = (io', r)" by fastforce
  from session_run_reports [OF assms run] obtain j rep new where alive: "io_actor_alive io'"
    and new: "io_inbox io' = io_inbox io @ new" "reports j out rep new"
    and j: "rep \<noteq> Nothing \<longrightarrow> j = i" and r: "rep = Nothing \<or> rep = Vanished \<longleftrightarrow> (\<exists>e. r = Inl e)"
    by auto
  show ?thesis
  proof (cases r)
    case (Inl e)
    then have "spawn_dial W C J secret nonce self i addr out dial io = tell (Closed i (error_text J e)) io'"
      using None run by (simp add: spawn_dial_def)
    moreover have "new = [] \<or> (\<exists>name. new = [Established i name out])"
      using Inl r new j by (cases rep) auto
    ultimately show ?thesis using new alive by (auto intro: exI [of _ "0 :: nat"])
  next
    case (Inr u)
    then have "spawn_dial W C J secret nonce self i addr out dial io = io'"
      using None run by (simp add: spawn_dial_def)
    then show ?thesis using Inr r new j by (cases rep) auto
  qed
qed

theorem dial_always_reports_witness:
  "\<exists>new. io_inbox (spawn_dial default_workspace toy_crypto sample_format [1] [2] (generate 1 0 [3]) 2
      sample_address 7 (Some Timeout) (sample_io sample_desk 2)) = new \<and> new \<noteq> []"
proof -
  have "io_actor_alive (sample_io sample_desk 2)" by (simp add: sample_io_def)
  from dial_always_reports [OF this] show ?thesis by fastforce
qed

text \<open>
  An accepted session can vanish while it is up. If it reported that it is established
  and then fails to send its document (the connection is lost, or the document is larger
  than a frame), it ends with no report. The actor then holds the peer as online, whatever
  messages follow that are not reports about it: it is shown as reachable and is never
  dialled, though nothing reads its queue.
\<close>

theorem vanished_session_stays_online:
  assumes "session_run W C J secret nonce self addr False None out io = (io', Inl e)"
    and "io_actor_alive io" and "io_inbox io' \<noteq> io_inbox io"
  shows "\<exists>i name. io_inbox (spawn_accepted W C J secret nonce self addr out io) =
      io_inbox io @ [Established i name out] \<and>
    (\<forall>a mail. actor_inv a \<longrightarrow> new_channels ((t, auth, Session (Established i name out)) # mail) a \<longrightarrow>
      (\<forall>(_, _, msg) \<in> set mail. quiet i msg) \<longrightarrow>
      in_status Online i (actor_run ((t, auth, Session (Established i name out)) # mail) a) \<and>
      dials_of i (actor_run ((t, auth, Session (Established i name out)) # mail) a) = dials_of i a)"
proof -
  from session_run_reports [OF assms(2,1)] assms(3) obtain i name
    where new: "io_inbox io' = io_inbox io @ [Established i name out]"
    by (metis append_Nil2 reports.simps(1,4) sum.sel(1) sum.inject(1))
  have "in_status Online i (actor_run mail (on_session t (Established i name out) a)) \<and>
      dials_of i (actor_run mail (on_session t (Established i name out) a)) = dials_of i a"
    if a: "actor_inv a" "new_channels ((t, auth, Session (Established i name out)) # mail) a"
      "\<forall>(_, _, msg) \<in> set mail. quiet i msg" for a mail
  proof -
    let ?b = "on_session t (Established i name out) a"
    have "actor_inv ?b" using a(1,2) by (intro on_session_inv) auto
    moreover have "in_status Online i ?b" "dials_of i ?b = dials_of i a"
      using actor_invD(1) [OF a(1)] by (auto simp: in_status_def emit_def bt_get_entry dials_of_def split: option.split)
    ultimately show ?thesis using quiet_run [of Online ?b mail i] a(2,3) by simp
  qed
  then show ?thesis using assms(1) new by (intro exI [of _ i] exI [of _ name]) (simp add: spawn_accepted_def)
qed

end
