(* ===== verification/Sharing.thy ===== *)
theory Sharing
  imports Layout Capture
begin

text \<open>
  Routing captured input between machines (\<^verbatim>\<open>crates/is-agent/src/sharing.rs\<close>).

  The router is a state with one transition per branch of the loop in \<^verbatim>\<open>run\<close>. What it asks of
  the rest of the program is recorded in \<open>effects\<close>, in order; whether local input is being
  swallowed (\<^verbatim>\<open>Capture::set_suppressing\<close>) is the field \<open>swallowing\<close>. The world is an argument:
  the document, who is online, and how the desktop's pointer answers to being placed.
  Differences of coordinates are \<^verbatim>\<open>i32\<close> and wrap in the release build.
\<close>

section \<open>State\<close>

datatype source = Local | Remote

datatype effect =
    Suppress bool
  | NoteOwner "machine_id option"
  | AnnounceOwner machine_id
  | SendTo machine_id "input_event list"
  | Inject input_event
  | PlaceCursor i32 i32
  | RemoteSink bool

record router =
  local_machine :: machine_id
  owner :: machine_id
  cursor :: point
  pending :: "input_event list"
  swallowing :: bool
  announced_owner :: "machine_id option"
  pointer :: "(i32 \<times> i32) option"
  effects :: "effect list"

record world =
  w_doc :: "workspace_doc option"
  w_online :: "machine_id set"
  w_place :: "i32 \<Rightarrow> i32 \<Rightarrow> (i32 \<times> i32) option \<Rightarrow> (i32 \<times> i32) option"

definition DRIFT_LIMIT :: i32 where "DRIFT_LIMIT = 80"

definition act :: "effect \<Rightarrow> router \<Rightarrow> router" where
  "act e r = r\<lparr>effects := effects r @ [e]\<rparr>"

definition suppress :: "bool \<Rightarrow> router \<Rightarrow> router" where
  "suppress b r = act (Suppress b) (r\<lparr>swallowing := b\<rparr>)"

definition place_cursor :: "world \<Rightarrow> i32 \<Rightarrow> i32 \<Rightarrow> router \<Rightarrow> router" where
  "place_cursor w x y r = act (PlaceCursor x y) (r\<lparr>pointer := w_place w x y (pointer r)\<rparr>)"

text \<open>Where this machine's pointer is, in workspace coordinates.\<close>

definition pointer_now :: "world \<Rightarrow> router \<Rightarrow> point option" where
  "pointer_now w r =
     Option.bind (w_doc w) (\<lambda>d.
     Option.bind (machine (local_machine r) d) (\<lambda>m.
     map_option (\<lambda>(x, y). point_new (x + px (mr_position m)) (y + py (mr_position m))) (pointer r)))"

definition follow_pointer :: "world \<Rightarrow> router \<Rightarrow> router" where
  "follow_pointer w r = (case pointer_now w r of Some here \<Rightarrow> r\<lparr>cursor := here\<rparr> | None \<Rightarrow> r)"

section \<open>Transitions\<close>

definition router_start :: "world \<Rightarrow> machine_id \<Rightarrow> machine_id option \<Rightarrow> (i32 \<times> i32) option \<Rightarrow> router" where
  "router_start w self announced ptr =
     (let r = \<lparr>local_machine = self, owner = self, cursor = point_new 0 0, pending = [],
        swallowing = False, announced_owner = announced, pointer = ptr, effects = [RemoteSink True]\<rparr>
      in act (NoteOwner (Some self)) (follow_pointer w r))"

definition owner_is_reachable :: "world \<Rightarrow> router \<Rightarrow> bool" where
  "owner_is_reachable w r \<longleftrightarrow> owner r \<in> w_online w"

definition flush :: "router \<Rightarrow> router" where
  "flush r =
     (if pending r = [] \<or> owner r = local_machine r then r\<lparr>pending := []\<rparr>
      else act (SendTo (owner r) (pending r)) (r\<lparr>pending := []\<rparr>))"

definition apply_announcement :: "world \<Rightarrow> router \<Rightarrow> router" where
  "apply_announcement w r =
     (case announced_owner r of
        None \<Rightarrow> r
      | Some new \<Rightarrow>
          let r = r\<lparr>announced_owner := None\<rparr> in
          if new = owner r then r
          else
            let r = act (NoteOwner (Some new)) (r\<lparr>owner := new\<rparr>) in
            if new = local_machine r then follow_pointer w (suppress False r)
            else suppress True (r\<lparr>pending := []\<rparr>))"

definition take_ownership :: "world \<Rightarrow> router \<Rightarrow> router" where
  "take_ownership w r =
     (let r = suppress False (r\<lparr>owner := local_machine r, pending := []\<rparr>);
          r = follow_pointer w r
      in act (AnnounceOwner (local_machine r)) (act (NoteOwner (Some (local_machine r))) r))"

definition drifted :: "point \<Rightarrow> point \<Rightarrow> bool" where
  "drifted here c \<longleftrightarrow> sint DRIFT_LIMIT < sint (i32_abs (px here - px c)) \<or>
     sint DRIFT_LIMIT < sint (i32_abs (py here - py c))"

definition resync :: "world \<Rightarrow> router \<Rightarrow> router" where
  "resync w r =
     (case pointer_now w r of
        Some here \<Rightarrow> if drifted here (cursor r) then r\<lparr>cursor := here\<rparr> else r
      | None \<Rightarrow> r)"

definition on_motion :: "world \<Rightarrow> i32 \<Rightarrow> i32 \<Rightarrow> source \<Rightarrow> router \<Rightarrow> router" where
  "on_motion w dx dy src r =
     (case w_doc w of
        None \<Rightarrow> r
      | Some d \<Rightarrow>
          let online = insert (local_machine r) (w_online w);
              r = resync w r;
              target = point_new (px (cursor r) + dx) (py (cursor r) + dy)
          in case resolve_cursor d online (local_machine r) target of
               Stay p \<Rightarrow>
                 let r = r\<lparr>cursor := p\<rparr> in
                 if src = Remote
                 then (case machine (local_machine r) d of
                     Some m \<Rightarrow> place_cursor w (px p - px (mr_position m)) (py p - py (mr_position m)) r
                   | None \<Rightarrow> r)
                 else r
             | Move new p \<Rightarrow>
                 let r = act (NoteOwner (Some new)) (r\<lparr>cursor := p, owner := new\<rparr>);
                     r = (case machine new d of
                         Some m \<Rightarrow> r\<lparr>pending := pending r @
                           [CursorEnter (px p - px (mr_position m)) (py p - py (mr_position m))]\<rparr>
                       | None \<Rightarrow> r)
                 in act (AnnounceOwner new) (flush (suppress True r)))"

definition handle :: "world \<Rightarrow> input_event \<Rightarrow> source \<Rightarrow> router \<Rightarrow> router" where
  "handle w e src r =
     (case (e, src) of
        (CursorEnter x y, Remote) \<Rightarrow>
          let r = (if owner r \<noteq> local_machine r
                   then act (NoteOwner (Some (local_machine r)))
                     (suppress False (r\<lparr>owner := local_machine r, pending := []\<rparr>))
                   else r)
          in follow_pointer w (place_cursor w x y r)
      | _ \<Rightarrow>
          if owner r \<noteq> local_machine r
          then (if src = Local then r\<lparr>pending := pending r @ [e]\<rparr> else r)
          else (case e of
              MouseMove dx dy \<Rightarrow> on_motion w dx dy src r
            | CursorEnter _ _ \<Rightarrow> r
            | _ \<Rightarrow> if src = Remote then act (Inject e) r else r))"

text \<open>The branches of the loop. \<open>Announced\<close> is what \<^verbatim>\<open>Core::on_cursor_owner\<close> leaves for it.\<close>

datatype loop_event =
    HeartbeatTick
  | FlushTick
  | LocalInput input_event
  | RemoteBatch "input_event list"
  | Announced machine_id

fun router_step :: "world \<Rightarrow> loop_event \<Rightarrow> router \<Rightarrow> router" where
  "router_step w HeartbeatTick r =
     (if owner r \<noteq> local_machine r \<and> \<not> owner_is_reachable w r then take_ownership w r else r)"
| "router_step w FlushTick r = flush (apply_announcement w r)"
| "router_step w (LocalInput e) r = handle w e Local r"
| "router_step w (RemoteBatch es) r = fold (\<lambda>e. handle w e Remote) es r"
| "router_step w (Announced m) r = r\<lparr>announced_owner := Some m\<rparr>"

fun router_run :: "(world \<times> loop_event) list \<Rightarrow> router \<Rightarrow> router" where
  "router_run [] r = r"
| "router_run ((w, e) # es) r = router_run es (router_step w e r)"

definition router_stop :: "router \<Rightarrow> router" where
  "router_stop r = act (NoteOwner None) (act (RemoteSink False) (suppress False r))"

section \<open>The invariant: local input is swallowed exactly when the pointer is elsewhere\<close>

text \<open>What the capture thread and the view were last told.\<close>

fun told_capture :: "bool \<Rightarrow> effect \<Rightarrow> bool" where
  "told_capture b (Suppress b') = b'"
| "told_capture b _ = b"

fun told_view :: "machine_id option \<Rightarrow> effect \<Rightarrow> machine_id option" where
  "told_view v (NoteOwner v') = v'"
| "told_view v _ = v"

definition capture_mode :: "effect list \<Rightarrow> bool" where
  "capture_mode es = foldl told_capture False es"

definition shown_owner :: "effect list \<Rightarrow> machine_id option" where
  "shown_owner es = foldl told_view None es"

fun sends_sensibly :: "machine_id \<Rightarrow> effect \<Rightarrow> bool" where
  "sends_sensibly self (SendTo m es) = (m \<noteq> self \<and> es \<noteq> [])"
| "sends_sensibly self _ = True"

definition router_ok :: "router \<Rightarrow> bool" where
  "router_ok r \<longleftrightarrow> (swallowing r \<longleftrightarrow> owner r \<noteq> local_machine r) \<and>
     capture_mode (effects r) = swallowing r \<and> shown_owner (effects r) = Some (owner r) \<and>
     (owner r = local_machine r \<longrightarrow> pending r = []) \<and>
     list_all (sends_sensibly (local_machine r)) (effects r)"

lemma told_append [simp]:
  "capture_mode (es @ es') = foldl told_capture (capture_mode es) es'"
  "shown_owner (es @ es') = foldl told_view (shown_owner es) es'"
  by (simp_all add: capture_mode_def shown_owner_def)

lemma act_fields [simp]:
  "local_machine (act e r) = local_machine r" "owner (act e r) = owner r"
  "cursor (act e r) = cursor r" "pending (act e r) = pending r"
  "swallowing (act e r) = swallowing r" "announced_owner (act e r) = announced_owner r"
  "pointer (act e r) = pointer r" "effects (act e r) = effects r @ [e]"
  by (simp_all add: act_def)

lemma suppress_fields [simp]:
  "local_machine (suppress b r) = local_machine r" "owner (suppress b r) = owner r"
  "pending (suppress b r) = pending r" "swallowing (suppress b r) = b" "cursor (suppress b r) = cursor r"
  "announced_owner (suppress b r) = announced_owner r" "effects (suppress b r) = effects r @ [Suppress b]"
  by (simp_all add: suppress_def)

lemma follow_pointer_fields [simp]:
  "local_machine (follow_pointer w r) = local_machine r" "owner (follow_pointer w r) = owner r"
  "pending (follow_pointer w r) = pending r" "swallowing (follow_pointer w r) = swallowing r"
  "announced_owner (follow_pointer w r) = announced_owner r" "effects (follow_pointer w r) = effects r"
  by (simp_all add: follow_pointer_def split: option.split)

lemma resync_fields [simp]:
  "local_machine (resync w r) = local_machine r" "owner (resync w r) = owner r"
  "pending (resync w r) = pending r" "swallowing (resync w r) = swallowing r"
  "announced_owner (resync w r) = announced_owner r" "effects (resync w r) = effects r"
  by (simp_all add: resync_def split: option.split)

lemma place_cursor_fields [simp]:
  "local_machine (place_cursor w x y r) = local_machine r" "owner (place_cursor w x y r) = owner r"
  "pending (place_cursor w x y r) = pending r" "swallowing (place_cursor w x y r) = swallowing r"
  "announced_owner (place_cursor w x y r) = announced_owner r"
  by (simp_all add: place_cursor_def)

lemma flush_fields [simp]:
  "local_machine (flush r) = local_machine r" "owner (flush r) = owner r"
  "pending (flush r) = []" "swallowing (flush r) = swallowing r" "cursor (flush r) = cursor r"
  "announced_owner (flush r) = announced_owner r"
  by (simp_all add: flush_def)

lemma resolve_not_current: "resolve_cursor d online i target = Move m p \<Longrightarrow> m \<noteq> i"
proof -
  have in_cs: "m \<noteq> i" if "c \<in> set (candidates_along d i exit dir)" "m = cand_machine c" for c exit dir
    using that by (auto simp: candidates_along_def set_map_filter candidate_of_def bind_eq_Some_conv)
  assume "resolve_cursor d online i target = Move m p"
  then obtain exit dir c where "pick_candidate (offline_edge (lww_value (settings d))) online
      (candidates_along d i exit dir) = Some c" and "m = cand_machine c"
    by (auto simp: resolve_cursor_def Let_def split: option.splits if_splits)
  with pick_candidate_Some [OF _ candidates_sorted] in_cs show ?thesis by blast
qed

lemma flush_effects:
  "effects (flush r) = effects r @
     (if pending r = [] \<or> owner r = local_machine r then [] else [SendTo (owner r) (pending r)])"
  by (simp add: flush_def)

lemma place_cursor_effects [simp]: "effects (place_cursor w x y r) = effects r @ [PlaceCursor x y]"
  by (simp add: place_cursor_def)

section \<open>Preservation\<close>

lemma router_start_ok: "router_ok (router_start w self announced ptr)"
  by (simp add: router_ok_def router_start_def Let_def capture_mode_def shown_owner_def)

lemma take_ownership_ok: "router_ok r \<Longrightarrow> router_ok (take_ownership w r)"
  by (simp add: router_ok_def take_ownership_def Let_def)

lemma flush_tick_ok: "router_ok r \<Longrightarrow> router_ok (flush (apply_announcement w r))"
  by (auto simp: router_ok_def apply_announcement_def flush_effects Let_def split: option.split)

lemma on_motion_ok:
  assumes r: "router_ok r" and own: "owner r = local_machine r"
  shows "router_ok (on_motion w dx dy src r)"
proof (cases "w_doc w")
  case None
  then show ?thesis using r by (simp add: on_motion_def)
next
  case (Some d)
  let ?res = "resolve_cursor d (insert (local_machine r) (w_online w)) (local_machine r)
    (point_new (px (cursor (resync w r)) + dx) (py (cursor (resync w r)) + dy))"
  show ?thesis
  proof (cases ?res)
    case (Stay p)
    then show ?thesis using r own Some
      by (auto simp: on_motion_def Let_def router_ok_def split: option.split)
  next
    case (Move m p)
    with resolve_not_current have "m \<noteq> local_machine r" by blast
    then show ?thesis using r own Some Move
      by (auto simp: on_motion_def Let_def router_ok_def flush_effects split: option.split)
  qed
qed

lemma handle_ok: "router_ok r \<Longrightarrow> router_ok (handle w e src r)"
proof (cases "\<exists>x y. e = CursorEnter x y \<and> src = Remote")
  case True
  then show "router_ok r \<Longrightarrow> ?thesis" by (auto simp: handle_def router_ok_def Let_def)
next
  case False
  then have "handle w e src r =
      (if owner r \<noteq> local_machine r
       then (if src = Local then r\<lparr>pending := pending r @ [e]\<rparr> else r)
       else (case e of
           MouseMove dx dy \<Rightarrow> on_motion w dx dy src r
         | CursorEnter _ _ \<Rightarrow> r
         | _ \<Rightarrow> if src = Remote then act (Inject e) r else r))"
    by (cases src) (auto simp: handle_def split: input_event.split)
  then show "router_ok r \<Longrightarrow> ?thesis"
    using on_motion_ok by (auto simp: router_ok_def split: input_event.split)
qed

lemma handle_batch_ok: "router_ok r \<Longrightarrow> router_ok (fold (\<lambda>e. handle w e src) es r)"
  by (induction es arbitrary: r) (simp_all add: handle_ok)

lemma router_step_ok: "router_ok r \<Longrightarrow> router_ok (router_step w e r)"
  by (cases e) (simp_all add: take_ownership_ok flush_tick_ok handle_ok handle_batch_ok,
      simp add: router_ok_def)

lemma router_run_ok: "router_ok r \<Longrightarrow> router_ok (router_run tr r)"
  by (induction tr r rule: router_run.induct) (simp_all add: router_step_ok)

section \<open>The transitions used below\<close>

lemma heartbeat_takes_back:
  assumes "owner r \<noteq> local_machine r" and "owner r \<notin> w_online w"
  shows "router_step w HeartbeatTick r = take_ownership w r"
  using assms by (simp add: owner_is_reachable_def)

lemma handle_motion_owner:
  "owner r = local_machine r \<Longrightarrow> handle w (MouseMove dx dy) src r = on_motion w dx dy src r"
  by (simp add: handle_def)

lemma handle_enter:
  "handle w (CursorEnter x y) Remote r = follow_pointer w (place_cursor w x y
     (if owner r \<noteq> local_machine r
      then act (NoteOwner (Some (local_machine r)))
        (suppress False (r\<lparr>owner := local_machine r, pending := []\<rparr>)) else r))"
  by (simp add: handle_def Let_def)

text \<open>Where a movement takes the tracked pointer.\<close>

definition motion_target :: "world \<Rightarrow> i32 \<Rightarrow> i32 \<Rightarrow> router \<Rightarrow> point" where
  "motion_target w dx dy r =
     point_new (px (cursor (resync w r)) + dx) (py (cursor (resync w r)) + dy)"

lemma on_motion_crossing:
  assumes "router_ok a" and "owner a = local_machine a" and "w_doc w = Some d"
    and "resolve_cursor d (insert (local_machine a) (w_online w)) (local_machine a)
      (motion_target w dx dy a) = Move b p"
    and "machine b d = Some m"
  shows "effects (on_motion w dx dy src a) = effects a @
      [NoteOwner (Some b), Suppress True,
       SendTo b [CursorEnter (px p - px (mr_position m)) (py p - py (mr_position m))], AnnounceOwner b]"
    and "owner (on_motion w dx dy src a) = b" and "local_machine (on_motion w dx dy src a) = local_machine a"
    and "cursor (on_motion w dx dy src a) = p"
proof -
  have "b \<noteq> local_machine a" using resolve_not_current [OF assms(4)] .
  moreover have "pending a = []" using assms(1,2) by (simp add: router_ok_def)
  ultimately show "effects (on_motion w dx dy src a) = effects a @
      [NoteOwner (Some b), Suppress True,
       SendTo b [CursorEnter (px p - px (mr_position m)) (py p - py (mr_position m))], AnnounceOwner b]"
    and "owner (on_motion w dx dy src a) = b" and "local_machine (on_motion w dx dy src a) = local_machine a"
    and "cursor (on_motion w dx dy src a) = p"
    using assms(2-5) by (simp_all add: on_motion_def motion_target_def Let_def flush_effects)
qed

lemma forward_all:
  "owner r \<noteq> local_machine r \<Longrightarrow>
     fold (\<lambda>e. handle w e Local) es r = r\<lparr>pending := pending r @ es\<rparr>"
  by (induction es arbitrary: r) (simp_all add: handle_def split: input_event.split)

lemma remote_ignored:
  "owner r \<noteq> local_machine r \<Longrightarrow> \<forall>x y. CursorEnter x y \<notin> set es \<Longrightarrow>
     fold (\<lambda>e. handle w e Remote) es r = r"
proof (induction es)
  case (Cons e es)
  then have "handle w e Remote r = r" by (cases e) (auto simp: handle_def)
  with Cons show ?case by auto
qed simp

lemma announced_owner_applied:
  "router_ok r \<Longrightarrow> owner (router_run [(w1, Announced b), (w2, FlushTick)] r) = b"
  by (simp add: apply_announcement_def Let_def)

lemma local_machine_announced [simp]:
  "local_machine (router_run [(w1, Announced b), (w2, FlushTick)] r) = local_machine r"
  by (simp add: apply_announcement_def Let_def)

lemma swallowing_iff: "router_ok r \<Longrightarrow> swallowing r \<longleftrightarrow> owner r \<noteq> local_machine r"
  by (simp add: router_ok_def)

text \<open>Concrete machines for the witnesses: three on one desk, the pointer near an edge.\<close>

definition sample_world :: world where
  "sample_world = \<lparr>w_doc = Some sample_row, w_online = {2, 3}, w_place = (\<lambda>x y _. Some (x, y))\<rparr>"

definition sample_router :: "machine_id \<Rightarrow> router" where
  "sample_router i = router_start sample_world i None (Some (1910, 500))"

lemma sample_router_ok: "router_ok (sample_router i)"
  by (simp add: sample_router_def router_start_ok)

lemma sample_router_owner [simp]:
  "owner (sample_router i) = i" "local_machine (sample_router i) = i"
  by (simp_all add: sample_router_def router_start_def Let_def)

lemma sample_crossing:
  "resolve_cursor sample_row (insert 1 {2, 3}) 1 (motion_target sample_world 30 0 (sample_router 1)) =
     Move 2 (point_new 1920 500)"
  "map_option mr_position (machine 2 sample_row) = Some (point_new 1920 0)"
  by code_simp+

section \<open>Properties\<close>

text \<open>
  C3: Local input is swallowed exactly while the pointer is on another machine. However the
  branches of the loop interleave, and whatever the world does between them: the capture
  hook was last told to swallow if and only if another machine owns the pointer, the view was
  last told the owner, a machine that owns the pointer has nothing waiting to be sent, and no
  batch is empty or addressed to this machine. Stopping gives the keyboard back and shows no
  owner.
\<close>

theorem router_keeps_invariant:
  "router_ok (router_run tr (router_start w self announced ptr)) \<and>
   (let r = router_stop (router_run tr (router_start w self announced ptr))
    in \<not> swallowing r \<and> \<not> capture_mode (effects r) \<and> shown_owner (effects r) = None)"
  by (simp add: router_run_ok router_start_ok router_stop_def Let_def)

text \<open>
  The handoff makes every machine agree. When the owner \<open>a\<close> resolves a movement (from its
  own mouse or another machine's) to a crossing into \<open>b\<close>, it sends \<open>b\<close> the entry point before
  announcing \<open>b\<close>, nothing else, and swallows its input from then on. The batch makes \<open>b\<close> the
  owner with its pointer at the entry point, also after the announcement arrives; any other
  machine that applies the announcement gives the same owner and swallows. So \<open>b\<close> alone acts
  on its own input.
\<close>

theorem crossing_hands_over:
  fixes src :: source and wb :: world and x y :: i32
  assumes "router_ok a" and "owner a = local_machine a" and "w_doc w = Some d"
    and "resolve_cursor d (insert (local_machine a) (w_online w)) (local_machine a)
      (motion_target w dx dy a) = Move b p"
    and "machine b d = Some m"
    and "router_ok rb" and "local_machine rb = b" and "router_ok rc" and "local_machine rc \<noteq> b"
  defines "x \<equiv> px p - px (mr_position m)" and "y \<equiv> py p - py (mr_position m)"
    and "a' \<equiv> handle w (MouseMove dx dy) src a"
    and "rb' \<equiv> router_step wb (RemoteBatch [CursorEnter x y]) rb"
  shows "effects a' = effects a @
      [NoteOwner (Some b), Suppress True, SendTo b [CursorEnter x y], AnnounceOwner b] \<and>
    owner a' = b \<and> swallowing a' \<and>
    owner rb' = b \<and> \<not> swallowing rb' \<and> last (effects rb') = PlaceCursor x y \<and>
    (let rb2 = router_run [(w1, Announced b), (w2, FlushTick)] rb';
         rc2 = router_run [(w1, Announced b), (w2, FlushTick)] rc
     in owner rb2 = b \<and> \<not> swallowing rb2 \<and> owner rc2 = b \<and> swallowing rc2)"
proof -
  have a': "a' = on_motion w dx dy src a" using assms(2) by (simp add: a'_def handle_motion_owner)
  note crossing = on_motion_crossing [OF assms(1-5), where src = src, folded a']
  have "router_ok a'" by (simp add: a'_def handle_ok assms(1))
  with crossing(2,3) resolve_not_current [OF assms(4)] have sender: "owner a' = b \<and> swallowing a'"
    by (simp add: swallowing_iff)
  have rb': "router_ok rb'" unfolding rb'_def by (rule router_step_ok [OF assms(6)])
  have own: "owner rb' = b" "local_machine rb' = b" and "last (effects rb') = PlaceCursor x y"
    using assms(7) by (simp_all add: rb'_def handle_enter)
  moreover from own rb' have "\<not> swallowing rb'" by (simp add: swallowing_iff)
  moreover note announced_owner_applied [OF rb', of w1 b w2] announced_owner_applied [OF assms(8), of w1 b w2]
    swallowing_iff [OF router_run_ok [OF rb'], of "[(w1, Announced b), (w2, FlushTick)]"]
    swallowing_iff [OF router_run_ok [OF assms(8)], of "[(w1, Announced b), (w2, FlushTick)]"]
  ultimately show ?thesis
    using crossing(1) sender assms(9) by (simp add: x_def y_def Let_def del: router_run.simps)
qed

text \<open>
  C22: The pointer is never stranded on a machine that went away. At the first heartbeat at
  which the owner is not online this machine takes the pointer, releases its own keyboard and
  mouse before telling anybody, discards what was waiting, and announces itself; the keys and
  movements typed after that are no longer sent to the machine that went away.
\<close>

theorem offline_owner_gives_back:
  assumes "router_ok r" and "owner r \<noteq> local_machine r" and "owner r \<notin> w_online w"
  defines "r' \<equiv> router_step w HeartbeatTick r"
  shows "owner r' = local_machine r \<and> \<not> swallowing r' \<and> pending r' = [] \<and>
    effects r' = effects r @ [Suppress False, NoteOwner (Some (local_machine r)),
      AnnounceOwner (local_machine r)] \<and>
    router_step w' (LocalInput (Key vk scan down ext)) r' = r'"
  using assms(1) unfolding r'_def heartbeat_takes_back [OF assms(2,3)]
  by (simp add: take_ownership_def Let_def handle_def)

theorem offline_owner_gives_back_witness:
  "let r = (sample_router 1)\<lparr>owner := 5, swallowing := True, effects := [Suppress True, NoteOwner (Some 5)]\<rparr>
   in owner (router_step sample_world HeartbeatTick r) = 1"
proof -
  let ?r = "(sample_router 1)\<lparr>owner := 5, swallowing := True, effects := [Suppress True, NoteOwner (Some 5)]\<rparr>"
  have "router_ok ?r" by (simp add: router_ok_def capture_mode_def shown_owner_def)
  from offline_owner_gives_back [OF this, of sample_world] show ?thesis
    by (simp add: sample_world_def Let_def)
qed

text \<open>
  A machine without the pointer is a keyboard and a mouse and nothing more: its input
  goes to the owner, all of it, once, in the order it was made and after what was already
  waiting, at the next flush; what other machines send it (handoffs apart) changes nothing.
\<close>

theorem input_forwarded_in_order:
  fixes w1 w2 :: world and es :: "input_event list"
  assumes "router_ok r" and "owner r \<noteq> local_machine r" and "announced_owner r \<in> {None, Some (owner r)}"
    and "\<forall>x y. CursorEnter x y \<notin> set remote"
  defines "r' \<equiv> router_step w2 FlushTick (router_run (map (\<lambda>e. (w1, LocalInput e)) es) r)"
  shows "effects r' = effects r @ (if pending r @ es = [] then [] else [SendTo (owner r) (pending r @ es)]) \<and>
    pending r' = [] \<and> owner r' = owner r \<and> swallowing r' \<and>
    router_step w1 (RemoteBatch remote) r = r"
proof -
  have "router_run (map (\<lambda>e. (w1, LocalInput e)) es) r = fold (\<lambda>e. handle w1 e Local) es r" for r
    by (induction es arbitrary: r) simp_all
  then have run: "router_run (map (\<lambda>e. (w1, LocalInput e)) es) r = r\<lparr>pending := pending r @ es\<rparr>"
    by (simp add: forward_all [OF assms(2)])
  from assms(2,3) have "effects r' = effects r @ (if pending r @ es = [] then [] else [SendTo (owner r) (pending r @ es)])"
    by (auto simp: r'_def run apply_announcement_def flush_effects Let_def)
  moreover from assms(1-3) have "pending r' = [] \<and> owner r' = owner r \<and> swallowing r'"
    by (auto simp: r'_def run apply_announcement_def Let_def swallowing_iff)
  ultimately show ?thesis using remote_ignored [OF assms(2,4)] by simp
qed

end
