(* ===== verification/Agent.thy ===== *)
theory Agent
  imports Session Sharing
begin

text \<open>
  The agent (\<^verbatim>\<open>crates/is-agent/src/lib.rs\<close>, \<open>differ\<close> from \<^verbatim>\<open>crates/is-input/src/displays.rs\<close>):
  the document and its copy on disk, who is online, who was found, and who is trusted while
  there is no document.

  \<^verbatim>\<open>Core\<close> and the parts of \<^verbatim>\<open>Agent\<close> that change it are one state; each operation takes the
  mutex, so each is a function on it. The machine it runs on is the record \<open>host\<close>: the disk's
  faults, the clock, the screens, the random identifiers, the codecs. What it asks of the
  network service and of the views is recorded in order. \<^verbatim>\<open>str::trim\<close> is modelled for names
  whose outer white space is ASCII.
\<close>

section \<open>State\<close>

datatype agent_error =
    CoreFailed core_error
  | NetFailed net_error
  | NoWorkspace
  | UnknownMachine machine_id
  | Refusal string

record found_machine =
  fm_machine_id :: machine_id
  fm_display_name :: string
  fm_identity_key :: pub_key
  fm_invited_us :: bool
  fm_addr :: socket_addr
  fm_last_seen_ms :: u64
  fm_has_workspace :: bool

datatype request =
    Changed
  | BroadcastUpdate workspace_update
  | RescanNetwork
  | AddPeer socket_addr
  | ForgetPeer socket_addr
  | InjectEvent input_event

record core =
  co_identity :: identity
  co_disk :: disk
  co_doc :: "workspace_doc option"
  co_online :: "machine_id set"
  co_candidates :: "(machine_id, found_machine) btree_map"
  co_pending_trust :: "(machine_id, pub_key) btree_map"
  co_manual_peers :: "socket_addr list"
  co_announced_owner :: "machine_id option"
  co_remote_input :: "(machine_id \<times> input_event list) list option"
  co_cursor_owner :: "machine_id option"
  co_sharing :: bool
  co_requests :: "request list"

record host =
  h_store :: store
  h_fault :: fault
  h_doc_codec :: "workspace_doc codec"
  h_identity_codec :: "identity codec"
  h_backup_codec :: "backup codec"
  h_prefs_codec :: "local_prefs codec"
  h_crypto :: crypto
  h_now :: u64
  h_new_identity :: identity
  h_new_workspace :: workspace_id
  h_variables :: "string \<Rightarrow> string option"
  h_platform :: platform
  h_displays :: "input_error + display_info list"
  h_inject :: "input_event \<Rightarrow> input_error option"
  h_net :: bool

section \<open>Names and screens\<close>

definition is_space :: "char \<Rightarrow> bool" where
  "is_space c \<longleftrightarrow> (let n = of_char c :: nat in n = 32 \<or> (9 \<le> n \<and> n \<le> 13))"

definition trim :: "string \<Rightarrow> string" where
  "trim s = rev (dropWhile is_space (rev (dropWhile is_space s)))"

definition computer_name :: "host \<Rightarrow> string" where
  "computer_name H =
     (case (case h_variables H ''COMPUTERNAME'' of Some n \<Rightarrow> Some n | None \<Rightarrow> h_variables H ''HOSTNAME'') of
        Some n \<Rightarrow> if trim n = [] then ''Unnamed computer'' else trim n
      | None \<Rightarrow> ''Unnamed computer'')"

definition assumed_display :: display_info where
  "assumed_display = \<lparr>di_id = ''assumed'', di_name = ''Screen (not detected)'', di_x = 0, di_y = 0,
     di_width = 1920, di_height = 1080, di_scale = 0x3F800000, di_primary = True\<rparr>"

definition local_displays :: "host \<Rightarrow> display_info list" where
  "local_displays H =
     (case h_displays H of
        Inr ds \<Rightarrow> if ds \<noteq> [] then ds else [assumed_display]
      | Inl _ \<Rightarrow> [assumed_display])"

definition local_record :: "host \<Rightarrow> identity \<Rightarrow> machine_record" where
  "local_record H self = \<lparr>mr_id = id_machine_id self, mr_display_name = computer_name H,
     mr_platform = h_platform H, mr_public_key = public_key (h_crypto H) self,
     mr_position = point_new 0 0, mr_displays = local_displays H,
     mr_input = \<lparr>provides_keyboard = True, provides_mouse = True\<rparr>, mr_paired_at_ms = h_now H\<rparr>"

text \<open>\<^verbatim>\<open>f32\<close> comparison on bit patterns: a NaN differs from itself, the two zeros are equal.\<close>

definition f32_eq :: "u32 \<Rightarrow> u32 \<Rightarrow> bool" where
  "f32_eq a b \<longleftrightarrow> a AND 0x7FFFFFFF \<le> 0x7F800000 \<and> b AND 0x7FFFFFFF \<le> 0x7F800000 \<and>
     (a = b \<or> (a AND 0x7FFFFFFF = 0 \<and> b AND 0x7FFFFFFF = 0))"

definition display_eq :: "display_info \<Rightarrow> display_info \<Rightarrow> bool" where
  "display_eq a b \<longleftrightarrow> f32_eq (di_scale a) (di_scale b) \<and> a\<lparr>di_scale := 0\<rparr> = b\<lparr>di_scale := 0\<rparr>"

definition differ :: "display_info list \<Rightarrow> display_info list \<Rightarrow> bool" where
  "differ a b \<longleftrightarrow> length a \<noteq> length b \<or> list_ex (\<lambda>(x, y). \<not> display_eq x y) (zip a b)"

section \<open>The trait \<^verbatim>\<open>Workspace\<close> as the network sees it\<close>

definition request :: "request \<Rightarrow> core \<Rightarrow> core" where
  "request q c = c\<lparr>co_requests := co_requests c @ [q]\<rparr>"

definition persist :: "host \<Rightarrow> core \<Rightarrow> core" where
  "persist H c =
     (case co_doc c of
        None \<Rightarrow> c
      | Some d \<Rightarrow> c\<lparr>co_disk := fst (save_workspace (h_fault H) (h_doc_codec H) (h_store H) d (co_disk c))\<rparr>)"

text \<open>Trust given by hand is dropped for every machine the document now records.\<close>

definition drop_adopted :: "workspace_doc \<Rightarrow> (machine_id, pub_key) btree_map \<Rightarrow> (machine_id, pub_key) btree_map" where
  "drop_adopted d trust = fold bt_remove (filter (\<lambda>i. machine i d \<noteq> None) (bt_keys trust)) trust"

definition core_merge :: "host \<Rightarrow> workspace_doc \<Rightarrow> core \<Rightarrow> core \<times> (core_error + bool)" where
  "core_merge H incoming c =
     (case (case co_doc c of Some d \<Rightarrow> merge_doc d incoming | None \<Rightarrow> Inr (incoming, True)) of
        Inl e \<Rightarrow> (c, Inl e)
      | Inr (d, changed) \<Rightarrow>
          let c = c\<lparr>co_doc := Some d\<rparr> in
          if changed
          then (request Changed (persist H (c\<lparr>co_pending_trust := drop_adopted d (co_pending_trust c)\<rparr>)), Inr True)
          else (c, Inr False))"

definition core_apply :: "host \<Rightarrow> workspace_update \<Rightarrow> core \<Rightarrow> core \<times> (core_error + bool)" where
  "core_apply H u c =
     (case co_doc c of
        None \<Rightarrow> (c, Inr False)
      | Some d \<Rightarrow>
          (case apply_update u d of
             Inl e \<Rightarrow> (c, Inl e)
           | Inr (d, changed) \<Rightarrow>
               let c = c\<lparr>co_doc := Some d\<rparr> in
               if changed then (request Changed (persist H c), Inr True) else (c, Inr False)))"

definition own_record :: "core \<Rightarrow> machine_record option" where
  "own_record c = Option.bind (co_doc c) (machine (id_machine_id (co_identity c)))"

definition core_display_name :: "host \<Rightarrow> core \<Rightarrow> string" where
  "core_display_name H c = (case own_record c of Some m \<Rightarrow> mr_display_name m | None \<Rightarrow> computer_name H)"

definition core_on_cursor_owner :: "machine_id \<Rightarrow> machine_id \<Rightarrow> core \<Rightarrow> core" where
  "core_on_cursor_owner from m c = c\<lparr>co_announced_owner := Some m\<rparr>"

text \<open>Replaying stops at the first event the platform refuses.\<close>

fun inject_all :: "host \<Rightarrow> input_event list \<Rightarrow> core \<Rightarrow> core" where
  "inject_all H [] c = c"
| "inject_all H (e # es) c =
     (case h_inject H e of None \<Rightarrow> inject_all H es (request (InjectEvent e) c) | Some _ \<Rightarrow> c)"

definition REMOTE_CAPACITY :: nat where "REMOTE_CAPACITY = 1024"

definition core_on_input :: "host \<Rightarrow> machine_id \<Rightarrow> input_event list \<Rightarrow> core \<Rightarrow> core" where
  "core_on_input H from es c =
     (case co_remote_input c of
        Some queue \<Rightarrow>
          if length queue < REMOTE_CAPACITY then c\<lparr>co_remote_input := Some (queue @ [(from, es)])\<rparr> else c
      | None \<Rightarrow> inject_all H es c)"

definition core_pending_invitations :: "core \<Rightarrow> machine_id list" where
  "core_pending_invitations c =
     (case co_doc c of
        None \<Rightarrow> []
      | Some d \<Rightarrow> filter (\<lambda>i. i \<noteq> id_machine_id (co_identity c) \<and> i \<notin> co_online c)
          (map mr_id (machines_present d)))"

definition core_authorize :: "machine_id \<Rightarrow> pub_key \<Rightarrow> core \<Rightarrow> bool" where
  "core_authorize i key c =
     (case Option.bind (co_doc c) (machine i) of
        Some r \<Rightarrow> mr_public_key r = key
      | None \<Rightarrow> bt_get (co_pending_trust c) i = Some key)"

definition core_workspace :: "host \<Rightarrow> core workspace_trait" where
  "core_workspace H = \<lparr>ws_snapshot = co_doc, ws_merge = core_merge H, ws_apply = core_apply H,
     ws_display_name = core_display_name H, ws_on_cursor_owner = core_on_cursor_owner,
     ws_on_input = core_on_input H, ws_pending_invitations = core_pending_invitations,
     ws_authorize = core_authorize\<rparr>"

section \<open>What the person at the keyboard does\<close>

definition agent_load :: "host \<Rightarrow> disk \<Rightarrow> disk \<times> (agent_error + core)" where
  "agent_load H d =
     (let new_core = (\<lambda>i disk doc. \<lparr>co_identity = i, co_disk = disk, co_doc = Some doc, co_online = {},
            co_candidates = bt_empty, co_pending_trust = bt_empty, co_manual_peers = [],
            co_announced_owner = None, co_remote_input = None, co_cursor_owner = None,
            co_sharing = False, co_requests = []\<rparr>)
      in case load_or_create_identity (h_fault H) (h_identity_codec H) (h_new_identity H) (h_store H) d of
           (d1, Inl e) \<Rightarrow> (d1, Inl (CoreFailed e))
         | (d1, Inr i) \<Rightarrow>
             (case load_workspace (h_fault H) (h_doc_codec H) (h_store H) d1 of
                Inl e \<Rightarrow> (d1, Inl (CoreFailed e))
              | Inr (Some doc) \<Rightarrow> (d1, Inr (new_core i d1 doc))
              | Inr None \<Rightarrow>
                  let doc = create (h_now H) (h_new_workspace H) (computer_name H) (local_record H i) in
                  (case save_workspace (h_fault H) (h_doc_codec H) (h_store H) doc d1 of
                     (d2, Inl e) \<Rightarrow> (d2, Inl (CoreFailed e))
                   | (d2, Inr _) \<Rightarrow> (d2, Inr (new_core i d2 doc)))))"

text \<open>A change: made, written down, shown, and pushed to the connected peers.\<close>

definition mutate ::
  "host \<Rightarrow> (machine_id \<Rightarrow> workspace_doc \<Rightarrow> workspace_doc \<times> workspace_update) \<Rightarrow> core
     \<Rightarrow> core \<times> (agent_error + unit)" where
  "mutate H change c =
     (case co_doc c of
        None \<Rightarrow> (c, Inl NoWorkspace)
      | Some d \<Rightarrow>
          let (d, u) = change (id_machine_id (co_identity c)) d;
              c = request Changed (persist H (c\<lparr>co_doc := Some d\<rparr>))
          in (if h_net H then request (BroadcastUpdate u) c else c, Inr ()))"

definition agent_upsert_machine :: "host \<Rightarrow> machine_record \<Rightarrow> core \<Rightarrow> core \<times> (agent_error + unit)" where
  "agent_upsert_machine H r = mutate H (\<lambda>origin. upsert_machine (h_now H) origin r)"

definition rename_workspace :: "host \<Rightarrow> string \<Rightarrow> core \<Rightarrow> core \<times> (agent_error + unit)" where
  "rename_workspace H name = mutate H (\<lambda>origin. set_name (h_now H) origin name)"

definition update_settings :: "host \<Rightarrow> workspace_settings \<Rightarrow> core \<Rightarrow> core \<times> (agent_error + unit)" where
  "update_settings H s = mutate H (\<lambda>origin. set_settings (h_now H) origin s)"

definition rename_this_machine :: "host \<Rightarrow> string \<Rightarrow> core \<Rightarrow> core \<times> (agent_error + unit)" where
  "rename_this_machine H name c =
     (if trim name = [] then (c, Inl (Refusal ''a computer needs a name''))
      else case own_record c of
        None \<Rightarrow> (c, Inl (UnknownMachine (id_machine_id (co_identity c))))
      | Some r \<Rightarrow> agent_upsert_machine H (r\<lparr>mr_display_name := trim name\<rparr>) c)"

definition free_position :: "core \<Rightarrow> point" where
  "free_position c =
     point_new
       (case co_doc c of
          None \<Rightarrow> 0
        | Some d \<Rightarrow>
            (case reduce i32_max (map max_x (List.map_filter bounds (machines_present d))) of
               Some right \<Rightarrow> right | None \<Rightarrow> 0)) 0"

definition pair :: "host \<Rightarrow> machine_id \<Rightarrow> core \<Rightarrow> core \<times> (agent_error + unit)" where
  "pair H i c =
     (case bt_get (co_candidates c) i of
        None \<Rightarrow> (c, Inl (UnknownMachine i))
      | Some found \<Rightarrow>
          if co_doc c = None
          then (request Changed (c\<lparr>co_pending_trust :=
                 bt_insert (fm_machine_id found) (fm_identity_key found) (co_pending_trust c)\<rparr>), Inr ())
          else
            let r = \<lparr>mr_id = fm_machine_id found, mr_display_name = fm_display_name found,
                  mr_platform = OtherPlatform, mr_public_key = fm_identity_key found,
                  mr_position = free_position c, mr_displays = [],
                  mr_input = input_assignment_default, mr_paired_at_ms = h_now H\<rparr>
            in case mutate H (\<lambda>origin. upsert_machine (h_now H) origin r) c of
                 (c, Inl e) \<Rightarrow> (c, Inl e)
               | (c, Inr _) \<Rightarrow> (c\<lparr>co_candidates := bt_remove i (co_candidates c)\<rparr>, Inr ()))"

definition unpair :: "host \<Rightarrow> machine_id \<Rightarrow> core \<Rightarrow> core \<times> (agent_error + unit)" where
  "unpair H i c =
     (if i = id_machine_id (co_identity c)
      then (c, Inl (Refusal ''a machine cannot remove itself from its own workspace''))
      else case mutate H (\<lambda>origin. remove_machine (h_now H) origin i) c of
             (c, Inl e) \<Rightarrow> (c, Inl e)
           | (c, Inr _) \<Rightarrow> (c\<lparr>co_online := co_online c - {i}\<rparr>, Inr ()))"

definition publish_local_facts :: "host \<Rightarrow> core \<Rightarrow> core \<times> (agent_error + bool)" where
  "publish_local_facts H c =
     (let displays = local_displays H in
      case own_record c of
        None \<Rightarrow> (c, Inr False)
      | Some r \<Rightarrow>
          let screens_changed = differ (mr_displays r) displays in
          if \<not> screens_changed \<and> mr_platform r = h_platform H then (c, Inr False)
          else
            let r = (if screens_changed then r\<lparr>mr_displays := displays\<rparr> else r)\<lparr>mr_platform := h_platform H\<rparr>
            in case agent_upsert_machine H r c of
                 (c, Inl e) \<Rightarrow> (c, Inl e)
               | (c, Inr _) \<Rightarrow> (c, Inr True))"

definition add_manual_peer :: "host \<Rightarrow> socket_addr \<Rightarrow> core \<Rightarrow> core" where
  "add_manual_peer H addr c =
     (let c = (if addr \<in> set (co_manual_peers c) then c
            else c\<lparr>co_manual_peers := co_manual_peers c @ [addr]\<rparr>)
      in request Changed (if h_net H then request (AddPeer addr) c else c))"

definition forget_manual_peer :: "host \<Rightarrow> socket_addr \<Rightarrow> core \<Rightarrow> core" where
  "forget_manual_peer H addr c =
     (let c = c\<lparr>co_manual_peers := filter (\<lambda>a. a \<noteq> addr) (co_manual_peers c)\<rparr>
      in request Changed (if h_net H then request (ForgetPeer addr) c else c))"

definition agent_discovery_port :: "core \<Rightarrow> u16" where
  "agent_discovery_port c =
     (case co_doc c of Some d \<Rightarrow> discovery_port (lww_value (settings d)) | None \<Rightarrow> 47451)"

definition agent_rescan :: "host \<Rightarrow> core \<Rightarrow> core" where
  "agent_rescan H c = (if h_net H then request RescanNetwork c else c)"

text \<open>Giving up this configuration for another machine's.\<close>

definition rescue_file :: "host \<Rightarrow> string" where
  "rescue_file H = file_path (h_store H) (''workspace-replaced-'' @ decimal (unat (h_now H)) @ ''.json'')"

definition adopt_configuration_of :: "host \<Rightarrow> machine_id \<Rightarrow> pub_key \<Rightarrow> core \<Rightarrow> core \<times> (agent_error + unit)" where
  "adopt_configuration_of H i key c =
     (let c = c\<lparr>co_disk := fst (export_backup (h_fault H) (h_identity_codec H) (h_doc_codec H)
                 (h_backup_codec H) (h_new_identity H) (h_store H) (rescue_file H) (co_disk c))\<rparr>;
          c = c\<lparr>co_doc := None, co_online := co_online c - {i},
              co_pending_trust := bt_insert i key (co_pending_trust c)\<rparr>
      in case clear_workspace (h_fault H) (h_store H) (co_disk c) of
           (disk, Inl e) \<Rightarrow> (c\<lparr>co_disk := disk\<rparr>, Inl (CoreFailed e))
         | (disk, Inr _) \<Rightarrow> (agent_rescan H (request Changed (c\<lparr>co_disk := disk\<rparr>)), Inr ()))"

section \<open>The sharing switch\<close>

definition note_cursor_owner :: "machine_id option \<Rightarrow> core \<Rightarrow> core" where
  "note_cursor_owner new c =
     (if co_cursor_owner c \<noteq> new then request Changed (c\<lparr>co_cursor_owner := new\<rparr>) else c)"

definition set_remote_input_sink :: "bool \<Rightarrow> core \<Rightarrow> core" where
  "set_remote_input_sink on c = c\<lparr>co_remote_input := (if on then Some [] else None)\<rparr>"

definition take_announced_owner :: "core \<Rightarrow> core \<times> machine_id option" where
  "take_announced_owner c = (c\<lparr>co_announced_owner := None\<rparr>, co_announced_owner c)"

definition sharing_was_on :: "host \<Rightarrow> core \<Rightarrow> bool" where
  "sharing_was_on H c = sharing (load_prefs (h_fault H) (h_prefs_codec H) (h_store H) (co_disk c))"

definition remember_sharing :: "host \<Rightarrow> bool \<Rightarrow> core \<Rightarrow> core" where
  "remember_sharing H enabled c =
     (let prefs = load_prefs (h_fault H) (h_prefs_codec H) (h_store H) (co_disk c) in
      if sharing prefs = enabled then c
      else c\<lparr>co_disk := fst (save_prefs (h_fault H) (h_prefs_codec H) (h_store H)
             (prefs\<lparr>sharing := enabled\<rparr>) (co_disk c))\<rparr>)"

text \<open>\<open>started\<close> is what \<^verbatim>\<open>sharing::start\<close> answered.\<close>

definition set_sharing :: "host \<Rightarrow> bool \<Rightarrow> agent_error + unit \<Rightarrow> core \<Rightarrow> core \<times> (agent_error + unit)" where
  "set_sharing H enabled started c =
     (let c = remember_sharing H enabled c in
      if enabled = co_sharing c then (c, Inr ())
      else if enabled
      then (case started of
              Inl e \<Rightarrow> (c, Inl e)
            | Inr _ \<Rightarrow> (request Changed (c\<lparr>co_sharing := True\<rparr>), Inr ()))
      else (request Changed (note_cursor_owner None (c\<lparr>co_sharing := False\<rparr>)), Inr ()))"

section \<open>What the network reports\<close>

definition should_yield :: "workspace_doc \<Rightarrow> workspace_id \<Rightarrow> u32 \<Rightarrow> bool" where
  "should_yield ours their_workspace their_size =
     (let our_size = of_nat (length (machines_present ours)) :: u32 in
      if our_size < their_size then True
      else if their_size < our_size then False
      else their_workspace < doc_workspace_id ours)"

fun on_net_event :: "host \<Rightarrow> event \<Rightarrow> core \<Rightarrow> core" where
  "on_net_event H (EvDifferentWorkspaces i name key theirs their_size) c =
     (case co_doc c of
        None \<Rightarrow> c
      | Some d \<Rightarrow> if should_yield d theirs their_size then fst (adopt_configuration_of H i key c) else c)"
| "on_net_event H (EvOnline i) c =
     request Changed (c\<lparr>co_online := insert i (co_online c), co_candidates := bt_remove i (co_candidates c)\<rparr>)"
| "on_net_event H (EvOffline i reason) c = request Changed (c\<lparr>co_online := co_online c - {i}\<rparr>)"
| "on_net_event H (EvCandidate i name key workspace addr invited) c =
     request Changed (c\<lparr>co_candidates := bt_insert i
       \<lparr>fm_machine_id = i, fm_display_name = name, fm_identity_key = key, fm_invited_us = invited,
        fm_addr = addr, fm_last_seen_ms = h_now H, fm_has_workspace = workspace \<noteq> None\<rparr> (co_candidates c)\<rparr>)"
| "on_net_event H (EvRejected i key addr) c =
     request Changed (c\<lparr>co_candidates := bt_entry i
       \<lparr>fm_machine_id = i, fm_display_name = ''Unknown computer'', fm_identity_key = key,
        fm_invited_us = False, fm_addr = addr, fm_last_seen_ms = h_now H, fm_has_workspace = True\<rparr>
       (\<lambda>found. found) (co_candidates c)\<rparr>)"
| "on_net_event H EvWorkspaceChanged c = c"
| "on_net_event H (EvSighted i) c = c"
| "on_net_event H (EvConnecting i) c = c"

section \<open>What every operation keeps\<close>

text \<open>
  The document is a well-formed map this build can read, and the file on disk holds it, up to
  the clock: the clock alone may move without a write. Without a document there is no file.
\<close>

definition readable :: "workspace_doc \<Rightarrow> bool" where
  "readable d \<longleftrightarrow> bt_ok (machines d) \<and> schema_version d \<le> SCHEMA_VERSION"

definition same_content :: "workspace_doc \<Rightarrow> workspace_doc \<Rightarrow> bool" where
  "same_content d e \<longleftrightarrow> d\<lparr>doc_lamport := 0\<rparr> = e\<lparr>doc_lamport := 0\<rparr>"

definition doc_file :: "host \<Rightarrow> string" where
  "doc_file H = file_path (h_store H) WORKSPACE_FILE"

definition on_disk :: "host \<Rightarrow> core \<Rightarrow> bool" where
  "on_disk H c \<longleftrightarrow>
     (case co_doc c of
        None \<Rightarrow> co_disk c (doc_file H) = None
      | Some d \<Rightarrow> \<exists>e bs. enc (h_doc_codec H) e = Some bs \<and> co_disk c (doc_file H) = Some bs \<and> same_content e d)"

definition found_ok :: "(machine_id, found_machine) btree_map \<Rightarrow> bool" where
  "found_ok m \<longleftrightarrow> bt_ok m \<and> (\<forall>i f. bt_get m i = Some f \<longrightarrow> fm_machine_id f = i)"

text \<open>The identity file holds the identity this process runs under.\<close>

definition identity_ok :: "host \<Rightarrow> core \<Rightarrow> bool" where
  "identity_ok H c \<longleftrightarrow> (\<exists>bs. co_disk c (file_path (h_store H) IDENTITY_FILE) = Some bs \<and>
     dec (h_identity_codec H) bs = Some (co_identity c))"

definition core_inv :: "host \<Rightarrow> core \<Rightarrow> bool" where
  "core_inv H c \<longleftrightarrow> (\<forall>d. co_doc c = Some d \<longrightarrow> readable d) \<and> on_disk H c \<and> identity_ok H c \<and>
     found_ok (co_candidates c) \<and> bt_ok (co_pending_trust c)"

definition writes_work :: "host \<Rightarrow> bool" where
  "writes_work H \<longleftrightarrow> h_fault H = no_fault \<and> (\<forall>d. enc (h_doc_codec H) d \<noteq> None)"

lemma request_fields [simp]:
  "co_identity (request q c) = co_identity c" "co_disk (request q c) = co_disk c"
  "co_doc (request q c) = co_doc c" "co_online (request q c) = co_online c"
  "co_candidates (request q c) = co_candidates c" "co_pending_trust (request q c) = co_pending_trust c"
  "co_sharing (request q c) = co_sharing c" "co_cursor_owner (request q c) = co_cursor_owner c"
  "co_remote_input (request q c) = co_remote_input c" "co_announced_owner (request q c) = co_announced_owner c"
  "co_manual_peers (request q c) = co_manual_peers c" "co_requests (request q c) = co_requests c @ [q]"
  by (simp_all add: request_def)

lemma persist_fields [simp]:
  "co_identity (persist H c) = co_identity c" "co_doc (persist H c) = co_doc c"
  "co_online (persist H c) = co_online c" "co_candidates (persist H c) = co_candidates c"
  "co_pending_trust (persist H c) = co_pending_trust c" "co_sharing (persist H c) = co_sharing c"
  "co_requests (persist H c) = co_requests c" "co_remote_input (persist H c) = co_remote_input c"
  by (simp_all add: persist_def split: option.split)

lemma core_inv_same:
  "core_inv H c \<Longrightarrow> co_identity c' = co_identity c \<Longrightarrow> co_doc c' = co_doc c \<Longrightarrow> co_disk c' = co_disk c \<Longrightarrow> found_ok (co_candidates c') \<Longrightarrow>
     bt_ok (co_pending_trust c') \<Longrightarrow> core_inv H c'"
  by (cases "co_doc c") (simp_all add: core_inv_def on_disk_def identity_ok_def)

lemma same_content_refl [simp]: "same_content d d"
  by (simp add: same_content_def)

lemma persist_writes:
  assumes "writes_work H" and "co_doc c = Some d"
  shows "\<exists>bs. enc (h_doc_codec H) d = Some bs \<and> co_disk (persist H c) (doc_file H) = Some bs"
proof -
  obtain bs where bs: "enc (h_doc_codec H) d = Some bs" using assms(1) by (auto simp: writes_work_def)
  obtain d' where "save_workspace (h_fault H) (h_doc_codec H) (h_store H) d (co_disk c) = (d', Inr ())"
    using write_atomic_no_fault [OF bs, of "h_store H" WORKSPACE_FILE "co_disk c"] assms(1) by (auto simp: save_workspace_def writes_work_def)
  with write_atomic_path [OF this [unfolded save_workspace_def]] assms(2) bs show ?thesis
    by (simp add: persist_def doc_file_def)
qed

lemma persist_identity: "identity_ok H (persist H c) = identity_ok H c"
proof (cases "co_doc c")
  case (Some d)
  obtain d' r where "write_atomic (h_fault H) (h_doc_codec H) (h_store H) WORKSPACE_FILE d (co_disk c) = (d', r)"
    by fastforce
  from other_file [OF this, of IDENTITY_FILE] this Some show ?thesis
    by (simp add: identity_ok_def persist_def save_workspace_def)
qed (simp add: persist_def)

lemma persist_inv:
  assumes "writes_work H" and "co_doc c = Some d" and "readable d" and "identity_ok H c"
    and "found_ok (co_candidates c)" and "bt_ok (co_pending_trust c)"
  shows "core_inv H (persist H c)"
proof -
  obtain bs where "enc (h_doc_codec H) d = Some bs" "co_disk (persist H c) (doc_file H) = Some bs"
    using persist_writes [OF assms(1,2)] by blast
  then show ?thesis
    using assms(2-6) by (auto simp: core_inv_def on_disk_def persist_identity intro: same_content_refl)
qed

text \<open>The document operations keep maps in order and the schema version.\<close>

lemma put_slot_ok: "bt_ok m \<Longrightarrow> put_slot i slot m = (m', ch) \<Longrightarrow> bt_ok m'"
  using ok_put_slot [of m i slot] by simp

lemma merge_slots_readable:
  "merge_slots es (d, ch) = (d', ch') \<Longrightarrow> readable d \<Longrightarrow> readable d'"
proof (induction es "(d, ch)" arbitrary: d ch rule: merge_slots.induct)
  case (2 i slot es d ch)
  obtain d2 c2 where step: "merge_slot i slot (observe (st_lamport (slot_stamp slot)) d) = (d2, c2)" by fastforce
  then have "readable d2"
    using 2(3) by (auto simp: merge_slot_def readable_def observe_def dest: put_slot_ok split: prod.splits)
  with 2(1) [OF refl step [symmetric] refl] 2(2) step show ?case by (simp add: Let_def)
qed simp

lemma merge_doc_readable: "merge_doc d e = Inr (d', ch) \<Longrightarrow> readable d \<Longrightarrow> readable d'"
  by (auto simp: merge_doc_def Let_def merge_name_def merge_settings_def readable_def observe_def
      split: sum.splits prod.splits dest!: merge_slots_readable)

lemma apply_op_readable: "apply_op oper stamp d = (d', ch) \<Longrightarrow> readable d \<Longrightarrow> readable d'"
  by (cases oper) (auto simp: merge_name_def merge_settings_def merge_slot_def readable_def
      dest: put_slot_ok split: prod.splits)

lemma apply_update_readable: "apply_update u d = Inr (d', ch) \<Longrightarrow> readable d \<Longrightarrow> readable d'"
  using apply_op_readable [of "upd_op u" "upd_stamp u" "observe (st_lamport (upd_stamp u)) d" d' ch]
  by (auto simp: apply_update_def readable_def observe_def split: sum.splits)

lemma edit_readable:
  "readable d \<Longrightarrow> readable (fst (set_name now i n d))" "readable d \<Longrightarrow> readable (fst (set_settings now i s d))"
  "readable d \<Longrightarrow> readable (fst (upsert_machine now i r d))"
  "readable d \<Longrightarrow> readable (fst (remove_machine now i j d))"
  by (simp_all add: edit_defs Let_def readable_def bt_ok_insert)

text \<open>An operation of the document that reports no change moved at most its clock.\<close>

lemma merge_unchanged: "merge_doc d e = Inr (d', False) \<Longrightarrow> readable d \<Longrightarrow> same_content d d'"
proof -
  assume "merge_doc d e = Inr (d', False)" and "readable d"
  then have "d' = d\<lparr>doc_lamport := doc_lamport d'\<rparr>" using merge_flag_iff [of d e d' False] by (simp add: readable_def)
  then have "d'\<lparr>doc_lamport := 0\<rparr> = d\<lparr>doc_lamport := doc_lamport d'\<rparr>\<lparr>doc_lamport := 0\<rparr>" by (rule arg_cong)
  then show ?thesis by (simp add: same_content_def)
qed

lemma unchanged_parts:
  "put_slot i slot m = (m', False) \<Longrightarrow> m' = m" "lww_merge x y = (z, False) \<Longrightarrow> z = x"
  using put_slot_unchanged [of i slot m] lww_merge_unchanged [of x y] by simp_all

lemma apply_unchanged: "apply_update u d = Inr (d', False) \<Longrightarrow> same_content d d'"
  by (cases "upd_op u")
    (auto simp: apply_update_def merge_name_def merge_settings_def merge_slot_def observe_def same_content_def
      split: sum.splits prod.splits dest!: unchanged_parts)

lemma drop_adopted_ok: "bt_ok trust \<Longrightarrow> bt_ok (drop_adopted d trust)"
proof -
  have "bt_ok trust \<Longrightarrow> bt_ok (fold bt_remove ids trust)" for ids
    by (induction ids arbitrary: trust) (simp_all add: bt_ok_remove)
  then show "bt_ok trust \<Longrightarrow> ?thesis" by (simp add: drop_adopted_def)
qed

lemma get_drop_adopted:
  "bt_get (drop_adopted d trust) i = (if machine i d \<noteq> None then None else bt_get trust i)"
proof -
  have get: "bt_get (fold bt_remove ids trust) i = (if i \<in> set ids then None else bt_get trust i)" for ids
    by (induction ids arbitrary: trust) (auto simp: bt_get_remove)
  have "i \<in> set (bt_keys trust) \<longleftrightarrow> bt_get trust i \<noteq> None"
    using bt_dom [of trust] by (auto simp: bt_keys_def)
  then show ?thesis by (cases "bt_get trust i") (simp_all add: drop_adopted_def get)
qed

lemma request_inv [simp]: "core_inv H (request q c) = core_inv H c"
  by (cases "co_doc c") (simp_all add: core_inv_def on_disk_def identity_ok_def)

lemma core_invD:
  "core_inv H c \<Longrightarrow> found_ok (co_candidates c)" "core_inv H c \<Longrightarrow> bt_ok (co_pending_trust c)"
  "core_inv H c \<Longrightarrow> co_doc c = Some d \<Longrightarrow> readable d" "core_inv H c \<Longrightarrow> on_disk H c"
  "core_inv H c \<Longrightarrow> identity_ok H c"
  by (simp_all add: core_inv_def)

text \<open>A change of the clock alone is not written, and the file still holds the document.\<close>

lemma identity_ok_fields [simp]:
  "identity_ok H (request q c) = identity_ok H c" "identity_ok H (c\<lparr>co_doc := doc\<rparr>) = identity_ok H c"
  "identity_ok H (c\<lparr>co_pending_trust := trust\<rparr>) = identity_ok H c"
  by (simp_all add: identity_ok_def)

lemma clock_only_inv:
  assumes "core_inv H c" and "co_doc c = Some d" and "same_content d d'" and "readable d'"
  shows "core_inv H (c\<lparr>co_doc := Some d'\<rparr>)"
  using assms by (auto simp: core_inv_def on_disk_def same_content_def)

lemma core_merge_inv:
  assumes "writes_work H" and "core_inv H c" and "readable incoming"
  shows "core_inv H (fst (core_merge H incoming c))"
proof (cases "case co_doc c of Some d \<Rightarrow> merge_doc d incoming | None \<Rightarrow> Inr (incoming, True)")
  case (Inl e)
  then show ?thesis using assms(2) by (simp add: core_merge_def)
next
  case (Inr r)
  obtain d' ch where r: "r = (d', ch)" by fastforce
  have ok: "readable d'" using Inr r assms core_invD(3) [OF assms(2)]
    by (auto split: option.splits dest: merge_doc_readable)
  show ?thesis
  proof (cases ch)
    case True
    then show ?thesis
      using Inr r ok core_invD(1,2,5) [OF assms(2)]
      by (simp add: core_merge_def Let_def persist_inv [OF assms(1)] drop_adopted_ok)
  next
    case False
    then obtain d where "co_doc c = Some d" "merge_doc d incoming = Inr (d', False)"
      using Inr r by (auto split: option.splits)
    then show ?thesis
      using Inr r False ok clock_only_inv [OF assms(2)] merge_unchanged core_invD(3) [OF assms(2)]
      by (simp add: core_merge_def Let_def)
  qed
qed

lemma core_apply_inv:
  assumes "writes_work H" and "core_inv H c"
  shows "core_inv H (fst (core_apply H u c))"
proof (cases "co_doc c")
  case None
  then show ?thesis using assms(2) by (simp add: core_apply_def)
next
  case (Some d)
  show ?thesis
  proof (cases "apply_update u d")
    case (Inl e)
    then show ?thesis using assms(2) Some by (simp add: core_apply_def)
  next
    case (Inr r)
    obtain d' ch where r: "r = (d', ch)" by fastforce
    have ok: "readable d'" using Inr r Some core_invD(3) [OF assms(2)] by (auto dest: apply_update_readable)
    show ?thesis
      using Some Inr r ok core_invD(1,2,5) [OF assms(2)] clock_only_inv [OF assms(2) Some] apply_unchanged
      by (cases ch) (simp_all add: core_apply_def Let_def persist_inv [OF assms(1)])
  qed
qed

lemma inject_all_fields [simp]:
  "co_doc (inject_all H es c) = co_doc c" "co_disk (inject_all H es c) = co_disk c"
  "co_candidates (inject_all H es c) = co_candidates c" "co_pending_trust (inject_all H es c) = co_pending_trust c"
  "co_online (inject_all H es c) = co_online c" "co_identity (inject_all H es c) = co_identity c"
  by (induction es arbitrary: c) (simp_all split: option.split)

lemma core_on_input_inv: "core_inv H c \<Longrightarrow> core_inv H (core_on_input H' i es c)"
  by (rule core_inv_same [of H c]) (simp_all add: core_on_input_def core_invD split: option.split)

lemma core_on_cursor_owner_inv: "core_inv H c \<Longrightarrow> core_inv H (core_on_cursor_owner i m c)"
  by (rule core_inv_same [of H c]) (simp_all add: core_on_cursor_owner_def core_invD)

text \<open>The agent is a host for sessions.\<close>

definition agent_host :: "host \<Rightarrow> core \<Rightarrow> bool" where
  "agent_host H c \<longleftrightarrow> writes_work H \<longrightarrow> core_inv H c"

interpretation host: workspace_host "core_workspace H" "agent_host H" readable for H
proof
  show "agent_host H s \<Longrightarrow> readable d \<Longrightarrow> agent_host H (fst (ws_merge (core_workspace H) d s))" for s d
    by (simp add: agent_host_def core_workspace_def core_merge_inv)
  show "agent_host H s \<Longrightarrow> agent_host H (fst (ws_apply (core_workspace H) u s))" for s u
    by (simp add: agent_host_def core_workspace_def core_apply_inv)
  show "agent_host H s \<Longrightarrow> agent_host H (ws_on_input (core_workspace H) i es s)" for s i es
    by (simp add: agent_host_def core_workspace_def core_on_input_inv)
  show "agent_host H s \<Longrightarrow> agent_host H (ws_on_cursor_owner (core_workspace H) i m s)" for s i m
    by (simp add: agent_host_def core_workspace_def core_on_cursor_owner_inv)
  show "ws_merge (core_workspace H) d s = (s', Inl e) \<Longrightarrow> s' = s" for d s s' e
    by (auto simp: core_workspace_def core_merge_def Let_def split: sum.splits option.splits prod.splits if_splits)
  show "ws_apply (core_workspace H) u s = (s', Inl e) \<Longrightarrow> s' = s" for u s s' e
    by (auto simp: core_workspace_def core_apply_def Let_def split: sum.splits option.splits prod.splits if_splits)
qed

lemma mutate_inv:
  assumes "writes_work H" and "core_inv H c" and "\<And>i d. readable d \<Longrightarrow> readable (fst (change i d))"
  shows "core_inv H (fst (mutate H change c))"
proof (cases "co_doc c")
  case None
  then show ?thesis using assms(2) by (simp add: mutate_def)
next
  case (Some d)
  obtain d' u where ch: "change (id_machine_id (co_identity c)) d = (d', u)" by fastforce
  then have "readable d'"
    using assms(3) [OF core_invD(3) [OF assms(2) Some], of "id_machine_id (co_identity c)"] by simp
  then show ?thesis
    using Some ch core_invD(1,2,5) [OF assms(2)] by (simp add: mutate_def Let_def persist_inv [OF assms(1)])
qed

lemmas edit_inv = mutate_inv [OF _ _ edit_readable(1)] mutate_inv [OF _ _ edit_readable(2)]
  mutate_inv [OF _ _ edit_readable(3)] mutate_inv [OF _ _ edit_readable(4)]

lemma found_ok_remove: "found_ok m \<Longrightarrow> found_ok (bt_remove i m)"
  by (simp add: found_ok_def bt_ok_remove bt_get_remove)

lemma found_ok_insert: "found_ok m \<Longrightarrow> fm_machine_id f = i \<Longrightarrow> found_ok (bt_insert i f m)"
  by (auto simp: found_ok_def bt_ok_insert bt_get_insert)

lemma found_ok_entry: "found_ok m \<Longrightarrow> fm_machine_id f = i \<Longrightarrow> found_ok (bt_entry i f (\<lambda>x. x) m)"
  by (auto simp: found_ok_def bt_ok_entry bt_get_entry split: option.splits)

lemma agent_upsert_inv:
  "writes_work H \<Longrightarrow> core_inv H c \<Longrightarrow> core_inv H (fst (agent_upsert_machine H r c))"
  by (simp add: agent_upsert_machine_def edit_inv)

lemma trust_inv: "core_inv H c \<Longrightarrow> core_inv H (c\<lparr>co_pending_trust := bt_insert i k (co_pending_trust c)\<rparr>)"
  by (rule core_inv_same [of H c]) (simp_all add: core_invD bt_ok_insert)

lemma forget_found_inv: "core_inv H c \<Longrightarrow> core_inv H (c\<lparr>co_candidates := bt_remove i (co_candidates c)\<rparr>)"
  by (rule core_inv_same [of H c]) (simp_all add: core_invD found_ok_remove)

lemma online_inv [simp]: "core_inv H (c\<lparr>co_online := s\<rparr>) = core_inv H c"
  by (cases "co_doc c") (simp_all add: core_inv_def on_disk_def identity_ok_def)

text \<open>A step that runs an edit and then a follow-up when it succeeded.\<close>

definition and_then :: "core \<times> (agent_error + unit) \<Rightarrow> (core \<Rightarrow> core) \<Rightarrow> 'a \<Rightarrow> core \<times> (agent_error + 'a)" where
  "and_then r g x = (case r of (c, Inl e) \<Rightarrow> (c, Inl e) | (c, Inr _) \<Rightarrow> (g c, Inr x))"

lemma and_then_inv:
  assumes "core_inv H (fst r)" and "\<And>c. core_inv H c \<Longrightarrow> core_inv H (g c)"
  shows "core_inv H (fst (and_then r g x))"
  using assms by (auto simp: and_then_def split: prod.split sum.split)

lemma pair_inv: "writes_work H \<Longrightarrow> core_inv H c \<Longrightarrow> core_inv H (fst (pair H i c))"
  unfolding pair_def Let_def and_then_def [where x = "()", symmetric]
  by (auto intro!: trust_inv and_then_inv edit_inv(3) forget_found_inv split: option.split)

lemma unpair_inv: "writes_work H \<Longrightarrow> core_inv H c \<Longrightarrow> core_inv H (fst (unpair H i c))"
  unfolding unpair_def and_then_def [where x = "()", symmetric]
  by (auto intro!: and_then_inv edit_inv(4))

lemma publish_inv: "writes_work H \<Longrightarrow> core_inv H c \<Longrightarrow> core_inv H (fst (publish_local_facts H c))"
  unfolding publish_local_facts_def Let_def and_then_def [where g = "\<lambda>c. c" and x = True, symmetric]
  by (auto intro!: and_then_inv agent_upsert_inv split: option.split)

lemma rename_inv: "writes_work H \<Longrightarrow> core_inv H c \<Longrightarrow> core_inv H (fst (rename_this_machine H name c))"
  by (auto simp: rename_this_machine_def intro: agent_upsert_inv split: option.split)

lemma identity_read:
  "identity_ok H c \<Longrightarrow> read_with_fallback no_fault (h_identity_codec H) (h_store H) IDENTITY_FILE (co_disk c) =
     Inr (Some (co_identity c))"
  by (rule read_primary) (auto simp: identity_ok_def read_json_def no_fault_def)

lemma rescue_is_not_identity: "rescue_file H \<noteq> file_path (h_store H) IDENTITY_FILE"
  by (simp add: rescue_file_def IDENTITY_FILE_def)

lemma export_keeps_identity:
  assumes "writes_work H" and "identity_ok H c"
  shows "fst (export_backup (h_fault H) (h_identity_codec H) (h_doc_codec H) (h_backup_codec H)
      (h_new_identity H) (h_store H) (rescue_file H) (co_disk c)) (file_path (h_store H) IDENTITY_FILE) =
    co_disk c (file_path (h_store H) IDENTITY_FILE)"
proof -
  have F: "h_fault H = no_fault" using assms(1) by (simp add: writes_work_def)
  from load_existing_identity [OF identity_read [OF assms(2)]] rescue_is_not_identity [of H, symmetric] show ?thesis
    by (auto simp: F export_backup_def fs_defs no_fault_def split: sum.split option.split)
qed

lemma adopt_doc_file:
  assumes "writes_work H" and "adopt_configuration_of H i key c = (c', r)" and "identity_ok H c"
  shows "identity_ok H c' \<and> r = Inr () \<and> co_doc c' = None \<and> co_disk c' (doc_file H) = None \<and>
    co_pending_trust c' = bt_insert i key (co_pending_trust c) \<and> co_candidates c' = co_candidates c"
proof -
  have none: "fails (h_fault H) = (\<lambda>_. None)" using assms(1) by (simp add: writes_work_def no_fault_def)
  let ?d = "fst (export_backup (h_fault H) (h_identity_codec H) (h_doc_codec H)
      (h_backup_codec H) (h_new_identity H) (h_store H) (rescue_file H) (co_disk c))"
  obtain d' where cl: "clear_workspace (h_fault H) (h_store H) ?d = (d', Inr ())"
    using remove_files_total [OF none] unfolding clear_workspace_def by blast
  note cleared = remove_files_ok [OF cl [unfolded clear_workspace_def] none]
  have "d' (doc_file H) = None" by (simp add: cleared doc_file_def)
  moreover have "d' (file_path (h_store H) IDENTITY_FILE) = co_disk c (file_path (h_store H) IDENTITY_FILE)"
    by (simp add: cleared export_keeps_identity [OF assms(1,3)])
  ultimately show ?thesis using assms(2,3) cl
    by (auto simp: adopt_configuration_of_def Let_def agent_rescan_def identity_ok_def)
qed

lemma adopt_inv:
  assumes "writes_work H" and "core_inv H c"
  shows "core_inv H (fst (adopt_configuration_of H i key c))"
proof -
  obtain c' r where "adopt_configuration_of H i key c = (c', r)" by fastforce
  with adopt_doc_file [OF assms(1) this core_invD(5) [OF assms(2)]] assms(2) show ?thesis
    by (simp add: core_inv_def on_disk_def bt_ok_insert)
qed

lemma on_net_event_inv: "writes_work H \<Longrightarrow> core_inv H c \<Longrightarrow> core_inv H (on_net_event H ev c)"
proof (induction ev)
  case (EvOnline i)
  then show ?case using forget_found_inv [of H c i] by (auto intro: core_inv_same [of H c] simp: core_invD found_ok_remove)
next
  case (EvCandidate i name key workspace addr invited)
  then show ?case by (auto intro!: core_inv_same [of H c] simp: core_invD found_ok_insert)
next
  case (EvRejected i key addr)
  then show ?case by (auto intro!: core_inv_same [of H c] simp: core_invD found_ok_entry)
qed (auto intro: adopt_inv split: option.split)

section \<open>Runs\<close>

datatype agent_command =
    Pair machine_id
  | Unpair machine_id
  | Upsert machine_record
  | RenameMachine string
  | RenameWorkspace string
  | ChangeSettings workspace_settings
  | Publish
  | TypeIn socket_addr
  | Forget socket_addr
  | Adopt machine_id pub_key
  | SetSharing bool "agent_error + unit"
  | NetEvent event
  | NoteCursorOwner "machine_id option"
  | SetSink bool
  | TakeAnnounced
  | PeerDocument workspace_doc
  | PeerUpdate workspace_update
  | PeerInput machine_id "input_event list"
  | PeerOwner machine_id machine_id

fun agent_do :: "host \<Rightarrow> agent_command \<Rightarrow> core \<Rightarrow> core" where
  "agent_do H (Pair i) c = fst (pair H i c)"
| "agent_do H (Unpair i) c = fst (unpair H i c)"
| "agent_do H (Upsert r) c = fst (agent_upsert_machine H r c)"
| "agent_do H (RenameMachine name) c = fst (rename_this_machine H name c)"
| "agent_do H (RenameWorkspace name) c = fst (rename_workspace H name c)"
| "agent_do H (ChangeSettings s) c = fst (update_settings H s c)"
| "agent_do H Publish c = fst (publish_local_facts H c)"
| "agent_do H (TypeIn a) c = add_manual_peer H a c"
| "agent_do H (Forget a) c = forget_manual_peer H a c"
| "agent_do H (Adopt i key) c = fst (adopt_configuration_of H i key c)"
| "agent_do H (SetSharing on started) c = fst (set_sharing H on started c)"
| "agent_do H (NetEvent ev) c = on_net_event H ev c"
| "agent_do H (NoteCursorOwner m) c = note_cursor_owner m c"
| "agent_do H (SetSink on) c = set_remote_input_sink on c"
| "agent_do H TakeAnnounced c = fst (take_announced_owner c)"
| "agent_do H (PeerDocument d) c = fst (core_merge H d c)"
| "agent_do H (PeerUpdate u) c = fst (core_apply H u c)"
| "agent_do H (PeerInput i es) c = core_on_input H i es c"
| "agent_do H (PeerOwner i m) c = core_on_cursor_owner i m c"

definition agent_run :: "(host \<times> agent_command) list \<Rightarrow> core \<Rightarrow> core" where
  "agent_run tr c = fold (\<lambda>(H, cmd). agent_do H cmd) tr c"

text \<open>Clocks, screens and faults differ from one step to the next; the files and their format do not.\<close>

fun healthy :: "host \<Rightarrow> host \<times> agent_command \<Rightarrow> bool" where
  "healthy H (H', cmd) \<longleftrightarrow> writes_work H' \<and> h_store H' = h_store H \<and> h_doc_codec H' = h_doc_codec H \<and>
     h_identity_codec H' = h_identity_codec H \<and> (\<forall>d. cmd = PeerDocument d \<longrightarrow> readable d)"

lemma remember_sharing_fields:
  "co_doc (remember_sharing H b c) = co_doc c \<and> co_candidates (remember_sharing H b c) = co_candidates c \<and>
     co_pending_trust (remember_sharing H b c) = co_pending_trust c \<and>
     co_disk (remember_sharing H b c) (doc_file H) = co_disk c (doc_file H) \<and>
     co_identity (remember_sharing H b c) = co_identity c \<and>
     co_disk (remember_sharing H b c) (file_path (h_store H) IDENTITY_FILE) =
       co_disk c (file_path (h_store H) IDENTITY_FILE)"
proof -
  let ?p = "(load_prefs (h_fault H) (h_prefs_codec H) (h_store H) (co_disk c))\<lparr>sharing := b\<rparr>"
  obtain d r where w: "write_atomic (h_fault H) (h_prefs_codec H) (h_store H) PREFS_FILE ?p (co_disk c) = (d, r)"
    by fastforce
  have "WORKSPACE_FILE \<notin> {PREFS_FILE, PREFS_FILE @ ''.tmp'', PREFS_FILE @ ''.bak''}"
    and "IDENTITY_FILE \<notin> {PREFS_FILE, PREFS_FILE @ ''.tmp'', PREFS_FILE @ ''.bak''}"
    by (simp_all add: WORKSPACE_FILE_def IDENTITY_FILE_def PREFS_FILE_def)
  from this [THEN other_file [OF w]] show ?thesis
    by (simp add: remember_sharing_def save_prefs_def Let_def w doc_file_def)
qed

lemma disk_inv:
  "core_inv H c \<Longrightarrow> co_identity c' = co_identity c \<Longrightarrow> co_disk c' (file_path (h_store H) IDENTITY_FILE) =
     co_disk c (file_path (h_store H) IDENTITY_FILE) \<Longrightarrow> co_doc c' = co_doc c \<Longrightarrow> co_disk c' (doc_file H) = co_disk c (doc_file H) \<Longrightarrow>
     co_candidates c' = co_candidates c \<Longrightarrow> co_pending_trust c' = co_pending_trust c \<Longrightarrow> core_inv H c'"
  by (cases "co_doc c") (simp_all add: core_inv_def on_disk_def identity_ok_def)

lemma set_sharing_inv: "core_inv H c \<Longrightarrow> core_inv H (fst (set_sharing H on started c))"
  using remember_sharing_fields [of H on c]
  by - (rule disk_inv [of H c], auto simp: set_sharing_def Let_def note_cursor_owner_def split: sum.split)

lemma bookkeeping_inv:
  assumes "core_inv H c"
  shows "core_inv H (add_manual_peer H' a c)" "core_inv H (forget_manual_peer H' a c)"
    "core_inv H (note_cursor_owner m c)" "core_inv H (set_remote_input_sink on c)"
    "core_inv H (fst (take_announced_owner c))"
  by (rule disk_inv [OF assms]; simp add: add_manual_peer_def forget_manual_peer_def note_cursor_owner_def
      set_remote_input_sink_def take_announced_owner_def Let_def)+

lemma rename_workspace_inv: "writes_work H \<Longrightarrow> core_inv H c \<Longrightarrow> core_inv H (fst (rename_workspace H name c))"
  by (simp add: rename_workspace_def edit_inv)

lemma update_settings_inv: "writes_work H \<Longrightarrow> core_inv H c \<Longrightarrow> core_inv H (fst (update_settings H s c))"
  by (simp add: update_settings_def edit_inv)

lemmas step_inv = pair_inv unpair_inv agent_upsert_inv rename_inv rename_workspace_inv update_settings_inv
  publish_inv adopt_inv set_sharing_inv on_net_event_inv core_merge_inv core_apply_inv core_on_input_inv
  core_on_cursor_owner_inv bookkeeping_inv

lemma agent_do_inv:
  "writes_work H \<Longrightarrow> core_inv H c \<Longrightarrow> (\<And>d. cmd = PeerDocument d \<Longrightarrow> readable d) \<Longrightarrow>
     core_inv H (agent_do H cmd c)"
  by (cases cmd) (simp_all only: agent_do.simps step_inv)

lemma core_inv_host: "h_store H' = h_store H \<Longrightarrow> h_doc_codec H' = h_doc_codec H \<Longrightarrow>
     h_identity_codec H' = h_identity_codec H \<Longrightarrow> core_inv H' c = core_inv H c"
  by (cases "co_doc c") (simp_all add: core_inv_def on_disk_def identity_ok_def doc_file_def)

lemma agent_run_inv: "core_inv H c \<Longrightarrow> list_all (healthy H) tr \<Longrightarrow> core_inv H (agent_run tr c)"
proof (induction tr arbitrary: c)
  case (Cons e tr)
  obtain H' cmd where e: "e = (H', cmd)" by fastforce
  with Cons.prems agent_do_inv [of H' c cmd] core_inv_host [of H' H] have "core_inv H (agent_do H' cmd c)"
    by auto
  with Cons e show ?case by (simp add: agent_run_def)
qed (simp add: agent_run_def)

section \<open>Starting and restarting\<close>

text \<open>A file this program wrote: what is in it is the encoding of the value it decodes to.\<close>

definition own_file :: "'a codec \<Rightarrow> ('a \<Rightarrow> bool) \<Rightarrow> bytes option \<Rightarrow> bool" where
  "own_file cd good contents \<longleftrightarrow>
     (case contents of None \<Rightarrow> True | Some bs \<Rightarrow> \<exists>v. enc cd v = Some bs \<and> dec cd bs = Some v \<and> good v)"

lemma own_file_read:
  "own_file cd good (d (file_path st name)) \<Longrightarrow>
     \<exists>x. read_with_fallback no_fault cd st name d = Inr x \<and> (x = None \<longleftrightarrow> d (file_path st name) = None) \<and>
       (\<forall>v. x = Some v \<longrightarrow> good v \<and> (\<exists>bs. d (file_path st name) = Some bs \<and> enc cd v = Some bs \<and> dec cd bs = Some v))"
  by (auto simp: own_file_def read_with_fallback_def read_json_def no_fault_def split: option.splits)

lemma load_identity_ok:
  assumes "own_file ci (\<lambda>_. True) (d (file_path st IDENTITY_FILE))" and "reads_back ci new"
    and "load_or_create_identity no_fault ci new st d = (d', Inr i)"
  shows "(\<exists>bs. d' (file_path st IDENTITY_FILE) = Some bs \<and> dec ci bs = Some i) \<and>
    d' (file_path st WORKSPACE_FILE) = d (file_path st WORKSPACE_FILE)"
proof -
  from own_file_read [where d = d, OF assms(1)] obtain x where x: "read_with_fallback no_fault ci st IDENTITY_FILE d = Inr x"
    and some: "\<And>v. x = Some v \<Longrightarrow> \<exists>bs. d (file_path st IDENTITY_FILE) = Some bs \<and> dec ci bs = Some v"
    by auto
  show ?thesis
  proof (cases x)
    case (Some j)
    then show ?thesis using some x assms(3) by (simp add: load_or_create_identity_def)
  next
    case None
    obtain r where w: "write_atomic no_fault ci st IDENTITY_FILE new d = (d', r)" and "r = Inr ()" "i = new"
      using assms(3) x None
      by (auto simp: load_or_create_identity_def fs_bind_def fs_return_def split: prod.splits sum.splits)
    moreover have "WORKSPACE_FILE \<notin> {IDENTITY_FILE, IDENTITY_FILE @ ''.tmp'', IDENTITY_FILE @ ''.bak''}"
      by simp
    ultimately show ?thesis
      using write_atomic_path [OF w] other_file [OF w] assms(2) by (auto simp: reads_back_def)
  qed
qed

lemma agent_load_inv:
  assumes "agent_load H d = (d', Inr c)" and "writes_work H"
    and "own_file (h_doc_codec H) (\<lambda>e. bt_ok (machines e)) (d (doc_file H))"
    and "own_file (h_identity_codec H) (\<lambda>_. True) (d (file_path (h_store H) IDENTITY_FILE))"
    and "reads_back (h_identity_codec H) (h_new_identity H)"
  shows "core_inv H c \<and> co_disk c = d'"
proof -
  have F: "h_fault H = no_fault" using assms(2) by (simp add: writes_work_def)
  obtain d1 i where id: "load_or_create_identity no_fault (h_identity_codec H) (h_new_identity H) (h_store H) d = (d1, Inr i)"
    using assms(1) by (auto simp: agent_load_def Let_def F split: prod.splits sum.splits)
  note id1 = load_identity_ok [OF assms(4,5) id]
  then have "own_file (h_doc_codec H) (\<lambda>e. bt_ok (machines e)) (d1 (file_path (h_store H) WORKSPACE_FILE))"
    using assms(3) by (simp add: doc_file_def)
  from own_file_read [where d = d1, OF this] obtain x where x: "read_with_fallback no_fault (h_doc_codec H) (h_store H) WORKSPACE_FILE d1 = Inr x"
    and some: "\<And>e. x = Some e \<Longrightarrow> bt_ok (machines e) \<and>
      (\<exists>bs. d1 (doc_file H) = Some bs \<and> enc (h_doc_codec H) e = Some bs)"
    by (auto simp: doc_file_def)
  show ?thesis
  proof (cases x)
    case (Some e)
    then show ?thesis
      using assms(1) id x some id1
      by (auto simp: agent_load_def Let_def F load_workspace_def core_inv_def on_disk_def identity_ok_def
          readable_def found_ok_def bt_empty_def bt_get_def intro!: exI [of _ e] split: if_splits)
  next
    case None
    let ?doc = "create (h_now H) (h_new_workspace H) (computer_name H) (local_record H i)"
    obtain bs where bs: "enc (h_doc_codec H) ?doc = Some bs" using assms(2) by (auto simp: writes_work_def)
    obtain d2 where w: "write_atomic no_fault (h_doc_codec H) (h_store H) WORKSPACE_FILE ?doc d1 = (d2, Inr ())"
      using write_atomic_no_fault [OF bs, of "h_store H" WORKSPACE_FILE d1] by auto
    have "readable ?doc"
      using doc_wf_ok [OF doc_wf_create] by (simp add: readable_def) (simp add: create_def Let_def)
    moreover have "d2 (file_path (h_store H) IDENTITY_FILE) = d1 (file_path (h_store H) IDENTITY_FILE)"
      using other_file [OF w, of IDENTITY_FILE] by simp
    ultimately show ?thesis
      using assms(1) id x None id1 write_atomic_path [OF w] bs
      by (auto simp: agent_load_def Let_def F load_workspace_def save_workspace_def w core_inv_def on_disk_def
          identity_ok_def found_ok_def bt_empty_def bt_get_def doc_file_def intro!: exI [of _ ?doc])
  qed
qed

lemma restart:
  assumes "writes_work H" and "core_inv H c" and "co_doc c = Some d"
    and "\<And>e. same_content e d \<Longrightarrow> reads_back (h_doc_codec H) e"
  shows "\<exists>c' e. agent_load H (co_disk c) = (co_disk c, Inr c') \<and> co_identity c' = co_identity c \<and>
    co_doc c' = Some e \<and> same_content e d"
proof -
  have F: "h_fault H = no_fault" using assms(1) by (simp add: writes_work_def)
  note id = load_existing_identity [OF identity_read [OF core_invD(5) [OF assms(2)]], of "h_new_identity H"]
  obtain e bs where e: "enc (h_doc_codec H) e = Some bs" "co_disk c (doc_file H) = Some bs" "same_content e d"
    using core_invD(4) [OF assms(2)] assms(3) by (auto simp: on_disk_def)
  then have "dec (h_doc_codec H) bs = Some e" using assms(4) by (force simp: reads_back_def)
  with e have doc: "read_with_fallback no_fault (h_doc_codec H) (h_store H) WORKSPACE_FILE (co_disk c) = Inr (Some e)"
    by (intro read_primary) (simp add: read_json_def no_fault_def doc_file_def)
  have "schema_version e = schema_version d"
    using e(3) by (metis same_content_def workspace_doc.select_convs(2) workspace_doc.surjective workspace_doc.update_convs(4))
  with core_invD(3) [OF assms(2,3)] have "\<not> SCHEMA_VERSION < schema_version e" by (simp add: readable_def not_less)
  then show ?thesis
    using e(3) by (simp add: agent_load_def Let_def F id load_workspace_def doc)
qed

text \<open>
  A machine that has given its configuration up takes the first document it is sent as it is.
  If a newer build wrote it, it is saved, and the next start fails on it.
\<close>

lemma adopted_future_document_stops_restart:
  assumes "writes_work H" and "co_doc c = None" and "identity_ok H c"
    and "SCHEMA_VERSION < schema_version d" and "reads_back (h_doc_codec H) d"
  shows "\<exists>c' disk. core_merge H d c = (c', Inr True) \<and>
    agent_load H (co_disk c') = (disk, Inl (CoreFailed (SchemaVersion (schema_version d) SCHEMA_VERSION)))"
proof -
  let ?c = "c\<lparr>co_doc := Some d, co_pending_trust := drop_adopted d (co_pending_trust c)\<rparr>"
  let ?c' = "request Changed (persist H ?c)"
  have F: "h_fault H = no_fault" using assms(1) by (simp add: writes_work_def)
  obtain bs where bs: "enc (h_doc_codec H) d = Some bs" "co_disk (persist H ?c) (doc_file H) = Some bs"
    using persist_writes [OF assms(1), of ?c d] by auto
  with assms(5) have "read_with_fallback no_fault (h_doc_codec H) (h_store H) WORKSPACE_FILE (co_disk ?c') = Inr (Some d)"
    by (intro read_primary) (auto simp: read_json_def no_fault_def doc_file_def reads_back_def)
  moreover have "identity_ok H ?c'" using assms(3) persist_identity [of H ?c] by (simp add: identity_ok_def)
  note load_existing_identity [OF identity_read [OF this], of "h_new_identity H"]
  ultimately have "agent_load H (co_disk ?c') =
      (co_disk ?c', Inl (CoreFailed (SchemaVersion (schema_version d) SCHEMA_VERSION)))"
    using assms(4) by (simp add: agent_load_def Let_def F load_workspace_def)
  then show ?thesis using assms(2) by (auto simp: core_merge_def Let_def)
qed

section \<open>Admission and removal\<close>

lemma machine_upserted:
  "bt_ok (machines d) \<Longrightarrow> machine j (fst (upsert_machine now origin r d)) = (if j = mr_id r then Some r else machine j d)"
  by (simp add: edit_defs Let_def machine_def bt_get_insert)

lemma machine_removed:
  "bt_ok (machines d) \<Longrightarrow> machine j (fst (remove_machine now origin i d)) = (if j = i then None else machine j d)"
  by (simp add: edit_defs Let_def machine_def bt_get_insert)

lemma mutate_doc:
  assumes "co_doc c = Some d"
  shows "co_doc (fst (mutate H change c)) = Some (fst (change (id_machine_id (co_identity c)) d))"
    and "snd (mutate H change c) = Inr ()"
    and "co_pending_trust (fst (mutate H change c)) = co_pending_trust c"
    and "co_candidates (fst (mutate H change c)) = co_candidates c"
    and "co_requests (fst (mutate H change c)) = co_requests c @ [Changed] @
      (if h_net H then [BroadcastUpdate (snd (change (id_machine_id (co_identity c)) d))] else [])"
    and "co_identity (fst (mutate H change c)) = co_identity c"
    and "co_remote_input (fst (mutate H change c)) = co_remote_input c"
  using assms by (simp_all add: mutate_def Let_def split_beta)

lemma pair_admitted:
  assumes "bt_get (co_candidates c) i = Some found" and "co_doc c = Some d" and "pair H i c = (c', r)"
  shows "r = Inr () \<and> co_doc c' = Some (fst (upsert_machine (h_now H) (id_machine_id (co_identity c))
      \<lparr>mr_id = fm_machine_id found, mr_display_name = fm_display_name found, mr_platform = OtherPlatform,
       mr_public_key = fm_identity_key found, mr_position = free_position c, mr_displays = [],
       mr_input = input_assignment_default, mr_paired_at_ms = h_now H\<rparr> d)) \<and>
    co_pending_trust c' = co_pending_trust c \<and> bt_get (co_candidates c') i = None"
proof -
  let ?r = "\<lparr>mr_id = fm_machine_id found, mr_display_name = fm_display_name found, mr_platform = OtherPlatform,
       mr_public_key = fm_identity_key found, mr_position = free_position c, mr_displays = [],
       mr_input = input_assignment_default, mr_paired_at_ms = h_now H\<rparr>"
  obtain c1 x where m: "mutate H (\<lambda>origin. upsert_machine (h_now H) origin ?r) c = (c1, x)" by fastforce
  with mutate_doc [OF assms(2), of H "\<lambda>origin. upsert_machine (h_now H) origin ?r"]
  have "x = Inr ()" "co_doc c1 = Some (fst (upsert_machine (h_now H) (id_machine_id (co_identity c)) ?r d))"
    "co_pending_trust c1 = co_pending_trust c" by simp_all
  then show ?thesis using assms m by (auto simp: pair_def Let_def bt_get_remove)
qed

lemma foldl_i32_max: "sint x \<le> sint (foldl i32_max x xs) \<and> (\<forall>y \<in> set xs. sint y \<le> sint (foldl i32_max x xs))"
proof (induction xs arbitrary: x)
  case (Cons a xs)
  from Cons [of "i32_max x a"] show ?case by (auto simp: sint_i32_max)
qed simp

lemma free_position_right:
  assumes "co_doc c = Some d" and "m \<in> set (machines_present d)" and "bounds m = Some b"
  shows "sint (max_x b) \<le> sint (px (free_position c))"
proof -
  have "max_x b \<in> set (map max_x (List.map_filter bounds (machines_present d)))"
    using assms(2,3) by (auto simp: set_map_filter intro!: imageI bexI [of _ m])
  then show ?thesis
    using foldl_i32_max
    by (cases "map max_x (List.map_filter bounds (machines_present d))")
      (auto simp: free_position_def assms(1))
qed

lemma authorize_Some:
  "co_doc c = Some d \<Longrightarrow> core_authorize i k c =
     (case machine i d of Some r \<Rightarrow> mr_public_key r = k | None \<Rightarrow> bt_get (co_pending_trust c) i = Some k)"
  by (simp add: core_authorize_def)

lemma unpair_removed:
  assumes "co_doc c = Some d" and "i \<noteq> id_machine_id (co_identity c)" and "unpair H i c = (c', r)"
  shows "r = Inr () \<and> co_doc c' = Some (fst (remove_machine (h_now H) (id_machine_id (co_identity c)) i d)) \<and>
    co_pending_trust c' = co_pending_trust c \<and> i \<notin> co_online c' \<and> co_identity c' = co_identity c"
proof -
  obtain c1 x where m: "mutate H (\<lambda>origin. remove_machine (h_now H) origin i) c = (c1, x)" by fastforce
  with mutate_doc [OF assms(1), of H "\<lambda>origin. remove_machine (h_now H) origin i"] assms show ?thesis
    by (auto simp: unpair_def)
qed

text \<open>The update by which a removed machine that is still connected writes itself back in.\<close>

definition readmission :: "workspace_doc \<Rightarrow> u64 \<Rightarrow> machine_record \<Rightarrow> workspace_update" where
  "readmission d now r = \<lparr>upd_workspace_id = doc_workspace_id d, prev_lamport = doc_lamport d + 1,
     upd_stamp = stamp_new now (doc_lamport d + 2) (mr_id r), upd_op = UpsertMachine r\<rparr>"

lemma readmitted:
  assumes "bt_ok (machines d)" and "doc_lamport d + 1 \<noteq> - 1"
  shows "\<exists>d'. apply_update (readmission d now' r) (fst (remove_machine now self (mr_id r) d)) = Inr (d', True) \<and>
    machine (mr_id r) d' = Some r"
proof -
  have "doc_lamport d + 1 < doc_lamport d + 2" using u64_next [OF assms(2)] by (simp add: add.assoc)
  then have "\<not> stamp_new now' (doc_lamport d + 2) (mr_id r) \<le> stamp_new now (doc_lamport d + 1) self"
    by (simp add: stamp_not_less [symmetric] stamp_less_iff)
  with assms(1) show ?thesis
    by (simp add: readmission_def apply_update_def check_workspace_def edit_defs Let_def merge_slot_def put_slot_def
        observe_def bt_get_insert bt_ok_insert machine_def)
qed

section \<open>Two configurations\<close>

lemma yields_once:
  assumes "doc_workspace_id a \<noteq> doc_workspace_id b"
  shows "should_yield a (doc_workspace_id b) (of_nat (length (machines_present b))) \<longleftrightarrow>
    \<not> should_yield b (doc_workspace_id a) (of_nat (length (machines_present a)))"
  using assms by (auto simp: should_yield_def Let_def)

lemma adopted:
  assumes "writes_work H" and "core_inv H c" and "adopt_configuration_of H i key c = (c', r)"
  shows "core_inv H c' \<and> co_doc c' = None \<and> core_authorize i key c' \<and>
    (\<exists>c''. core_merge H' d c' = (c'', Inr True) \<and> co_doc c'' = Some d)"
proof -
  note a = adopt_doc_file [OF assms(1,3) core_invD(5) [OF assms(2)]]
  then have "core_authorize i key c'"
    using core_invD(2) [OF assms(2)] by (simp add: core_authorize_def bt_get_insert)
  moreover have "core_inv H c'" using adopt_inv [OF assms(1,2), of i key] assms(3) by simp
  ultimately show ?thesis using a by (simp add: core_merge_def Let_def)
qed

text \<open>The report of a session with the machine \<open>i\<close> that shares the document \<open>d\<close>.\<close>

abbreviation meets :: "machine_id \<Rightarrow> string \<Rightarrow> pub_key \<Rightarrow> workspace_doc \<Rightarrow> event" where
  "meets i n k d \<equiv> EvDifferentWorkspaces i n k (doc_workspace_id d) (of_nat (length (machines_present d)))"

text \<open>
  The event makes the agent give its configuration up for that of the machine \<open>i\<close>: nothing is
  left of it, \<open>i\<close> is let in, and a document from \<open>i\<close> is taken over.
\<close>

definition gives_up :: "host \<Rightarrow> event \<Rightarrow> core \<Rightarrow> machine_id \<Rightarrow> pub_key \<Rightarrow> workspace_doc \<Rightarrow> bool" where
  "gives_up H ev c i k d \<longleftrightarrow> (let c' = on_net_event H ev c in
     co_doc c' = None \<and> co_disk c' (doc_file H) = None \<and> core_authorize i k c' \<and>
     co_doc (fst (core_merge H d c')) = Some d \<and> snd (core_merge H d c') = Inr True)"

lemma yielding_gives_up:
  assumes "core_inv H c" and "writes_work H" and "co_doc c = Some d0"
    and "should_yield d0 (doc_workspace_id d) (of_nat (length (machines_present d)))"
  shows "gives_up H (meets i n k d) c i k d"
proof -
  obtain c' r where a: "adopt_configuration_of H i k c = (c', r)" by fastforce
  from adopted [OF assms(2,1) a, of H d] adopt_doc_file [OF assms(2) a core_invD(5) [OF assms(1)]] a assms(3,4)
  show ?thesis by (auto simp: gives_up_def Let_def)
qed

section \<open>Publishing what only this machine knows\<close>

lemma differ_self: "\<forall>x \<in> set ds. display_eq x x \<Longrightarrow> \<not> differ ds ds"
  by (induction ds) (auto simp: differ_def)

lemma publish_cases:
  fixes H :: host
  assumes "own_record c = Some r"
  defines "r' \<equiv> (if differ (mr_displays r) (local_displays H) then r\<lparr>mr_displays := local_displays H\<rparr> else r)
    \<lparr>mr_platform := h_platform H\<rparr>"
  shows "publish_local_facts H c =
    (if \<not> differ (mr_displays r) (local_displays H) \<and> mr_platform r = h_platform H then (c, Inr False)
     else and_then (agent_upsert_machine H r' c) (\<lambda>c. c) True)"
  using assms by (simp add: publish_local_facts_def Let_def and_then_def)

lemma publish_settled:
  assumes "co_doc c = Some d" and "doc_wf d" and "publish_local_facts H c = (c', r)"
    and "\<forall>x \<in> set (local_displays H). display_eq x x"
    and same: "local_displays H' = local_displays H" "h_platform H' = h_platform H"
  shows "publish_local_facts H' c' = (c', Inr False)"
proof (cases "own_record c")
  case None
  then show ?thesis using assms(3) by (auto simp: publish_local_facts_def Let_def)
next
  case (Some r0)
  let ?r = "(if differ (mr_displays r0) (local_displays H) then r0\<lparr>mr_displays := local_displays H\<rparr> else r0)
    \<lparr>mr_platform := h_platform H\<rparr>"
  show ?thesis
  proof (cases "\<not> differ (mr_displays r0) (local_displays H) \<and> mr_platform r0 = h_platform H")
    case True
    then have "c' = c" using assms(3) publish_cases [OF Some, of H] by simp
    then show ?thesis using publish_cases [OF Some, of H'] True same by simp
  next
    case False
    note m = mutate_doc [OF assms(1), of H "\<lambda>origin. upsert_machine (h_now H) origin ?r"]
    have c': "c' = fst (agent_upsert_machine H ?r c)"
      using assms(3) publish_cases [OF Some, of H] False m(2)
      by (auto simp: and_then_def agent_upsert_machine_def split_beta)
    have "mr_id ?r = id_machine_id (co_identity c)"
      using Some machine_id_of [OF assms(2)] assms(1) by (simp add: own_record_def)
    then have "own_record c' = Some ?r"
      using m(1,6) doc_wf_ok [OF assms(2)] by (simp add: c' own_record_def agent_upsert_machine_def machine_upserted)
    from publish_cases [OF this, of H'] same differ_self [OF assms(4)] show ?thesis by auto
  qed
qed

section \<open>Who is online, in the actor and in the agent\<close>

text \<open>What a listener that hears every event knows.\<close>

fun hear :: "event \<Rightarrow> machine_id set \<Rightarrow> machine_id set" where
  "hear (EvOnline i) s = insert i s"
| "hear (EvOffline i reason) s = s - {i}"
| "hear _ s = s"

definition known_online :: "event list \<Rightarrow> machine_id set" where
  "known_online evs = fold hear evs {}"

fun is_mismatch :: "event \<Rightarrow> bool" where
  "is_mismatch (EvDifferentWorkspaces _ _ _ _ _) = True"
| "is_mismatch _ = False"

lemma agent_hears:
  "\<forall>e \<in> set evs. \<not> is_mismatch e \<Longrightarrow> co_online (fold (on_net_event H) evs c) = fold hear evs (co_online c)"
proof (induction evs arbitrary: c)
  case (Cons e evs)
  then have "co_online (on_net_event H e c) = hear e (co_online c)" by (cases e) simp_all
  with Cons show ?case by simp
qed simp

definition online_in :: "actor \<Rightarrow> machine_id set" where
  "online_in a = {i. in_status Online i a}"

fun mismatch_report :: "internal \<Rightarrow> bool" where
  "mismatch_report (Session (DifferentWorkspaces _ _ _ _ _)) = True"
| "mismatch_report _ = False"

text \<open>One step emits exactly the news about who is online.\<close>

definition in_step :: "actor \<Rightarrow> bool" where
  "in_step a \<longleftrightarrow> online_in a = known_online (emitted a) \<and> (\<forall>e \<in> set (emitted a). \<not> is_mismatch e)"

lemma known_online_snoc: "known_online (evs @ [e]) = hear e (known_online evs)"
  by (simp add: known_online_def)

lemma in_step_emit:
  "in_step a \<Longrightarrow> peers b = ps \<Longrightarrow> emitted b = emitted a @ [e] \<Longrightarrow> \<not> is_mismatch e \<Longrightarrow>
     online_in b = hear e (online_in a) \<Longrightarrow> in_step b"
  by (auto simp: in_step_def known_online_snoc)

lemma session_in_step:
  assumes "in_step a" and "bt_ok (peers a)" and "\<not> mismatch_report (Session outcome)"
  shows "in_step (on_session now outcome a)"
  using assms
  by (cases outcome)
    (auto simp: in_step_def emit_def known_online_snoc online_in_def in_status_def bt_get_entry bt_get_adjust
      Let_def split: if_splits)

lemma in_step_silent:
  assumes "in_step a" and "\<And>i. in_status Online i b \<longleftrightarrow> in_status Online i a"
    and "emitted b = emitted a @ evs" and "\<And>e s. e \<in> set evs \<Longrightarrow> hear e s = s \<and> \<not> is_mismatch e"
  shows "in_step b"
proof -
  have "fold hear evs s = s" for s using assms(4) by (induction evs) auto
  then have "known_online (emitted b) = known_online (emitted a)" by (simp add: assms(3) known_online_def)
  with assms show ?thesis by (auto simp: in_step_def online_in_def)
qed

lemma sighting_in_step:
  assumes "in_step a" and "bt_ok (peers a)"
  shows "in_step (on_sighting now auth s a)"
proof -
  let ?an = "sg_announcement s"
  show ?thesis
    by (rule in_step_silent [OF assms(1), where evs = "if an_machine_id ?an = me a then [] else
        if auth (an_machine_id ?an) (an_identity_key ?an) then [EvSighted (an_machine_id ?an)]
        else [EvCandidate (an_machine_id ?an) (an_display_name ?an) (an_identity_key ?an) (an_workspace_id ?an)
          \<lparr>sa_ip = sa_ip (sg_from s), sa_port = an_transport_port ?an\<rparr> (me a \<in> set (an_invitations ?an))]"])
      (auto simp: on_sighting_def Let_def emit_def spawn_def in_status_def bt_get_entry assms(2) split: if_splits option.splits)
qed

lemma tick_in_step:
  assumes "in_step a" and "bt_ok (peers a)"
  shows "in_step (on_tick now a)"
proof (rule in_step_silent [OF assms(1)])
  show "in_status Online i (on_tick now a) \<longleftrightarrow> in_status Online i a" for i
    by (cases "bt_get (peers a) i") (auto simp: in_status_def get_on_tick [OF assms(2)] tick_slot_def due_def)
  show "emitted (on_tick now a) = emitted a @ map (\<lambda>(i, _). EvConnecting i) (dials now a)"
    by (simp add: on_tick_eq [OF assms(2)])
qed auto

lemma actor_step_in_step:
  assumes "in_step a" and inv: "actor_inv a" and "\<not> mismatch_report msg" and "actor_step now auth msg a = Some b"
  shows "in_step b"
proof (cases msg)
  case (Sighting s)
  then show ?thesis using assms sighting_in_step actor_invD(1) [OF inv] by auto
next
  case (Session outcome)
  then show ?thesis using assms session_in_step actor_invD(1) [OF inv] by auto
next
  case Tick
  then show ?thesis using assms tick_in_step actor_invD(1) [OF inv] by auto
next
  case (Broadcast u)
  then show ?thesis using assms(4)
    by (intro in_step_silent [OF assms(1), where evs = "[]"])
      (auto simp: on_broadcast_eq [OF inv] in_status_def bt_get_each)
next
  case (SendInput to events)
  then show ?thesis using assms(4)
    by (intro in_step_silent [OF assms(1), where evs = "[]"])
      (auto simp: on_send_input_def push_eq in_status_def bt_get_adjust split: option.splits if_splits)
next
  case (AnnounceCursorOwner m)
  then show ?thesis using assms(4)
    by (intro in_step_silent [OF assms(1), where evs = "[]"]) (auto simp: on_announce_owner_def in_status_def)
next
  case Rescan
  then show ?thesis using assms(4)
    by (intro in_step_silent [OF assms(1), where evs = "[]"])
      (auto simp: on_rescan_def in_status_def bt_get_each split: if_splits)
next
  case Shutdown
  then show ?thesis using assms(4) by simp
qed

lemma actor_run_in_step:
  "in_step a \<Longrightarrow> actor_inv a \<Longrightarrow> new_channels mail a \<Longrightarrow> \<forall>(_, _, msg) \<in> set mail. \<not> mismatch_report msg \<Longrightarrow>
     in_step (actor_run mail a)"
proof (induction mail arbitrary: a)
  case (Cons m mail)
  obtain now auth msg where m: "m = (now, auth, msg)" by (cases m)
  show ?case
  proof (cases "actor_step now auth msg a")
    case None
    then show ?thesis using Cons.prems by (simp add: m)
  next
    case (Some b)
    have "in_step b" using Cons.prems by (intro actor_step_in_step [OF _ _ _ Some]) (auto simp: m)
    moreover have "actor_inv b" using Cons.prems by (intro actor_step_inv [OF _ _ Some]) (auto simp: m)
    ultimately show ?thesis using Cons.IH [of b] Cons.prems by (auto simp: m Some)
  qed
qed simp

section \<open>Concrete agents\<close>

definition clock_bits :: "u64 \<Rightarrow> bytes" where
  "clock_bits l = map (\<lambda>n. if bit l n then 1 else 0) [0..<64]"

definition bits_clock :: "bytes \<Rightarrow> u64" where
  "bits_clock b = horner_sum of_bool 2 (map (\<lambda>x. x = 1) b)"

lemma clock_round_trip: "bits_clock (clock_bits l) = l"
proof -
  have "map (\<lambda>x. x = 1) (clock_bits l) = map (bit l) [0..<64]" by (simp add: clock_bits_def)
  then show ?thesis by (simp add: bits_clock_def horner_sum_bit_eq_take_bit take_bit_word_eq_self del: upt_Suc)
qed

definition sample_host :: "machine_id \<Rightarrow> host" where
  "sample_host i = \<lparr>h_store = sample_store, h_fault = no_fault,
     h_doc_codec = \<lparr>enc = (\<lambda>d. Some (clock_bits (doc_lamport d))),
       dec = (\<lambda>b. Some (sample_doc\<lparr>doc_lamport := bits_clock b\<rparr>))\<rparr>,
     h_identity_codec = \<lparr>enc = (\<lambda>_. Some [0]), dec = (\<lambda>_. Some (generate i 0 [3]))\<rparr>,
     h_backup_codec = sample_backup_codec,
     h_prefs_codec = \<lparr>enc = (\<lambda>p. Some [if sharing p then 1 else 0]), dec = (\<lambda>b. Some \<lparr>sharing = b = [1]\<rparr>)\<rparr>,
     h_crypto = toy_crypto, h_now = 5, h_new_identity = generate i 0 [3], h_new_workspace = 7,
     h_variables = (\<lambda>_. Some ''pc''), h_platform = Windows, h_displays = Inr [sample_display],
     h_inject = (\<lambda>_. None), h_net = True\<rparr>"

definition sample_core :: "machine_id \<Rightarrow> workspace_doc \<Rightarrow> core" where
  "sample_core i d = \<lparr>co_identity = generate i 0 [3],
     co_disk = [file_path sample_store IDENTITY_FILE \<mapsto> [0], file_path sample_store WORKSPACE_FILE \<mapsto> clock_bits (doc_lamport d)],
     co_doc = Some d, co_online = {}, co_candidates = bt_empty, co_pending_trust = bt_empty,
     co_manual_peers = [], co_announced_owner = None, co_remote_input = None, co_cursor_owner = None,
     co_sharing = False, co_requests = []\<rparr>"

lemma sample_host_works: "writes_work (sample_host i)"
  by (simp add: writes_work_def sample_host_def)

lemma sample_readable: "readable sample_doc" "readable sample_pair" "readable sample_unpaired"
  using sample_wf by (simp_all add: readable_def doc_wf_ok) code_simp+

lemma sample_core_inv: "readable d \<Longrightarrow> core_inv (sample_host i) (sample_core i d)"
  by (auto simp: core_inv_def on_disk_def identity_ok_def found_ok_def sample_core_def sample_host_def doc_file_def
      bt_empty_def bt_get_def intro!: exI [of _ d])

text \<open>A day of use, a night without, and a machine that was met.\<close>

definition sample_day :: "(host \<times> agent_command) list" where
  "sample_day = [(sample_host 1, RenameWorkspace ''home''), (sample_host 1, NetEvent (EvOnline 2)),
     (sample_host 1, SetSharing True (Inr ())), (sample_host 1, PeerInput 2 [])]"

definition sample_night :: "(host \<times> agent_command) list" where
  "sample_night = [(sample_host 1, NetEvent (EvOnline 2)), (sample_host 1, NoteCursorOwner (Some 2)),
     (sample_host 1, NetEvent (EvOffline 2 ''asleep''))]"

definition sample_meeting :: core where
  "sample_meeting = on_net_event (sample_host 1) (EvCandidate 2 ''b'' sample_key None sample_address True)
     (sample_core 1 sample_doc)"

lemma sample_starts: "\<exists>d c. agent_load (sample_host 1) Map.empty = (d, Inr c)"
  by (simp add: agent_load_def Let_def load_or_create_identity_def load_workspace_def save_workspace_def
      read_with_fallback_def read_json_def write_atomic_def fs_defs sample_host_def no_fault_def)

lemma sample_host_reads_back:
  "same_content e sample_doc \<Longrightarrow> reads_back (h_doc_codec (sample_host i)) e"
proof -
  assume "same_content e sample_doc"
  then have "sample_doc\<lparr>doc_lamport := doc_lamport e\<rparr> = e\<lparr>doc_lamport := 0\<rparr>\<lparr>doc_lamport := doc_lamport e\<rparr>"
    by (simp add: same_content_def)
  then show ?thesis by (simp add: reads_back_def sample_host_def clock_round_trip)
qed

section \<open>Properties\<close>





text \<open>
  Two machines with configurations of different workspaces that see each other end with
  one. When each hears of the other, with the size the other announces, exactly one gives its
  configuration up: it then has no document and no document file, it lets the other in under the
  key it was seen with, and takes the first document the other sends as its own; the one that
  keeps its configuration is untouched.
\<close>

theorem separate_configurations_unite:
  assumes "core_inv H1 c1" and "co_doc c1 = Some d1" and "writes_work H1"
    and "core_inv H2 c2" and "co_doc c2 = Some d2" and "writes_work H2"
    and "doc_workspace_id d1 \<noteq> doc_workspace_id d2"
  shows "(gives_up H1 (meets i2 n2 k2 d2) c1 i2 k2 d2 \<and> on_net_event H2 (meets i1 n1 k1 d1) c2 = c2) \<or>
    (gives_up H2 (meets i1 n1 k1 d1) c2 i1 k1 d1 \<and> on_net_event H1 (meets i2 n2 k2 d2) c1 = c1)"
proof (cases "should_yield d1 (doc_workspace_id d2) (of_nat (length (machines_present d2)))")
  case True
  then have "on_net_event H2 (meets i1 n1 k1 d1) c2 = c2" using yields_once [OF assms(7)] assms(5) by simp
  with yielding_gives_up [OF assms(1,3,2) True] show ?thesis by blast
next
  case False
  then have yields: "should_yield d2 (doc_workspace_id d1) (of_nat (length (machines_present d1)))"
    using yields_once [OF assms(7)] by simp
  have "on_net_event H1 (meets i2 n2 k2 d2) c1 = c1" using False assms(2) by simp
  with yielding_gives_up [OF assms(4,6,5) yields] show ?thesis by blast
qed

text \<open>
  C15: Pairing admits the key that was seen, and that machine only. After the user accepts a
  machine that was found, it is let in with exactly that key; whoever was let in before is let
  in as before; it is no longer offered as a candidate; its place is not to the left of the
  right edge of any machine already placed; and the peers are told, after the document is on
  disk.
\<close>

theorem pairing_admits_one_key:
  assumes "core_inv H c" and "bt_get (co_candidates c) i = Some found" and "co_doc c = Some d"
    and "pair H i c = (c', r)"
  shows "r = Inr () \<and> (\<forall>k. core_authorize i k c' \<longleftrightarrow> k = fm_identity_key found) \<and>
    (\<forall>j k. j \<noteq> i \<longrightarrow> core_authorize j k c' = core_authorize j k c) \<and>
    bt_get (co_candidates c') i = None \<and>
    (\<exists>m. Option.bind (co_doc c') (machine i) = Some m \<and>
      (\<forall>x b. x \<in> set (machines_present d) \<and> bounds x = Some b \<longrightarrow> sint (max_x b) \<le> sint (px (mr_position m))))"
proof -
  have id: "fm_machine_id found = i" using core_invD(1) [OF assms(1)] assms(2) by (simp add: found_ok_def)
  have ok: "bt_ok (machines d)" using core_invD(3) [OF assms(1,3)] by (simp add: readable_def)
  note p = pair_admitted [OF assms(2,3,4)]
  then show ?thesis
    using free_position_right [OF assms(3)] assms(3)
    by (auto simp: authorize_Some machine_upserted [OF ok] id split: option.splits)
qed

theorem pairing_admits_one_key_witness:
  "\<exists>c. pair (sample_host 1) 2 sample_meeting = (c, Inr ()) \<and> core_authorize 2 sample_key c \<and>
    (\<forall>k. core_authorize 2 k c \<longleftrightarrow> k = sample_key) \<and> bt_get (co_candidates c) 2 = None"
proof -
  obtain c r where p: "pair (sample_host 1) 2 sample_meeting = (c, r)" by fastforce
  have "core_inv (sample_host 1) sample_meeting" and doc: "co_doc sample_meeting = Some sample_doc"
    using on_net_event_inv [OF sample_host_works sample_core_inv [OF sample_readable(1)]]
    by (simp_all add: sample_meeting_def sample_core_def del: on_net_event.simps) (simp add: sample_core_def)
  moreover obtain found where "bt_get (co_candidates sample_meeting) 2 = Some found" "fm_identity_key found = sample_key"
    by (simp add: sample_meeting_def sample_core_def bt_empty_def bt_get_def)
  ultimately show ?thesis using pairing_admits_one_key [OF _ _ doc p] p by auto
qed

text \<open>
  Removing a machine does not remove it while it is connected. Unpairing takes the machine
  out of the document, and (unless it was also trusted by hand) no key lets it in any more; but
  its open session is not ended, updates that arrive on it are applied without asking again, and
  one update, which the removed machine can write itself, brings it back with its old key.
\<close>

theorem removed_machine_can_return:
  assumes "core_inv H c" and "co_doc c = Some d" and "machine i d = Some m" and "mr_id m = i"
    and "i \<noteq> id_machine_id (co_identity c)" and "bt_get (co_pending_trust c) i = None"
    and "doc_lamport d + 1 \<noteq> - 1" and "unpair H i c = (c', r)" and "io_state io = c'"
  shows "r = Inr () \<and> (\<forall>k. \<not> core_authorize i k c') \<and>
    core_authorize i (mr_public_key m)
      (io_state (fst (handle_message (core_workspace H) J i (Update (readmission d now m)) io)))"
proof -
  have ok: "bt_ok (machines d)" using core_invD(3) [OF assms(1,2)] by (simp add: readable_def)
  note u = unpair_removed [OF assms(2,5,8)]
  then have "\<not> core_authorize i k c'" for k
    using assms(6) by (simp add: authorize_Some machine_removed [OF ok])
  moreover obtain d' where "apply_update (readmission d now m)
      (fst (remove_machine (h_now H) (id_machine_id (co_identity c)) i d)) = Inr (d', True)"
    and "machine i d' = Some m"
    using readmitted [OF ok assms(7), of now m "h_now H"] assms(4) by blast
  ultimately show ?thesis
    using u assms(9) by (simp add: core_workspace_def core_apply_def Let_def core_authorize_def)
qed

text \<open>
  What the agent shows as connected is what the network actor holds connected. From an actor
  with no session and an agent that shows none, after any sequence of messages to the actor
  among which no session met a foreign workspace, the agent that has heard everything the actor
  emitted shows exactly the machines the actor's table has online.
\<close>

theorem agent_view_follows_actor:
  assumes "actor_inv a" and "new_channels mail a" and "emitted a = []"
    and "\<forall>i. \<not> in_status Online i a" and "co_online c = {}"
    and "\<forall>(now, auth, msg) \<in> set mail. \<not> mismatch_report msg"
  shows "co_online (fold (on_net_event H) (emitted (actor_run mail a)) c) =
    {i. in_status Online i (actor_run mail a)}"
proof -
  have "in_step a" using assms(3,4) by (simp add: in_step_def online_in_def known_online_def)
  from actor_run_in_step [OF this assms(1,2,6)] show ?thesis
    using assms(5) by (simp add: in_step_def agent_hears known_online_def online_in_def)
qed

text \<open>
  Publishing what this machine knows of itself settles at once. Called again on an unchanged
  host, it finds nothing to write: the document, the disk, the views and the peers are left
  alone. (It needs screens that equal themselves: a scale that is not a number never does.)
\<close>

theorem publishing_settles:
  assumes "co_doc c = Some d" and "doc_wf d" and "publish_local_facts H c = (c', r)"
    and "\<forall>x \<in> set (local_displays H). display_eq x x"
    and "local_displays H' = local_displays H" and "h_platform H' = h_platform H"
  shows "publish_local_facts H' c' = (c', Inr False)"
  by (rule publish_settled [OF assms])

end
