(* ===== verification/Displays.thy ===== *)
theory Displays
  imports Agent "HOL-Library.Multiset" "HOL-Library.List_Lexorder" "HOL-Library.Char_ord"
begin

text \<open>
  Reading the monitors: \<^verbatim>\<open>enumerate_displays\<close> of the three platforms
  (\<^verbatim>\<open>crates/is-input/src/platform\<close>, through \<^verbatim>\<open>displays.rs\<close>). What the system answers is an
  argument, in the order in which it answers. Numbers that macOS gives as \<^verbatim>\<open>f64\<close> are taken
  after their rounding to integers, and the two divisions in \<^verbatim>\<open>f32\<close> are arguments.
\<close>

section \<open>Windows\<close>

definition MONITORINFOF_PRIMARY :: u32 where "MONITORINFOF_PRIMARY = 1"

record monitor_info =
  mi_device :: string
  mi_left :: i32
  mi_top :: i32
  mi_right :: i32
  mi_bottom :: i32
  mi_flags :: u32
  mi_dpi :: "u32 option"

text \<open>
  One call of \<^verbatim>\<open>monitor_callback\<close>: nothing where \<^verbatim>\<open>GetMonitorInfoW\<close> fails, and the usual 96 where
  \<^verbatim>\<open>GetDpiForMonitor\<close> does. \<open>scale_of\<close> is the division by 96.
\<close>

definition monitor_callback :: "(u32 \<Rightarrow> f32) \<Rightarrow> monitor_info option \<Rightarrow> display_info list \<Rightarrow> display_info list" where
  "monitor_callback scale_of answer collected =
     (case answer of
        None \<Rightarrow> collected
      | Some m \<Rightarrow>
          let dpi = (case mi_dpi m of Some n \<Rightarrow> n | None \<Rightarrow> 96)
          in collected @
            [\<lparr>di_id = mi_device m, di_name = mi_device m, di_x = mi_left m, di_y = mi_top m,
              di_width = i32_max (mi_right m - mi_left m) 0, di_height = i32_max (mi_bottom m - mi_top m) 0,
              di_scale = scale_of dpi, di_primary = (mi_flags m AND MONITORINFOF_PRIMARY \<noteq> 0)\<rparr>])"

definition windows_displays ::
  "(u32 \<Rightarrow> f32) \<Rightarrow> bool \<Rightarrow> monitor_info option list \<Rightarrow> input_error + display_info list" where
  "windows_displays scale_of ok answers =
     (if \<not> ok then Inl (Os ''EnumDisplayMonitors failed'')
      else Inr (sort_key di_id (fold (monitor_callback scale_of) answers [])))"

section \<open>macOS\<close>

record mac_display =
  md_id :: u32
  md_x :: i32
  md_y :: i32
  md_width :: u32
  md_height :: u32
  md_backing :: f32

definition mac_display_info :: "u32 \<Rightarrow> mac_display \<Rightarrow> display_info" where
  "mac_display_info main m =
     \<lparr>di_id = ''display-'' @ decimal (unat (md_id m)),
      di_name = (if md_id m = main then ''Main display'' else ''Display '' @ decimal (unat (md_id m))),
      di_x = md_x m, di_y = md_y m, di_width = md_width m, di_height = md_height m,
      di_scale = md_backing m, di_primary = (md_id m = main)\<rparr>"

definition mac_displays :: "i32 \<Rightarrow> u32 \<Rightarrow> mac_display list \<Rightarrow> input_error + display_info list" where
  "mac_displays status main active =
     (if status \<noteq> 0
      then Inl (Os (''CGGetActiveDisplayList failed with '' @ signed_decimal (sint status)))
      else Inr (sort_key di_id (map (mac_display_info main) active)))"

section \<open>Whichever platform\<close>

definition other_displays :: "input_error + display_info list" where
  "other_displays = Inl (Unsupported ''display enumeration'')"

datatype screens =
    WindowsScreens bool "monitor_info option list"
  | MacScreens i32 u32 "mac_display list"
  | OtherScreens

fun enumerate_displays :: "(u32 \<Rightarrow> f32) \<Rightarrow> screens \<Rightarrow> input_error + display_info list" where
  "enumerate_displays scale_of (WindowsScreens ok answers) = windows_displays scale_of ok answers"
| "enumerate_displays scale_of (MacScreens status main active) = mac_displays status main active"
| "enumerate_displays scale_of OtherScreens = other_displays"

text \<open>The same monitors, reported in any order.\<close>

fun reordered :: "screens \<Rightarrow> screens \<Rightarrow> bool" where
  "reordered (WindowsScreens ok answers) (WindowsScreens ok' answers') \<longleftrightarrow> ok = ok' \<and> mset answers = mset answers'"
| "reordered (MacScreens status main active) (MacScreens status' main' active') \<longleftrightarrow>
     status = status' \<and> main = main' \<and> mset active = mset active'"
| "reordered OtherScreens OtherScreens \<longleftrightarrow> True"
| "reordered _ _ \<longleftrightarrow> False"

text \<open>No two monitors with one name, and scales that are numbers.\<close>

fun sound_screens :: "(u32 \<Rightarrow> f32) \<Rightarrow> screens \<Rightarrow> bool" where
  "sound_screens scale_of (WindowsScreens ok answers) \<longleftrightarrow>
     distinct (map mi_device (List.map_filter id answers)) \<and> (\<forall>n. f32_eq (scale_of n) (scale_of n))"
| "sound_screens scale_of (MacScreens status main active) \<longleftrightarrow>
     distinct (map md_id active) \<and> (\<forall>m \<in> set active. f32_eq (md_backing m) (md_backing m))"
| "sound_screens scale_of OtherScreens \<longleftrightarrow> True"

section \<open>The order does not matter\<close>

lemma sort_key_distinct:
  assumes "mset xs = mset ys" and "distinct (map f xs)"
  shows "sort_key f xs = sort_key f ys"
proof -
  have "inj_on f (set xs)" and "set ys = set xs" using assms by (simp_all add: distinct_map) (metis set_mset_mset)
  then show ?thesis using assms(1) by (intro sort_key_inj_key_eq) auto
qed

lemma windows_collected:
  "fold (monitor_callback scale_of) answers collected =
     collected @ map (\<lambda>m. hd (monitor_callback scale_of (Some m) [])) (List.map_filter id answers)"
  by (induction answers arbitrary: collected)
    (auto simp: monitor_callback_def map_filter_simps Let_def split: option.split)

lemma windows_device: "di_id (hd (monitor_callback scale_of (Some m) [])) = mi_device m"
  by (simp add: monitor_callback_def Let_def)

lemma mset_answered: "mset xs = mset ys \<Longrightarrow> mset (List.map_filter id xs) = mset (List.map_filter id ys)"
  by (simp add: map_filter_def)

theorem enumeration_order_irrelevant:
  assumes "reordered a b" and "sound_screens scale_of a"
  shows "enumerate_displays scale_of a = enumerate_displays scale_of b"
  using assms
proof (induction a b rule: reordered.induct)
  case (1 ok answers ok' answers')
  let ?shown = "\<lambda>m. hd (monitor_callback scale_of (Some m) [])"
  have "sort_key di_id (map ?shown (List.map_filter id answers)) = sort_key di_id (map ?shown (List.map_filter id answers'))"
    using 1 mset_answered [of answers answers']
    by (intro sort_key_distinct) (simp_all add: comp_def windows_device)
  then show ?case using 1(1) by (simp add: windows_displays_def windows_collected)
next
  case (2 status main active status' main' active')
  have "sort_key di_id (map (mac_display_info main) active) = sort_key di_id (map (mac_display_info main) active')"
    using 2 by (intro sort_key_distinct)
      (auto simp: mac_display_info_def comp_def distinct_map inj_on_def decimal_inject dest!: unsigned_word_eqI simp del: decimal.simps)
  then show ?case using 2(1) by (simp add: mac_displays_def)
qed simp_all

lemma windows_scale: "di_scale (hd (monitor_callback scale_of (Some m) [])) = scale_of (case mi_dpi m of Some n \<Rightarrow> n | None \<Rightarrow> 96)"
  by (simp add: monitor_callback_def Let_def)

lemma enumerated_equal_themselves:
  assumes "sound_screens scale_of a" and "enumerate_displays scale_of a = Inr ds"
  shows "\<forall>x \<in> set ds. display_eq x x"
  using assms
  by (cases a)
    (auto simp: windows_displays_def mac_displays_def windows_collected windows_scale display_eq_def mac_display_info_def other_displays_def
      split: if_splits simp del: decimal.simps)

section \<open>Property\<close>

text \<open>
  C33: A machine that restarts with the screens it had changes nothing, in whatever order the system
  reports them and on whichever platform: once it has published what it has, publishing
  again finds nothing to write, so neither the document nor the disk nor any other machine
  hears of it.
\<close>

theorem restart_with_same_screens_settles:
  assumes "co_doc c = Some d" and "doc_wf d" and "publish_local_facts H c = (c', r)"
    and "h_displays H = enumerate_displays scale_of a" and "h_displays H' = enumerate_displays scale_of b"
    and "reordered a b" and "sound_screens scale_of a" and "h_platform H' = h_platform H"
  shows "publish_local_facts H' c' = (c', Inr False)"
proof (rule publish_settled [OF assms(1-3) _ _ assms(8)])
  show "local_displays H' = local_displays H"
    using enumeration_order_irrelevant [OF assms(6,7)] assms(4,5) by (simp add: local_displays_def)
  have "display_eq assumed_display assumed_display" by code_simp
  then show "\<forall>x \<in> set (local_displays H). display_eq x x"
    using enumerated_equal_themselves [OF assms(7)] assms(4) by (auto simp: local_displays_def split: sum.split)
qed

definition two_screens :: "monitor_info list" where
  "two_screens =
    [\<lparr>mi_device = ''DISPLAY2'', mi_left = 1920, mi_top = 0, mi_right = 3840, mi_bottom = 1080, mi_flags = 0, mi_dpi = None\<rparr>,
     \<lparr>mi_device = ''DISPLAY1'', mi_left = 0, mi_top = 0, mi_right = 1920, mi_bottom = 1080, mi_flags = 1, mi_dpi = Some 96\<rparr>]"

definition seen_as :: "screens \<Rightarrow> host" where
  "seen_as a = (sample_host 1)\<lparr>h_displays := enumerate_displays (\<lambda>_. 0x3F800000) a\<rparr>"

theorem restart_with_same_screens_settles_witness:
  "let before = seen_as (WindowsScreens True (None # map Some two_screens));
       now = seen_as (WindowsScreens True (map Some (rev two_screens) @ [None]));
       c = fst (publish_local_facts before (sample_core 1 sample_doc))
   in publish_local_facts now c = (c, Inr False)"
proof -
  let ?a = "WindowsScreens True (None # map Some two_screens)" and ?b = "WindowsScreens True (map Some (rev two_screens) @ [None])"
  have doc: "co_doc (sample_core 1 sample_doc) = Some sample_doc" by (simp add: sample_core_def)
  have sound: "sound_screens (\<lambda>_. 0x3F800000) ?a"
    by (simp add: two_screens_def map_filter_simps f32_eq_def)
  have same: "reordered ?a ?b" by (simp add: two_screens_def)
  have hosts: "h_displays (seen_as x) = enumerate_displays (\<lambda>_. 0x3F800000) x" "h_platform (seen_as x) = h_platform (seen_as y)" for x y
    by (simp_all add: seen_as_def)
  obtain c' r where run: "publish_local_facts (seen_as ?a) (sample_core 1 sample_doc) = (c', r)" by fastforce
  from restart_with_same_screens_settles [OF doc sample_wf(1) run hosts(1) hosts(1) same sound hosts(2)] run show ?thesis
    by (simp add: Let_def)
qed

end
