(* ===== verification/Handover.thy ===== *)
theory Handover
  imports Sharing
begin

text \<open>
  The pointer among several machines: the routing loops of \<^verbatim>\<open>crates/is-agent/src/sharing.rs\<close> and what they
  send each other. \<open>Sharing\<close> has one loop; here every machine runs one, its effects become messages
  under way, and a message is an event of the loop it reaches. There is no code of its own here.

  A batch of input and an announcement take different ways through the receiving agent (a
  channel, and a slot read every four milliseconds), so messages are delivered in any order.
\<close>

section \<open>Machines and messages\<close>

datatype pointer_message = InputFor "input_event list" | OwnerIs machine_id

record pointer_net =
  pn_router :: "machine_id \<Rightarrow> router"
  pn_flight :: "(machine_id \<times> pointer_message) list"

text \<open>An announcement goes to every machine that is connected, a batch to one of them.\<close>

fun messages_of :: "machine_id list \<Rightarrow> machine_id \<Rightarrow> effect \<Rightarrow> (machine_id \<times> pointer_message) list" where
  "messages_of ms i (SendTo j es) = (if j \<in> set ms then [(j, InputFor es)] else [])"
| "messages_of ms i (AnnounceOwner m) = map (\<lambda>j. (j, OwnerIs m)) (filter (\<lambda>j. j \<noteq> i) ms)"
| "messages_of ms i _ = []"

definition new_effects :: "router \<Rightarrow> router \<Rightarrow> effect list" where
  "new_effects r r' = drop (length (effects r)) (effects r')"

definition net_turn :: "machine_id list \<Rightarrow> world \<Rightarrow> machine_id \<Rightarrow> loop_event \<Rightarrow> pointer_net \<Rightarrow> pointer_net" where
  "net_turn ms w i e s =
     (let r = pn_router s i; r' = router_step w e r
      in \<lparr>pn_router = (pn_router s)(i := r'),
          pn_flight = pn_flight s @ concat (map (messages_of ms i) (new_effects r r'))\<rparr>)"

fun arrival :: "pointer_message \<Rightarrow> loop_event" where
  "arrival (InputFor es) = RemoteBatch es"
| "arrival (OwnerIs m) = Announced m"

definition net_deliver :: "machine_id list \<Rightarrow> world \<Rightarrow> nat \<Rightarrow> pointer_net \<Rightarrow> pointer_net" where
  "net_deliver ms w k s =
     (case pn_flight s ! k of
        (i, msg) \<Rightarrow> net_turn ms w i (arrival msg) (s\<lparr>pn_flight := take k (pn_flight s) @ drop (Suc k) (pn_flight s)\<rparr>))"

section \<open>Handovers one at a time\<close>

fun is_enter :: "input_event \<Rightarrow> bool" where
  "is_enter (CursorEnter x y) = True"
| "is_enter _ = False"

text \<open>A message that belongs to a handover.\<close>

fun handing :: "pointer_message \<Rightarrow> bool" where
  "handing (OwnerIs m) = True"
| "handing (InputFor es) = list_ex is_enter es"

definition settled :: "machine_id list \<Rightarrow> pointer_net \<Rightarrow> bool" where
  "settled ms s \<longleftrightarrow> (\<forall>i \<in> set ms. announced_owner (pn_router s i) = None) \<and> (\<forall>(j, msg) \<in> set (pn_flight s). \<not> handing msg)"

definition announces :: "router \<Rightarrow> router \<Rightarrow> bool" where
  "announces r r' \<longleftrightarrow> (\<exists>m. AnnounceOwner m \<in> set (new_effects r r'))"

text \<open>
  The machines \<open>ms\<close> stay connected, and a machine only hands the pointer over when the last handover
  is over. A capture never reports \<^verbatim>\<open>CursorEnter\<close>.
\<close>

inductive pointer_step :: "machine_id list \<Rightarrow> pointer_net \<Rightarrow> pointer_net \<Rightarrow> bool" for ms where
  Turn: "i \<in> set ms \<Longrightarrow> w_online w = set ms \<Longrightarrow>
    e \<in> {HeartbeatTick, FlushTick} \<union> {LocalInput x | x. \<not> is_enter x} \<Longrightarrow>
    (announces (pn_router s i) (router_step w e (pn_router s i)) \<longrightarrow> settled ms s) \<Longrightarrow>
    pointer_step ms s (net_turn ms w i e s)"
| Deliver: "k < length (pn_flight s) \<Longrightarrow> w_online w = set ms \<Longrightarrow> pn_flight s ! k = (i, msg) \<Longrightarrow>
    (announces (pn_router s i) (router_step w (arrival msg) (pn_router s i)) \<longrightarrow> settled ms s) \<Longrightarrow>
    pointer_step ms s (net_deliver ms w k s)"

definition agreed :: "machine_id list \<Rightarrow> machine_id \<Rightarrow> pointer_net \<Rightarrow> bool" where
  "agreed ms h s \<longleftrightarrow> h \<in> set ms \<and> pn_flight s = [] \<and>
     (\<forall>i \<in> set ms. let r = pn_router s i in
        local_machine r = i \<and> router_ok r \<and> owner r = h \<and> announced_owner r = None \<and> pending r = [])"

inductive pointer_reaches :: "machine_id list \<Rightarrow> pointer_net \<Rightarrow> pointer_net \<Rightarrow> bool" for ms s0 where
  Begin: "pointer_reaches ms s0 s0"
| Go: "pointer_reaches ms s0 s \<Longrightarrow> pointer_step ms s t \<Longrightarrow> pointer_reaches ms s0 t"

section \<open>What one router does\<close>

fun is_message :: "effect \<Rightarrow> bool" where
  "is_message (SendTo j es) = True"
| "is_message (AnnounceOwner m) = True"
| "is_message _ = False"

definition stays :: "router \<Rightarrow> router \<Rightarrow> bool" where
  "stays r r' \<longleftrightarrow> local_machine r' = local_machine r \<and> owner r' = owner r \<and> announced_owner r' = announced_owner r \<and>
     pending r' = pending r \<and> (\<exists>es. effects r' = effects r @ es \<and> filter is_message es = [])"

definition hands_to :: "machine_id \<Rightarrow> router \<Rightarrow> router \<Rightarrow> bool" where
  "hands_to b r r' \<longleftrightarrow> owner r = local_machine r \<and> local_machine r' = local_machine r \<and> owner r' = b \<and>
     b \<noteq> local_machine r \<and> announced_owner r' = announced_owner r \<and> pending r' = [] \<and>
     (\<exists>es enter. effects r' = effects r @ es \<and> filter is_message es = enter @ [AnnounceOwner b] \<and>
        (enter = [] \<or> (\<exists>x y. enter = [SendTo b [CursorEnter x y]])))"

lemma stays_refl [simp]: "stays r r"
  by (simp add: stays_def)

lemma stays_then: "stays r r' \<Longrightarrow> stays r' r'' \<Longrightarrow> stays r r''"
  by (auto simp: stays_def)

lemma stays_then_hands: "stays r r' \<Longrightarrow> hands_to b r' r'' \<Longrightarrow> hands_to b r r''"
  by (auto simp: stays_def hands_to_def)

lemma resolve_goes_online: "resolve_cursor d online i target = Move m p \<Longrightarrow> m \<in> online"
proof -
  assume "resolve_cursor d online i target = Move m p"
  then obtain exit dir c where "pick_candidate (offline_edge (lww_value (settings d))) online
      (candidates_along d i exit dir) = Some c" and "m = cand_machine c"
    by (auto simp: resolve_cursor_def Let_def split: option.splits if_splits)
  with pick_candidate_Some [OF _ candidates_sorted] show ?thesis by blast
qed

lemma motion_stays_or_hands:
  assumes "router_ok r" and "owner r = local_machine r"
  shows "stays r (on_motion w dx dy src r) \<or>
    (\<exists>b \<in> insert (local_machine r) (w_online w). hands_to b r (on_motion w dx dy src r))"
proof (cases "w_doc w")
  case None
  then show ?thesis by (simp add: on_motion_def)
next
  case (Some d)
  let ?res = "resolve_cursor d (insert (local_machine r) (w_online w)) (local_machine r)
    (point_new (px (cursor (resync w r)) + dx) (py (cursor (resync w r)) + dy))"
  show ?thesis
  proof (cases ?res)
    case (Stay p)
    then have "stays r (on_motion w dx dy src r)"
      using Some by (auto simp: on_motion_def Let_def stays_def split: option.split)
    then show ?thesis ..
  next
    case (Move m p)
    have m: "m \<noteq> local_machine r" "m \<in> insert (local_machine r) (w_online w)"
      using resolve_not_current [OF Move] resolve_goes_online [OF Move] by blast+
    have "pending r = []" using assms by (simp add: router_ok_def)
    then have "hands_to m r (on_motion w dx dy src r)"
      using Some Move m(1) assms(2)
      by (cases "machine m d") (auto simp: on_motion_def Let_def hands_to_def flush_effects)
    then show ?thesis using m(2) by blast
  qed
qed

lemma plain_input_stays_or_hands:
  assumes "router_ok r" and "\<not> is_enter e"
  shows "owner r \<noteq> local_machine r \<Longrightarrow> handle w e Remote r = r"
    and "owner r = local_machine r \<Longrightarrow>
      stays r (handle w e src r) \<or> (\<exists>b \<in> insert (local_machine r) (w_online w). hands_to b r (handle w e src r))"
proof -
  show "owner r \<noteq> local_machine r \<Longrightarrow> handle w e Remote r = r"
    using assms(2) by (cases e) (simp_all add: handle_def)
  assume own: "owner r = local_machine r"
  show "stays r (handle w e src r) \<or> (\<exists>b \<in> insert (local_machine r) (w_online w). hands_to b r (handle w e src r))"
  proof (cases "\<exists>dx dy. e = MouseMove dx dy")
    case True
    then obtain dx dy where "e = MouseMove dx dy" by blast
    then show ?thesis
      using motion_stays_or_hands [OF assms(1) own, of w dx dy src] handle_motion_owner [OF own, of w dx dy src] by simp
  next
    case False
    then have "stays r (handle w e src r)" using own assms(2) by (cases e) (auto simp: handle_def stays_def)
    then show ?thesis ..
  qed
qed

lemma plain_batch_stays_or_hands:
  assumes "router_ok r" and "\<not> list_ex is_enter es"
  shows "owner r \<noteq> local_machine r \<Longrightarrow> fold (\<lambda>e. handle w e Remote) es r = r"
    and "owner r = local_machine r \<Longrightarrow> stays r (fold (\<lambda>e. handle w e Remote) es r) \<or>
      (\<exists>b \<in> insert (local_machine r) (w_online w). hands_to b r (fold (\<lambda>e. handle w e Remote) es r))"
proof -
  have ignored: "fold (\<lambda>e. handle w e Remote) es r = r"
    if "\<not> list_ex is_enter es" "router_ok r" "owner r \<noteq> local_machine r" for es r
    using that by (induction es) (auto simp: plain_input_stays_or_hands(1))
  then show "owner r \<noteq> local_machine r \<Longrightarrow> fold (\<lambda>e. handle w e Remote) es r = r" using assms by blast
  show "stays r (fold (\<lambda>e. handle w e Remote) es r) \<or>
      (\<exists>b \<in> insert (local_machine r) (w_online w). hands_to b r (fold (\<lambda>e. handle w e Remote) es r))"
    if "owner r = local_machine r"
    using that assms
  proof (induction es arbitrary: r)
    case (Cons e es)
    let ?q = "handle w e Remote r"
    have q: "router_ok ?q" and plain: "\<not> is_enter e" "\<not> list_ex is_enter es" using Cons.prems handle_ok by simp_all
    from plain_input_stays_or_hands(2) [OF Cons.prems(2) plain(1) Cons.prems(1), where w = w and src = Remote] show ?case
    proof (elim disjE bexE)
      assume stays: "stays r ?q"
      then have "owner ?q = local_machine ?q" "local_machine ?q = local_machine r"
        using Cons.prems(1) by (simp_all add: stays_def)
      with Cons.IH [OF _ q plain(2)] stays show ?thesis by (auto intro: stays_then stays_then_hands)
    next
      fix b assume b: "b \<in> insert (local_machine r) (w_online w)" "hands_to b r ?q"
      then have "fold (\<lambda>e. handle w e Remote) es ?q = ?q"
        by (intro ignored [OF plain(2) q]) (simp add: hands_to_def)
      then show ?thesis using b by auto
    qed
  qed simp
qed

section \<open>The invariant\<close>

text \<open>\<open>h\<close> has the pointer or is about to get it, and everybody knows or will be told.\<close>

definition machine_fits :: "machine_id list \<Rightarrow> machine_id \<Rightarrow> machine_id \<Rightarrow> router \<Rightarrow> bool" where
  "machine_fits ms h i r \<longleftrightarrow> local_machine r = i \<and> router_ok r \<and> owner r \<in> set ms \<and> \<not> list_ex is_enter (pending r) \<and>
     announced_owner r \<in> {None, Some h} \<and> (owner r = i \<longrightarrow> i = h)"

definition message_fits :: "machine_id list \<Rightarrow> machine_id \<Rightarrow> machine_id \<times> pointer_message \<Rightarrow> bool" where
  "message_fits ms h m \<longleftrightarrow> fst m \<in> set ms \<and>
     (case snd m of
        OwnerIs b \<Rightarrow> b = h
      | InputFor es \<Rightarrow> list_ex is_enter es \<longrightarrow> fst m = h \<and> (\<exists>x y. es = [CursorEnter x y]))"

definition informed :: "machine_id \<Rightarrow> machine_id \<Rightarrow> router \<Rightarrow> (machine_id \<times> pointer_message) list \<Rightarrow> bool" where
  "informed h i r flight \<longleftrightarrow> owner r = h \<or> announced_owner r = Some h \<or> (i, OwnerIs h) \<in> set flight"

definition pointer_inv :: "machine_id list \<Rightarrow> machine_id \<Rightarrow> pointer_net \<Rightarrow> bool" where
  "pointer_inv ms h s \<longleftrightarrow> h \<in> set ms \<and>
     (\<forall>i \<in> set ms. machine_fits ms h i (pn_router s i) \<and> informed h i (pn_router s i) (pn_flight s)) \<and>
     (\<forall>m \<in> set (pn_flight s). message_fits ms h m)"

lemma concat_messages: "concat (map (messages_of ms i) es) = concat (map (messages_of ms i) (filter is_message es))"
proof (induction es)
  case (Cons e es)
  then show ?case by (cases e) simp_all
qed simp

lemma turn_eq:
  "effects (router_step w e (pn_router s i)) = effects (pn_router s i) @ es \<Longrightarrow>
     net_turn ms w i e s = \<lparr>pn_router = (pn_router s)(i := router_step w e (pn_router s i)),
       pn_flight = pn_flight s @ concat (map (messages_of ms i) (filter is_message es))\<rparr>"
  by (simp add: net_turn_def Let_def new_effects_def concat_messages [symmetric])

text \<open>The invariant where it does not concern the machine \<open>i\<close>, which moves next.\<close>

definition others_fit :: "machine_id list \<Rightarrow> machine_id \<Rightarrow> machine_id \<Rightarrow> pointer_net \<Rightarrow> bool" where
  "others_fit ms h i s \<longleftrightarrow> h \<in> set ms \<and>
     (\<forall>j \<in> set ms - {i}. machine_fits ms h j (pn_router s j) \<and> informed h j (pn_router s j) (pn_flight s)) \<and>
     (\<forall>m \<in> set (pn_flight s). message_fits ms h m)"

lemma inv_others: "pointer_inv ms h s \<Longrightarrow> others_fit ms h i s"
  by (simp add: pointer_inv_def others_fit_def)

text \<open>A turn that sends nothing, or only input without the sign of a handover.\<close>

lemma quiet_turn_keeps_inv:
  assumes inv: "others_fit ms h i s"
    and fits: "machine_fits ms h i (router_step w e (pn_router s i))"
    and told: "informed h i (router_step w e (pn_router s i)) (pn_flight s)"
    and es: "effects (router_step w e (pn_router s i)) = effects (pn_router s i) @ es"
    and sent: "filter is_message es = [] \<or> (\<exists>j xs. filter is_message es = [SendTo j xs] \<and> \<not> list_ex is_enter xs)"
  shows "pointer_inv ms h (net_turn ms w i e s)"
proof -
  have "\<forall>m \<in> set (concat (map (messages_of ms i) (filter is_message es))). message_fits ms h m"
    using sent by (elim disjE exE conjE) (simp_all add: message_fits_def)
  moreover have "pointer_inv ms h \<lparr>pn_router = (pn_router s)(i := router_step w e (pn_router s i)), pn_flight = pn_flight s @ new\<rparr>"
    if "\<forall>m \<in> set new. message_fits ms h m" for new
    using inv fits told that by (auto simp: pointer_inv_def others_fit_def informed_def)
  ultimately show ?thesis unfolding turn_eq [OF es, of ms] by blast
qed

lemma handing_turn_keeps_inv:
  assumes inv: "pointer_inv ms h s" and i: "i \<in> set ms" and settled: "settled ms s"
    and b: "b \<in> set ms" and hands: "hands_to b (pn_router s i) (router_step w e (pn_router s i))"
  shows "pointer_inv ms b (net_turn ms w i e s)"
proof -
  let ?r = "pn_router s i" and ?r' = "router_step w e (pn_router s i)"
  obtain es enter where es: "effects ?r' = effects ?r @ es" "filter is_message es = enter @ [AnnounceOwner b]"
    and enter: "enter = [] \<or> (\<exists>x y. enter = [SendTo b [CursorEnter x y]])"
    using hands unfolding hands_to_def by blast
  have old: "machine_fits ms h j (pn_router s j)" "owner (pn_router s j) = h" "announced_owner (pn_router s j) = None"
    if "j \<in> set ms" for j
  proof -
    show "machine_fits ms h j (pn_router s j)" using inv that by (simp add: pointer_inv_def)
    show none: "announced_owner (pn_router s j) = None" using settled that by (simp add: settled_def)
    have "(j, OwnerIs h) \<notin> set (pn_flight s)" using settled by (auto simp: settled_def)
    moreover have "informed h j (pn_router s j) (pn_flight s)" using inv that by (simp add: pointer_inv_def)
    ultimately show "owner (pn_router s j) = h" using none by (simp add: informed_def)
  qed
  have "owner ?r = i" using hands old(1) [OF i] by (simp add: hands_to_def machine_fits_def)
  then have "h = i" "b \<noteq> i" using old(1,2) [OF i] hands by (auto simp: hands_to_def machine_fits_def)
  have "machine_fits ms b i ?r'"
    using old [OF i] hands b \<open>b \<noteq> i\<close> router_step_ok [of ?r w e] by (simp add: machine_fits_def hands_to_def)
  moreover have "machine_fits ms b j (pn_router s j)" if "j \<in> set ms" "j \<noteq> i" for j
    using old [OF that(1)] that(2) \<open>h = i\<close> by (simp add: machine_fits_def)
  moreover have "message_fits ms b m" if "m \<in> set (pn_flight s)" for m
  proof -
    have "message_fits ms h m" "\<not> handing (snd m)" using inv settled that by (auto simp: pointer_inv_def settled_def)
    then show ?thesis by (cases "snd m") (simp_all add: message_fits_def)
  qed
  moreover obtain new where new: "new = concat (map (messages_of ms i) (enter @ [AnnounceOwner b]))" by simp
  moreover have "message_fits ms b m" if "m \<in> set new" for m
    using that enter b by (auto simp: new message_fits_def)
  moreover have "informed b j (pn_router s j) (pn_flight s @ new)" if "j \<in> set ms" "j \<noteq> i" for j
    using that by (simp add: new informed_def)
  moreover have "informed b i ?r' flight" for flight using hands by (simp add: hands_to_def informed_def)
  ultimately show ?thesis unfolding turn_eq [OF es(1), of ms] es(2) new [symmetric] pointer_inv_def using b by auto
qed

lemma staying_turn_keeps_inv:
  assumes "pointer_inv ms h s" and "i \<in> set ms" and "stays (pn_router s i) (router_step w e (pn_router s i))"
  shows "pointer_inv ms h (net_turn ms w i e s)"
proof -
  let ?r = "pn_router s i" and ?r' = "router_step w e (pn_router s i)"
  have old: "machine_fits ms h i ?r" "informed h i ?r (pn_flight s)" using assms(1,2) by (simp_all add: pointer_inv_def)
  obtain es where es: "effects ?r' = effects ?r @ es" "filter is_message es = []" using assms(3) unfolding stays_def by blast
  have fits: "machine_fits ms h i ?r'" "informed h i ?r' (pn_flight s)"
    using old assms(3) router_step_ok [of ?r w e] by (simp_all add: machine_fits_def informed_def stays_def)
  show ?thesis by (rule quiet_turn_keeps_inv [OF inv_others [OF assms(1)] fits es(1)]) (simp add: es(2))
qed

lemma hands_announces: "hands_to b r r' \<Longrightarrow> announces r r'"
proof -
  assume "hands_to b r r'"
  then obtain es enter where es: "effects r' = effects r @ es" "filter is_message es = enter @ [AnnounceOwner b]"
    unfolding hands_to_def by blast
  then have "AnnounceOwner b \<in> set (filter is_message es)" by simp
  then show ?thesis by (auto simp: announces_def new_effects_def es(1))
qed

lemma moving_turn_keeps_inv:
  assumes inv: "pointer_inv ms h s" and i: "i \<in> set ms" and on: "w_online w = set ms"
    and calm: "announces (pn_router s i) (router_step w e (pn_router s i)) \<longrightarrow> settled ms s"
    and "stays (pn_router s i) (router_step w e (pn_router s i)) \<or>
      (\<exists>b \<in> insert (local_machine (pn_router s i)) (w_online w). hands_to b (pn_router s i) (router_step w e (pn_router s i)))"
  shows "\<exists>h'. pointer_inv ms h' (net_turn ms w i e s)"
  using assms(5)
proof (elim disjE bexE)
  assume "stays (pn_router s i) (router_step w e (pn_router s i))"
  then show ?thesis using staying_turn_keeps_inv [OF inv i] by blast
next
  fix b
  assume b: "b \<in> insert (local_machine (pn_router s i)) (w_online w)"
    and hands: "hands_to b (pn_router s i) (router_step w e (pn_router s i))"
  then have "b \<in> set ms" using on by (auto simp: hands_to_def)
  moreover have "settled ms s" using calm hands_announces [OF hands] by blast
  ultimately show ?thesis using handing_turn_keeps_inv [OF inv i _ _ hands] by blast
qed

lemma applied_fields:
  "local_machine (apply_announcement w r) = local_machine r" "announced_owner (apply_announcement w r) = None"
  "owner (apply_announcement w r) = (case announced_owner r of None \<Rightarrow> owner r | Some m \<Rightarrow> m)"
  "\<not> list_ex is_enter (pending r) \<Longrightarrow> \<not> list_ex is_enter (pending (apply_announcement w r))"
  "\<exists>es. effects (apply_announcement w r) = effects r @ es \<and> filter is_message es = []"
  by (simp_all add: apply_announcement_def Let_def split: option.split)

lemma flush_turn_keeps_inv:
  assumes inv: "pointer_inv ms h s" and i: "i \<in> set ms"
  shows "pointer_inv ms h (net_turn ms w i FlushTick s)"
proof -
  let ?r = "pn_router s i" and ?q = "apply_announcement w (pn_router s i)"
  have old: "machine_fits ms h i ?r" "informed h i ?r (pn_flight s)" "h \<in> set ms" using inv i by (simp_all add: pointer_inv_def)
  have owner: "owner ?q = owner ?r \<or> owner ?q = h" using old(1) by (auto simp: applied_fields(3) machine_fits_def)
  have fits: "machine_fits ms h i (router_step w FlushTick ?r)"
    using old owner router_step_ok [of ?r w FlushTick] by (auto simp: machine_fits_def applied_fields)
  have told: "informed h i (router_step w FlushTick ?r) (pn_flight s)"
    using old(2) owner by (cases "announced_owner ?r") (auto simp: informed_def applied_fields)
  obtain es where es: "effects ?q = effects ?r @ es" "filter is_message es = []" using applied_fields(5) by blast
  have plain: "\<not> list_ex is_enter (pending ?q)" using old(1) by (intro applied_fields(4)) (simp add: machine_fits_def)
  show ?thesis
  proof (cases "pending ?q = [] \<or> owner ?q = local_machine ?q")
    case True
    then have "effects (router_step w FlushTick ?r) = effects ?r @ es" by (simp add: flush_effects es(1))
    then show ?thesis by (rule quiet_turn_keeps_inv [OF inv_others [OF inv] fits told]) (simp add: es(2))
  next
    case False
    then have "effects (router_step w FlushTick ?r) = effects ?r @ es @ [SendTo (owner ?q) (pending ?q)]"
      by (simp add: flush_effects es(1))
    then show ?thesis by (rule quiet_turn_keeps_inv [OF inv_others [OF inv] fits told]) (simp add: es(2) plain)
  qed
qed

lemma net_turn_keeps_inv:
  assumes inv: "pointer_inv ms h s" and i: "i \<in> set ms" and on: "w_online w = set ms"
    and e: "e \<in> {HeartbeatTick, FlushTick} \<union> {LocalInput x | x. \<not> is_enter x} \<union> {RemoteBatch es | es. \<not> list_ex is_enter es}"
    and calm: "announces (pn_router s i) (router_step w e (pn_router s i)) \<longrightarrow> settled ms s"
  shows "\<exists>h'. pointer_inv ms h' (net_turn ms w i e s)"
proof -
  let ?r = "pn_router s i"
  have old: "local_machine ?r = i" "router_ok ?r" "owner ?r \<in> set ms" "\<not> list_ex is_enter (pending ?r)" "machine_fits ms h i ?r"
    "informed h i ?r (pn_flight s)"
    using inv i by (simp_all add: pointer_inv_def machine_fits_def)
  note moves = moving_turn_keeps_inv [OF inv i on calm]
  show ?thesis
  proof (cases e)
    case HeartbeatTick
    then show ?thesis using old(3) on by (intro moves) (simp add: owner_is_reachable_def)
  next
    case FlushTick
    then show ?thesis using flush_turn_keeps_inv [OF inv i] by blast
  next
    case (LocalInput x)
    then have x: "\<not> is_enter x" using e by simp
    show ?thesis
    proof (cases "owner ?r = i")
      case True
      then show ?thesis
        using plain_input_stays_or_hands(2) [OF old(2) x, where src = Local and w = w] old(1) LocalInput by (intro moves) simp
    next
      case False
      then have step: "router_step w e ?r = ?r\<lparr>pending := pending ?r @ [x]\<rparr>"
        using LocalInput old(1) by (cases x) (simp_all add: handle_def)
      then have "machine_fits ms h i (router_step w e ?r)" "informed h i (router_step w e ?r) (pn_flight s)"
        using old(5,6) x router_step_ok [OF old(2), of w e] by (simp_all add: machine_fits_def informed_def)
      then show ?thesis using quiet_turn_keeps_inv [OF inv_others [OF inv], of i w e "[]"] step by auto
    qed
  next
    case (RemoteBatch es)
    then have es: "\<not> list_ex is_enter es" using e by simp
    show ?thesis
      using plain_batch_stays_or_hands [OF old(2) es, of w] old(1) RemoteBatch
      by (intro moves) (cases "owner ?r = i"; simp)
  next
    case (Announced m)
    then show ?thesis using e by simp
  qed
qed

text \<open>Messages of a handover reach the machine that gets the pointer, or tell of it.\<close>

lemma told_turn_keeps_inv:
  assumes inv: "others_fit ms h i s" and r: "machine_fits ms h i (pn_router s i)"
  shows "pointer_inv ms h (net_turn ms w i (Announced h) s)"
proof (rule quiet_turn_keeps_inv [OF inv])
  show "machine_fits ms h i (router_step w (Announced h) (pn_router s i))"
    using r router_step_ok [of "pn_router s i" w "Announced h"] by (simp add: machine_fits_def)
next
  show "filter is_message [] = [] \<or> (\<exists>j xs. filter is_message [] = [SendTo j xs] \<and> \<not> list_ex is_enter xs)" by simp
qed (simp_all add: informed_def)

lemma entered_turn_keeps_inv:
  assumes inv: "others_fit ms i i s" and r: "machine_fits ms i i (pn_router s i)"
  shows "pointer_inv ms i (net_turn ms w i (RemoteBatch [CursorEnter x y]) s)"
proof -
  let ?r = "pn_router s i" and ?r' = "router_step w (RemoteBatch [CursorEnter x y]) (pn_router s i)"
  have i: "i \<in> set ms" "local_machine ?r = i" using inv r by (simp_all add: others_fit_def machine_fits_def)
  have fields: "local_machine ?r' = i" "owner ?r' = i" "announced_owner ?r' = announced_owner ?r"
    "owner ?r = i \<Longrightarrow> pending ?r' = pending ?r" "owner ?r \<noteq> i \<Longrightarrow> pending ?r' = []"
    using i(2) by (simp_all add: handle_enter)
  have "\<not> list_ex is_enter (pending ?r')" using fields(4,5) r by (cases "owner ?r = i") (simp_all add: machine_fits_def)
  moreover have "router_ok ?r'" using r by (intro router_step_ok) (simp add: machine_fits_def)
  moreover have "announced_owner ?r' \<in> {None, Some i}" using fields(3) r by (simp only: machine_fits_def)
  ultimately have fits: "machine_fits ms i i ?r'"
    unfolding machine_fits_def using fields(1,2) i(1) by simp
  obtain es where es: "effects ?r' = effects ?r @ es" "filter is_message es = []"
    using i(2) by (cases "owner ?r = i") (auto simp: handle_enter)
  have "informed i i ?r' (pn_flight s)" using fields(2) by (simp add: informed_def)
  then show ?thesis by (rule quiet_turn_keeps_inv [OF inv fits _ es(1)]) (simp add: es(2))
qed

lemma delivered_set:
  assumes "k < length xs"
  shows "set (take k xs @ drop (Suc k) xs) \<subseteq> set xs" "set xs \<subseteq> insert (xs ! k) (set (take k xs @ drop (Suc k) xs))"
proof -
  have "set xs = set (take k xs @ xs ! k # drop (Suc k) xs)" using id_take_nth_drop [OF assms] by simp
  then show "set (take k xs @ drop (Suc k) xs) \<subseteq> set xs" "set xs \<subseteq> insert (xs ! k) (set (take k xs @ drop (Suc k) xs))"
    by auto
qed

lemma arrival_keeps_inv:
  assumes inv: "pointer_inv ms h s" and k: "k < length (pn_flight s)" and on: "w_online w = set ms"
    and msg: "pn_flight s ! k = (i, msg)"
    and calm: "announces (pn_router s i) (router_step w (arrival msg) (pn_router s i)) \<longrightarrow> settled ms s"
  shows "\<exists>h'. pointer_inv ms h' (net_deliver ms w k s)"
proof -
  let ?s = "s\<lparr>pn_flight := take k (pn_flight s) @ drop (Suc k) (pn_flight s)\<rparr>"
  have deliver: "net_deliver ms w k s = net_turn ms w i (arrival msg) ?s" by (simp add: net_deliver_def msg)
  note left = delivered_set [OF k]
  have "(i, msg) \<in> set (pn_flight s)" using k msg nth_mem by fastforce
  then have fits: "message_fits ms h (i, msg)" and i: "i \<in> set ms" using inv by (auto simp: pointer_inv_def message_fits_def)
  have r: "machine_fits ms h i (pn_router ?s i)" using inv i by (simp add: pointer_inv_def)
  have stays: "informed h j (pn_router s j) (pn_flight ?s)" if "j \<in> set ms" "j \<noteq> i \<or> (\<forall>b. msg \<noteq> OwnerIs b)" for j
    using inv that left(2) msg by (auto simp: pointer_inv_def informed_def)
  have others: "others_fit ms h i ?s"
    using inv left(1) stays by (auto simp: pointer_inv_def others_fit_def)
  show ?thesis
  proof (cases msg)
    case (OwnerIs b)
    then have "b = h" using fits by (simp add: message_fits_def)
    then show ?thesis using told_turn_keeps_inv [OF others r] OwnerIs deliver by auto
  next
    case (InputFor es)
    show ?thesis
    proof (cases "list_ex is_enter es")
      case True
      then obtain x y where enter: "i = h" "es = [CursorEnter x y]"
        using fits InputFor by (auto simp: message_fits_def)
      show ?thesis
        using entered_turn_keeps_inv [of ms h ?s w x y] others r InputFor deliver unfolding enter by auto
    next
      case False
      have kept: "pointer_inv ms h ?s"
        using inv others stays [of i] i r InputFor by (auto simp: pointer_inv_def others_fit_def)
      have "settled ms s \<longrightarrow> settled ms ?s" using left(1) by (auto simp: settled_def)
      then show ?thesis
        unfolding deliver using False calm InputFor by (intro net_turn_keeps_inv [OF kept i on]) auto
    qed
  qed
qed

lemma agreed_inv: "agreed ms h s \<Longrightarrow> pointer_inv ms h s"
  by (auto simp: agreed_def pointer_inv_def machine_fits_def informed_def Let_def)

lemma reaches_pointer_inv: "pointer_reaches ms s0 s \<Longrightarrow> agreed ms h s0 \<Longrightarrow> \<exists>h'. pointer_inv ms h' s"
proof (induction rule: pointer_reaches.induct)
  case Begin
  then show ?case using agreed_inv by blast
next
  case (Go s t)
  then obtain h' where inv: "pointer_inv ms h' s" by blast
  from Go(2) show ?case
  proof cases
    case (Turn i w e)
    show ?thesis unfolding Turn(1) by (rule net_turn_keeps_inv [OF inv Turn(2,3) _ Turn(5)]) (use Turn(4) in blast)
  next
    case (Deliver k w i msg)
    show ?thesis unfolding Deliver(1) by (rule arrival_keeps_inv [OF inv Deliver(2-5)])
  qed
qed

section \<open>Property\<close>


text \<open>
  Three machines side by side, all of which know that the first has the pointer, which stands at
  its right edge; then the same after the pointer has crossed.
\<close>

definition all_on :: world where
  "all_on = sample_world\<lparr>w_online := {1, 2, 3}\<rparr>"

definition sample_pointers :: pointer_net where
  "sample_pointers = \<lparr>pn_router = (\<lambda>i. if i = 1 then sample_router 1
     else router_run [(all_on, Announced 1), (all_on, FlushTick)] (sample_router i)), pn_flight = []\<rparr>"

definition sample_handed :: pointer_net where
  "sample_handed = net_turn [1, 2, 3] all_on 1 (LocalInput (MouseMove 30 0)) sample_pointers"

lemma sample_pointers_agree: "agreed [1, 2, 3] 1 sample_pointers"
proof -
  have "router_ok (pn_router sample_pointers i)" for i
    using router_run_ok [OF sample_router_ok] sample_router_ok by (simp add: sample_pointers_def del: router_run.simps)
  moreover have "local_machine (pn_router sample_pointers i) = i" for i
    by (simp add: sample_pointers_def del: router_run.simps)
  moreover have "owner (pn_router sample_pointers i) = 1" for i
    using announced_owner_applied [OF sample_router_ok] by (simp add: sample_pointers_def del: router_run.simps)
  moreover have "announced_owner (pn_router sample_pointers i) = None \<and> pending (pn_router sample_pointers i) = []" for i
    by (simp add: sample_pointers_def sample_router_def router_start_def applied_fields Let_def)
  ultimately show ?thesis by (simp add: agreed_def sample_pointers_def Let_def)
qed

lemma sample_handed_step: "pointer_step [1, 2, 3] sample_pointers sample_handed"
  unfolding sample_handed_def
proof (rule Turn)
  show "LocalInput (MouseMove 30 0) \<in> {HeartbeatTick, FlushTick} \<union> {LocalInput x | x. \<not> is_enter x}" by simp
  have "settled [1, 2, 3] sample_pointers" using sample_pointers_agree by (simp add: agreed_def settled_def Let_def)
  then show "announces (pn_router sample_pointers 1) (router_step all_on (LocalInput (MouseMove 30 0)) (pn_router sample_pointers 1)) \<longrightarrow>
      settled [1, 2, 3] sample_pointers" ..
qed (simp_all add: all_on_def)

lemma sample_handed_owners:
  "owner (pn_router sample_handed 1) = 2" "owner (pn_router sample_handed 2) = 1" "length (pn_flight sample_handed) = 3"
  by code_simp+


section \<open>Handovers that overlap\<close>

text \<open>
  Why one at a time. The pointer crosses to the second machine and, before that machine has looked
  at the announcement of it, back. The announcement is applied after the second handover, and when
  everything has arrived two machines hold the pointer.
\<close>

definition bounce :: pointer_net where
  "bounce =
     (let ms = [1, 2];
          s = net_turn ms all_on 1 (LocalInput (MouseMove 30 0)) sample_pointers;
          s = net_deliver ms all_on 0 s;
          s = net_deliver ms all_on 0 s;
          s = net_turn ms all_on 2 (LocalInput (MouseMove (- 30) 0)) s;
          s = net_turn ms all_on 2 FlushTick s;
          s = net_deliver ms all_on 0 s;
          s = net_deliver ms all_on 0 s
      in net_turn ms all_on 1 FlushTick s)"

theorem bounce_leaves_two_owners:
  "pn_flight bounce = [] \<and> owner (pn_router bounce 1) = 1 \<and> owner (pn_router bounce 2) = 2 \<and>
   announced_owner (pn_router bounce 1) = None \<and> announced_owner (pn_router bounce 2) = None"
  by code_simp

text \<open>
  The pointer crosses from the first machine to the second and on to the third, where the first
  announcement arrives last: nobody holds the pointer, and every machine swallows its input.
\<close>

definition late :: pointer_net where
  "late =
     (let ms = [1, 2, 3];
          s = net_turn ms all_on 1 (LocalInput (MouseMove 30 0)) sample_pointers;
          s = net_deliver ms all_on 0 s;
          s = net_deliver ms all_on 0 s;
          s = net_turn ms all_on 2 FlushTick s;
          s = net_turn ms all_on 2 (LocalInput (MouseMove 1950 0)) s;
          s = net_deliver ms all_on 1 s;
          s = net_deliver ms all_on 2 s;
          s = net_turn ms all_on 3 FlushTick s;
          s = net_deliver ms all_on 0 s;
          s = net_deliver ms all_on 0 s;
          s = net_turn ms all_on 3 FlushTick s
      in net_turn ms all_on 1 FlushTick s)"

theorem late_announcement_loses_pointer:
  "pn_flight late = [] \<and> map (\<lambda>i. owner (pn_router late i)) [1, 2, 3] = [3, 3, 2] \<and>
   list_all (\<lambda>i. swallowing (pn_router late i) \<and> announced_owner (pn_router late i) = None) [1, 2, 3]"
  by code_simp

end
