(* ===== verification/Link.thy ===== *)
theory Link
  imports Session
begin

text \<open>
  The writing side of a session (the task \<^verbatim>\<open>writer_task\<close> of \<^verbatim>\<open>crates/is-net/src/session.rs\<close>) and
  the link it makes with the reading side at the other end: what is queued for a peer is what
  the peer handles, in order.

  The task waits for the queue and for a timer, whichever is first; a list of \<open>writer_event\<close>s
  is one outcome of that. It owns the writing half of the connection and the sealer, and the
  read loop owns the reading half, so on the record \<open>session_io\<close> they touch different fields.
  When the read loop ends the task is aborted, which can cut what it writes at any byte.
\<close>

section \<open>The writer task\<close>

datatype writer_event = Outgoing message | QueueClosed | HeartbeatDue

datatype writer_end = StillWriting | ShutDown | WriteFailed

fun writer_run ::
  "crypto \<Rightarrow> wire_format \<Rightarrow> writer_event list \<Rightarrow> u64 \<Rightarrow> channel_direction \<Rightarrow> 's session_io
     \<Rightarrow> 's session_io \<times> writer_end" where
  "writer_run C J [] beat sealer io = (io, StillWriting)"
| "writer_run C J (Outgoing message # es) beat sealer io =
     (case send_message C J message sealer io of
        ((sealer, io), Inl _) \<Rightarrow> (io, WriteFailed)
      | ((sealer, io), Inr _) \<Rightarrow> writer_run C J es beat sealer io)"
| "writer_run C J (QueueClosed # es) beat sealer io = (io, ShutDown)"
| "writer_run C J (HeartbeatDue # es) beat sealer io =
     (case send_message C J (Ping (beat + 1)) sealer io of
        ((sealer, io), Inl _) \<Rightarrow> (io, WriteFailed)
      | ((sealer, io), Inr _) \<Rightarrow> writer_run C J es (beat + 1) sealer io)"

section \<open>What each end is about\<close>

text \<open>The messages a run of the writer is about, and what becomes of messages at the other end.\<close>

fun messages_of :: "u64 \<Rightarrow> writer_event list \<Rightarrow> message list" where
  "messages_of beat [] = []"
| "messages_of beat (Outgoing m # es) = m # messages_of beat es"
| "messages_of beat (QueueClosed # es) = []"
| "messages_of beat (HeartbeatDue # es) = Ping (beat + 1) # messages_of (beat + 1) es"

fun handle_all ::
  "'s workspace_trait \<Rightarrow> wire_format \<Rightarrow> machine_id \<Rightarrow> message list \<Rightarrow> 's session_io \<Rightarrow> 's session_io \<times> string" where
  "handle_all W J peer [] io = (fst (next_frame io), error_text J UnexpectedEof)"
| "handle_all W J peer (m # ms) io =
     (case handle_message W J peer m (fst (next_frame io)) of
        (io, Some reason) \<Rightarrow> (io, reason)
      | (io, None) \<Rightarrow> handle_all W J peer ms io)"

text \<open>The frames of a byte stream, as the reading side gets them, and then the end of the stream.\<close>

definition arriving :: "bytes \<Rightarrow> (net_error + bytes) list" where
  "arriving stream = (let (frames, e) = read_frames stream in map Inr frames @ [Inl e])"

section \<open>Frames\<close>

lemma cut_stream:
  assumes "list_all2 (\<lambda>b out. write_frame b = Inr out) msgs outs"
  shows "\<exists>k. read_frames (take n (concat outs)) = (take k msgs, UnexpectedEof) \<and>
    (length (concat outs) \<le> n \<longrightarrow> k = length msgs)"
  using assms
proof (induction arbitrary: n rule: list_all2_induct)
  case Nil
  have "read_frames [] = ([], UnexpectedEof)"
    by (subst read_frames.simps) (simp add: read_frame_def read_exact_def)
  then show ?case by simp
next
  case (Cons b bs out outs)
  show ?case
  proof (cases "n < length out")
    case True
    then have "read_frames (take n (concat (out # outs))) = ([], UnexpectedEof)"
      using truncated_frame [OF Cons(1) True] by (subst read_frames.simps) simp
    with True show ?thesis by (intro exI [of _ 0]) simp
  next
    case False
    then obtain m where n: "n = length out + m" by (metis le_iff_add not_less)
    from Cons(3) [of m] obtain k where
      "read_frames (take m (concat outs)) = (take k bs, UnexpectedEof)"
      and "length (concat outs) \<le> m \<longrightarrow> k = length bs" by blast
    with n show ?thesis
      by (intro exI [of _ "Suc k"], subst read_frames.simps) (simp add: read_written [OF Cons(1)])
  qed
qed

section \<open>One message across\<close>

lemma seal_open:
  assumes "crypto_ok C" and "seal C m dir = (dir', Inr c)"
  shows "open_frame C c dir = (dir', Inr m)"
  using open_sealed [OF assms(1), of "[m]" dir dir' "[c]"] assms(2) by (auto simp: split_def prod_eq_iff Let_def)

lemma sent_message:
  assumes "send_message C J m sealer io = ((sealer', io'), Inr ())"
  obtains p c f where "enc (message_codec J) m = Some p" and "seal C p sealer = (sealer', Inr c)"
    and "write_frame c = Inr f" and "io_out io' = io_out io @ f"
  using assms
  by (auto simp: send_message_def put_frame_def split: option.splits prod.splits sum.splits if_splits)

lemma failed_message:
  "send_message C J m sealer io = ((sealer', io'), Inl e) \<Longrightarrow> io_out io' = io_out io"
  by (auto simp: send_message_def put_frame_def split: option.splits prod.splits sum.splits if_splits)

text \<open>Sealed frames that carry these messages, in the state of the sealer they start from.\<close>

fun carries :: "crypto \<Rightarrow> wire_format \<Rightarrow> message list \<Rightarrow> bytes list \<Rightarrow> channel_direction \<Rightarrow> bool" where
  "carries C J [] cs dir = (cs = [])"
| "carries C J (m # ms) cs dir = (\<exists>p c dir' cs'. cs = c # cs' \<and> enc (message_codec J) m = Some p \<and>
     seal C p dir = (dir', Inr c) \<and> carries C J ms cs' dir')"

lemma carries_take: "carries C J ms cs dir \<Longrightarrow> carries C J (take k ms) (take k cs) dir"
proof (induction ms arbitrary: k cs dir)
  case (Cons m ms)
  then show ?case by (cases k) auto
qed simp

lemma carries_length: "carries C J ms cs dir \<Longrightarrow> length cs = length ms"
  by (induction ms arbitrary: cs dir) auto

lemma writer_writes:
  assumes "writer_run C J es beat sealer io = (io', fin)"
  shows "\<exists>j cs outs. io_out io' = io_out io @ concat outs \<and> list_all2 (\<lambda>b out. write_frame b = Inr out) cs outs \<and>
    carries C J (take j (messages_of beat es)) cs sealer \<and> (fin \<noteq> WriteFailed \<longrightarrow> j = length (messages_of beat es))"
  using assms
proof (induction C J es beat sealer io rule: writer_run.induct)
  case (2 C J m es beat sealer io)
  obtain sealer1 io1 r where sent: "send_message C J m sealer io = ((sealer1, io1), r)" by (metis prod.collapse)
  show ?case
  proof (cases r)
    case (Inl e)
    with 2(2) sent failed_message [of C J m sealer io sealer1 io1 e] show ?thesis
      by (intro exI [of _ 0] exI [of _ "[]"]) simp
  next
    case (Inr u)
    obtain p c f where one: "enc (message_codec J) m = Some p" "seal C p sealer = (sealer1, Inr c)"
      "write_frame c = Inr f" "io_out io1 = io_out io @ f"
      using sent_message [of C J m sealer io sealer1 io1] sent Inr by auto
    from 2(1) [OF sent [symmetric] refl Inr] 2(2) sent Inr obtain j cs outs where
      "io_out io' = io_out io1 @ concat outs" "list_all2 (\<lambda>b out. write_frame b = Inr out) cs outs"
      "carries C J (take j (messages_of beat es)) cs sealer1" "fin \<noteq> WriteFailed \<longrightarrow> j = length (messages_of beat es)"
      by auto
    with one show ?thesis
      by (intro exI [of _ "Suc j"] exI [of _ "c # cs"] exI [of _ "f # outs"]) auto
  qed
next
  case (4 C J es beat sealer io)
  let ?m = "Ping (beat + 1)"
  obtain sealer1 io1 r where sent: "send_message C J ?m sealer io = ((sealer1, io1), r)" by (metis prod.collapse)
  show ?case
  proof (cases r)
    case (Inl e)
    with 4(2) sent failed_message [of C J ?m sealer io sealer1 io1 e] show ?thesis
      by (intro exI [of _ 0] exI [of _ "[]"]) simp
  next
    case (Inr u)
    obtain p c f where one: "enc (message_codec J) ?m = Some p" "seal C p sealer = (sealer1, Inr c)"
      "write_frame c = Inr f" "io_out io1 = io_out io @ f"
      using sent_message [of C J ?m sealer io sealer1 io1] sent Inr by auto
    from 4(1) [OF sent [symmetric] refl Inr] 4(2) sent Inr obtain j cs outs where
      "io_out io' = io_out io1 @ concat outs" "list_all2 (\<lambda>b out. write_frame b = Inr out) cs outs"
      "carries C J (take j (messages_of (beat + 1) es)) cs sealer1"
      "fin \<noteq> WriteFailed \<longrightarrow> j = length (messages_of (beat + 1) es)"
      by auto
    with one show ?thesis
      by (intro exI [of _ "Suc j"] exI [of _ "c # cs"] exI [of _ "f # outs"]) auto
  qed
qed (auto intro: exI [of _ "[]"])

lemma read_loop_handles:
  assumes "crypto_ok C" and "carries C J ms cs dir"
    and "\<forall>m \<in> set ms. \<forall>b. enc (message_codec J) m = Some b \<longrightarrow> dec (message_codec J) b = Some m"
    and "map snd (io_in io) = map Inr cs @ [Inl UnexpectedEof]"
  shows "read_loop W C J peer dir io = handle_all W J peer ms io"
  using assms(2-4)
proof (induction ms arbitrary: cs dir io)
  case Nil
  then obtain others where "io_in io = [(others, Inl UnexpectedEof)]" by auto
  then show ?case
    by (simp add: read_loop.simps [of W C J peer dir] recv_message_def next_frame_def)
next
  case (Cons m ms)
  then obtain p c dir1 cs1 where one: "cs = c # cs1" "enc (message_codec J) m = Some p" "seal C p dir = (dir1, Inr c)"
    and rest: "carries C J ms cs1 dir1" by auto
  with Cons(4) obtain others more where inp: "io_in io = (others, Inr c) # more"
    and more: "map snd more = map Inr cs1 @ [Inl UnexpectedEof]" by auto
  then obtain io1 where io: "next_frame io = (io1, Inr c)" "io_in io1 = more" by (simp add: next_frame_def)
  have "dec (message_codec J) p = Some m" using Cons(3) one by simp
  then have recv: "recv_message C J dir io = ((dir1, io1), Inr m)"
    using io seal_open [OF assms(1) one(3)] by (simp add: recv_message_def)
  obtain io2 stop where handled: "handle_message W J peer m io1 = (io2, stop)" by fastforce
  have "io_in io2 = more" using handle_message_keeps_in [OF handled] io by simp
  with Cons(1) [OF rest, of io2] Cons(3) more have "read_loop W C J peer dir1 io2 = handle_all W J peer ms io2" by simp
  with recv handled show ?case
    using io by (simp add: read_loop.simps [of W C J peer dir io] split: option.split)
qed

text \<open>The two tasks of a session do not get in each other's way.\<close>

lemma send_message_writes:
  "\<exists>out room. snd (fst (send_message C J m sealer io)) = io\<lparr>io_out := out, io_room := room\<rparr>"
proof -
  have "\<exists>out room. fst (put_frame b io) = io\<lparr>io_out := out, io_room := room\<rparr>" for b
    by (cases io) (auto simp: put_frame_def split: sum.split)
  moreover have "\<exists>out room. io = io\<lparr>io_out := out, io_room := room\<rparr>" by (cases io) auto
  ultimately show ?thesis by (auto simp: send_message_def split_def Let_def split: option.split sum.split)
qed

lemma writer_touches_output_only:
  "\<exists>out room. fst (writer_run C J es beat sealer io) = io\<lparr>io_out := out, io_room := room\<rparr>"
proof (induction C J es beat sealer io rule: writer_run.induct)
  case (1 C J beat sealer io)
  show ?case by (cases io) auto
next
  case (2 C J m es beat sealer io)
  obtain out room where sent: "snd (fst (send_message C J m sealer io)) = io\<lparr>io_out := out, io_room := room\<rparr>"
    using send_message_writes by blast
  show ?case
  proof (cases "snd (send_message C J m sealer io)")
    case (Inr u)
    from 2 [of "fst (send_message C J m sealer io)" "Inr u" "fst (fst (send_message C J m sealer io))" _ u] sent Inr
    show ?thesis by (fastforce simp: split_def prod_eq_iff)
  qed (use sent in \<open>auto simp: split_def\<close>)
next
  case (3 C J es beat sealer io)
  show ?case by (cases io) auto
next
  case (4 C J es beat sealer io)
  obtain out room where sent: "snd (fst (send_message C J (Ping (beat + 1)) sealer io)) = io\<lparr>io_out := out, io_room := room\<rparr>"
    using send_message_writes by blast
  show ?case
  proof (cases "snd (send_message C J (Ping (beat + 1)) sealer io)")
    case (Inr u)
    from 4 [of "fst (send_message C J (Ping (beat + 1)) sealer io)" "Inr u" "fst (fst (send_message C J (Ping (beat + 1)) sealer io))" _ u] sent Inr
    show ?thesis by (fastforce simp: split_def prod_eq_iff)
  qed (use sent in \<open>auto simp: split_def\<close>)
qed

section \<open>Properties\<close>

text \<open>
  C26: What one machine queues for another is what the other handles, in order. The writer of one
  end runs on any interleaving of its queue and its timer, and fails or is aborted anywhere; the
  bytes reach the other end up to any point of the stream. Then the read loop there handles a
  prefix of the messages, each exactly once and in order, as if it had been handed them
  directly, and ends with the stream; it handles all of them if nothing was cut off.
\<close>

theorem link_delivers_in_order:
  assumes "crypto_ok C" and "writer_run C J es beat dir here = (here', fin)" and "io_out here' = io_out here @ out"
    and "\<forall>m \<in> set (messages_of beat es). \<forall>b. enc (message_codec J) m = Some b \<longrightarrow> dec (message_codec J) b = Some m"
    and "map snd (io_in there) = arriving (take n out)"
  shows "\<exists>k. read_loop W C J peer dir there = handle_all W J peer (take k (messages_of beat es)) there \<and>
    (fin \<noteq> WriteFailed \<and> length out \<le> n \<longrightarrow> k = length (messages_of beat es))"
proof -
  let ?ms = "messages_of beat es"
  from writer_writes [OF assms(2)] assms(3) obtain j cs outs where
    cs: "out = concat outs" "list_all2 (\<lambda>b out. write_frame b = Inr out) cs outs"
    "carries C J (take j ?ms) cs dir" "fin \<noteq> WriteFailed \<longrightarrow> j = length ?ms" by auto
  from cut_stream [OF cs(2), of n] obtain k where
    k: "read_frames (take n out) = (take k cs, UnexpectedEof)" "length out \<le> n \<longrightarrow> k = length cs"
    unfolding cs(1) by blast
  let ?sent = "take k (take j ?ms)"
  have "carries C J ?sent (take k cs) dir" by (rule carries_take [OF cs(3)])
  moreover have "\<forall>m \<in> set ?sent. \<forall>b. enc (message_codec J) m = Some b \<longrightarrow> dec (message_codec J) b = Some m"
    using assms(4) by (meson in_set_takeD)
  moreover have "map snd (io_in there) = map Inr (take k cs) @ [Inl UnexpectedEof]"
    using assms(5) k(1) by (simp add: arriving_def)
  ultimately have "read_loop W C J peer dir there = handle_all W J peer ?sent there"
    by (rule read_loop_handles [OF assms(1)])
  then show ?thesis
    using cs(4) k(2) carries_length [OF cs(3)] by (intro exI [of _ "min k j"]) (auto simp: take_take)
qed

definition sample_link :: wire_format where
  "sample_link = sample_format\<lparr>message_codec := \<lparr>
     enc = (\<lambda>m. case m of Ping n \<Rightarrow> if n = 1 then Some [0] else None | CursorOwner i \<Rightarrow> if i = 2 then Some [1] else None | _ \<Rightarrow> None),
     dec = (\<lambda>b. case b of [] \<Rightarrow> None | x # r \<Rightarrow> if x = 0 then Some (Ping 1) else Some (CursorOwner 2))\<rparr>\<rparr>"

definition quiet_end :: "nat \<Rightarrow> (net_error + bytes) list \<Rightarrow> workspace_doc option session_io" where
  "quiet_end room input = \<lparr>io_state = None, io_in = map (Pair id) input, io_out = [], io_room = room,
     io_actor_alive = True, io_inbox = []\<rparr>"

theorem link_delivers_in_order_witness:
  "\<exists>out fin. (let es = [Outgoing (CursorOwner 2), HeartbeatDue, QueueClosed]; dir = direction_new [9] in
     writer_run toy_crypto sample_link es 0 dir (quiet_end 9 []) = ((quiet_end 7 [])\<lparr>io_out := out\<rparr>, fin) \<and>
     read_loop default_workspace toy_crypto sample_link 5 dir (quiet_end 0 (arriving out)) =
       handle_all default_workspace sample_link 5 [CursorOwner 2, Ping 1] (quiet_end 0 (arriving out)))"
proof -
  let ?es = "[Outgoing (CursorOwner 2), HeartbeatDue, QueueClosed]" and ?dir = "direction_new [9]"
  obtain out where w: "writer_run toy_crypto sample_link ?es 0 ?dir (quiet_end 9 []) = ((quiet_end 7 [])\<lparr>io_out := out\<rparr>, ShutDown)"
    by (simp add: send_message_def sample_link_def seal_def next_nonce_def direction_new_def toy_crypto_def Let_def
        put_frame_def sample_write quiet_end_def)
  have "map snd (io_in (quiet_end 0 (arriving out))) = arriving (take (length out) out)"
    by (simp add: quiet_end_def o_def)
  from link_delivers_in_order [OF toy_crypto_ok w _ _ this, of default_workspace 5]
  have "\<exists>k. read_loop default_workspace toy_crypto sample_link 5 ?dir (quiet_end 0 (arriving out)) =
      handle_all default_workspace sample_link 5 (take k (messages_of 0 ?es)) (quiet_end 0 (arriving out)) \<and>
      (ShutDown \<noteq> WriteFailed \<and> length out \<le> length out \<longrightarrow> k = length (messages_of 0 ?es))"
    by (auto simp: quiet_end_def sample_link_def split: if_splits)
  with w show ?thesis by auto
qed

end
