(* ===== verification/Discovery.thy ===== *)
theory Discovery
  imports Session
begin

text \<open>
  Discovery on the local network (\<^verbatim>\<open>crates/is-net/src/discovery.rs\<close>, and from
  \<^verbatim>\<open>service.rs\<close> the description of this machine and the handle's list of typed-in addresses).

  The system is an argument: what the crate \<^verbatim>\<open>if_addrs\<close> lists, which addresses a sending socket can
  be bound to, and what arrives at the listening socket. A socket is its interface's address;
  \<^verbatim>\<open>senders\<close> is a \<^verbatim>\<open>HashMap\<close>, here the list of its keys without repetition, and no result depends
  on its order. Datagrams sent are recorded in order with the socket they leave by; whether one
  arrives is not this module's business. JSON is a codec.
\<close>

section \<open>Interfaces\<close>

type_synonym ipv4 = u32

datatype if_address = IfV4 ipv4 "ipv4 option" | IfV6 "128 word"

record raw_interface =
  ri_name :: string
  ri_loopback :: bool
  ri_address :: if_address

record interface =
  if_name :: string
  if_address :: ipv4
  if_broadcast :: "ipv4 option"
  if_self_assigned :: bool

definition GROUP :: ipv4 where "GROUP = 0xEFFF2A62"

definition octet :: "nat \<Rightarrow> ipv4 \<Rightarrow> u8" where
  "octet n a = ucast (drop_bit (8 * (3 - n)) a)"

definition interface_of :: "raw_interface \<Rightarrow> interface option" where
  "interface_of r =
     (case ri_address r of
        IfV4 ip broadcast \<Rightarrow> Some \<lparr>if_name = ri_name r, if_address = ip, if_broadcast = broadcast,
          if_self_assigned = octet 0 ip = 169 \<and> octet 1 ip = 254\<rparr>
      | IfV6 _ \<Rightarrow> None)"

text \<open>\<^verbatim>\<open>dedup_by\<close> keeps the first of each run of equals.\<close>

fun dedup_by :: "('a \<Rightarrow> 'a \<Rightarrow> bool) \<Rightarrow> 'a list \<Rightarrow> 'a list" where
  "dedup_by same (x # y # xs) =
     (if same y x then dedup_by same (x # xs) else x # dedup_by same (y # xs))"
| "dedup_by same xs = xs"

definition interfaces :: "raw_interface list option \<Rightarrow> interface list" where
  "interfaces found =
     (case found of
        None \<Rightarrow> []
      | Some rs \<Rightarrow> dedup_by (\<lambda>a b. if_address a = if_address b)
          (sort_key if_address (List.map_filter interface_of (filter (\<lambda>r. \<not> ri_loopback r) rs))))"

section \<open>Sending\<close>

record datagram =
  dg_by :: ipv4
  dg_to :: socket_addr
  dg_payload :: bytes

definition same_subnet :: "interface \<Rightarrow> ipv4 \<Rightarrow> bool" where
  "same_subnet i target \<longleftrightarrow>
     octet 0 (if_address i) = octet 0 target \<and> octet 1 (if_address i) = octet 1 target \<and>
     octet 2 (if_address i) = octet 2 target"

definition send_by :: "socket_addr \<Rightarrow> bytes \<Rightarrow> ipv4 \<Rightarrow> datagram" where
  "send_by to payload sender = \<lparr>dg_by = sender, dg_to = to, dg_payload = payload\<rparr>"

definition send_unicast :: "ipv4 list \<Rightarrow> interface list \<Rightarrow> socket_addr \<Rightarrow> bytes \<Rightarrow> datagram list" where
  "send_unicast senders known target payload =
     (case sa_ip target of
        V6 _ \<Rightarrow> []
      | V4 ip \<Rightarrow>
          (case find (\<lambda>i. same_subnet i ip) known of
             Some i \<Rightarrow>
               if if_address i \<in> set senders then [send_by target payload (if_address i)]
               else map (send_by target payload) senders
           | None \<Rightarrow> map (send_by target payload) senders))"

section \<open>Announcing\<close>

record announcer =
  senders :: "ipv4 list"
  known :: "interface list"

text \<open>New sockets, for the interfaces that have none; \<open>can_bind\<close> says where binding succeeds.\<close>

fun bind_all :: "(ipv4 \<Rightarrow> bool) \<Rightarrow> interface list \<Rightarrow> ipv4 list \<Rightarrow> ipv4 list" where
  "bind_all can_bind [] ss = ss"
| "bind_all can_bind (i # is) ss =
     bind_all can_bind is
       (if if_address i \<in> set ss then ss
        else if can_bind (if_address i) then ss @ [if_address i] else ss)"

definition follow_interfaces :: "(ipv4 \<Rightarrow> bool) \<Rightarrow> interface list \<Rightarrow> announcer \<Rightarrow> announcer" where
  "follow_interfaces can_bind current a =
     (if current \<noteq> known a
      then a\<lparr>senders := bind_all can_bind current (filter (\<lambda>s. s \<in> set (map if_address current)) (senders a)),
             known := current\<rparr>
      else a)"

definition announce_on :: "u16 \<Rightarrow> bytes \<Rightarrow> ipv4 list \<Rightarrow> interface \<Rightarrow> datagram list" where
  "announce_on port payload ss i =
     (if if_address i \<notin> set ss then []
      else send_by \<lparr>sa_ip = V4 GROUP, sa_port = port\<rparr> payload (if_address i) #
        (case if_broadcast i of
           Some broadcast \<Rightarrow> [send_by \<lparr>sa_ip = V4 broadcast, sa_port = port\<rparr> payload (if_address i)]
         | None \<Rightarrow> []))"

text \<open>One turn of the loop in \<^verbatim>\<open>announce\<close>, woken by the timer or by hand.\<close>

definition announce_round ::
  "announcement codec \<Rightarrow> u16 \<Rightarrow> (ipv4 \<Rightarrow> bool) \<Rightarrow> interface list \<Rightarrow> socket_addr list \<Rightarrow> announcement
     \<Rightarrow> announcer \<Rightarrow> announcer \<times> datagram list" where
  "announce_round J port can_bind current manual an a =
     (let a = follow_interfaces can_bind current a in
      case enc J an of
        None \<Rightarrow> (a, [])
      | Some payload \<Rightarrow>
          (a, concat (map (announce_on port payload (senders a)) (known a)) @
            (case (if manual = [] then None else enc J (an\<lparr>an_probe := True\<rparr>)) of
               None \<Rightarrow> []
             | Some payload \<Rightarrow> concat (map (\<lambda>t. send_unicast (senders a) (known a) t payload) manual))))"

text \<open>The answer to a machine that asked to be introduced.\<close>

definition reply_to_probe ::
  "announcement codec \<Rightarrow> (ipv4 \<Rightarrow> bool) \<Rightarrow> interface list \<Rightarrow> u16 \<Rightarrow> ip_addr \<Rightarrow> announcement \<Rightarrow> datagram list" where
  "reply_to_probe J can_bind current port to an =
     (case enc J an of
        None \<Rightarrow> []
      | Some payload \<Rightarrow>
          send_unicast (bind_all can_bind current []) current \<lparr>sa_ip = to, sa_port = port\<rparr> payload)"

text \<open>\<^verbatim>\<open>describe\<close> in \<^verbatim>\<open>Service::start\<close>: this machine as it is now.\<close>

definition describe :: "'s workspace_trait \<Rightarrow> crypto \<Rightarrow> identity \<Rightarrow> u16 \<Rightarrow> 's \<Rightarrow> announcement" where
  "describe W C self port s =
     \<lparr>an_protocol = PROTOCOL_VERSION, an_machine_id = id_machine_id self,
      an_identity_key = public_key C self, an_display_name = ws_display_name W s,
      an_workspace_id = map_option doc_workspace_id (ws_snapshot W s), an_transport_port = port,
      an_probe = False, an_invitations = ws_pending_invitations W s\<rparr>"

text \<open>The handle's list of typed-in addresses.\<close>

definition service_add_manual_peer :: "socket_addr \<Rightarrow> socket_addr list \<Rightarrow> socket_addr list" where
  "service_add_manual_peer addr manual = (if addr \<in> set manual then manual else manual @ [addr])"

definition service_forget_manual_peer :: "socket_addr \<Rightarrow> socket_addr list \<Rightarrow> socket_addr list" where
  "service_forget_manual_peer addr manual = filter (\<lambda>a. a \<noteq> addr) manual"

section \<open>Listening\<close>

text \<open>
  What happens at the listening socket: a datagram (and whether the service still takes
  sightings), an error, or the periodic look at the interfaces. The buffer has 8192 bytes and a
  longer datagram is cut.
\<close>

datatype listen_event =
    Datagram bytes socket_addr bool
  | RecvFailed
  | Recheck "interface list"

datatype listen_end = StillListening | Rebind | ServiceGone

definition heard :: "announcement codec \<Rightarrow> bytes \<Rightarrow> socket_addr \<Rightarrow> sighting option" where
  "heard J payload from =
     (case dec J (take 8192 payload) of
        None \<Rightarrow> None
      | Some an \<Rightarrow> if is_current an then Some \<lparr>sg_announcement = an, sg_from = from\<rparr> else None)"

fun listen :: "announcement codec \<Rightarrow> interface list \<Rightarrow> listen_event list \<Rightarrow> sighting list \<times> listen_end" where
  "listen J on [] = ([], StillListening)"
| "listen J on (Datagram payload from taken # es) =
     (case heard J payload from of
        None \<Rightarrow> listen J on es
      | Some s \<Rightarrow>
          if taken then (let (ss, e) = listen J on es in (s # ss, e)) else ([], ServiceGone))"
| "listen J on (RecvFailed # es) = ([], Rebind)"
| "listen J on (Recheck now # es) = (if now \<noteq> on then ([], Rebind) else listen J on es)"

section \<open>Interfaces in order\<close>

lemma dedup_by_set: "(\<And>a b. same a b \<longleftrightarrow> f a = f b) \<Longrightarrow> f ` set (dedup_by same xs) = f ` set xs"
  by (induction same xs rule: dedup_by.induct) auto

lemma dedup_by_hd: "xs \<noteq> [] \<Longrightarrow> dedup_by same xs \<noteq> [] \<and> hd (dedup_by same xs) = hd xs"
  by (induction same xs rule: dedup_by.induct) auto

lemma dedup_by_subset: "set (dedup_by same xs) \<subseteq> set xs"
  by (induction same xs rule: dedup_by.induct) auto

lemma dedup_by_sorted:
  fixes f :: "'a \<Rightarrow> 'b::linorder"
  assumes "\<And>a b. same a b \<longleftrightarrow> f a = f b"
    and "sorted (map f xs)"
  shows "sorted_wrt (<) (map f (dedup_by same xs))"
  using assms
proof (induction same xs rule: dedup_by.induct)
  case (1 same x y xs)
  show ?case
  proof (cases "same y x")
    case True
    then show ?thesis using 1 by auto
  next
    case False
    have "f x < f y" using 1(4) False 1(3) by (auto simp: order_le_less)
    moreover have "f y \<le> f z" if "z \<in> set (dedup_by same (y # xs))" for z
      using that 1(4) dedup_by_subset [of same "y # xs"] by auto
    ultimately have "\<forall>z \<in> set (dedup_by same (y # xs)). f x < f z" by (blast intro: less_le_trans)
    moreover have "sorted_wrt (<) (map f (dedup_by same (y # xs)))" using 1(2) [OF False 1(3)] 1(4) by simp
    moreover have "dedup_by same (x # y # xs) = x # dedup_by same (y # xs)" using False by simp
    ultimately show ?thesis by (simp only: list.map sorted_wrt.simps set_map ball_simps)
  qed
qed simp_all

lemma interfaces_sorted: "sorted_wrt (<) (map if_address (interfaces found))"
proof (cases found)
  case (Some rs)
  show ?thesis unfolding interfaces_def Some option.case by (rule dedup_by_sorted) (rule refl, rule sorted_sort_key)
qed (simp add: interfaces_def)

lemma interface_of_Some:
  "interface_of r = Some i \<Longrightarrow> \<exists>b. ri_address r = IfV4 (if_address i) b"
  by (auto simp: interface_of_def split: if_address.splits)

lemma interfaces_addresses:
  "if_address ` set (interfaces (Some rs)) = {ip. \<exists>r b. r \<in> set rs \<and> \<not> ri_loopback r \<and> ri_address r = IfV4 ip b}"
proof -
  let ?on = "filter (\<lambda>r. \<not> ri_loopback r) rs"
  have "if_address ` set (interfaces (Some rs)) = if_address ` set (sort_key if_address (List.map_filter interface_of ?on))"
    unfolding interfaces_def option.case by (rule dedup_by_set) (rule refl)
  also have "\<dots> = if_address ` {i. \<exists>r \<in> set ?on. interface_of r = Some i}" by (simp add: set_map_filter)
  also have "\<dots> = {ip. \<exists>r b. r \<in> set rs \<and> \<not> ri_loopback r \<and> ri_address r = IfV4 ip b}"
  proof (intro set_eqI iffI)
    fix ip
    assume "ip \<in> if_address ` {i. \<exists>r \<in> set ?on. interface_of r = Some i}"
    then show "ip \<in> {ip. \<exists>r b. r \<in> set rs \<and> \<not> ri_loopback r \<and> ri_address r = IfV4 ip b}"
      by (auto dest: interface_of_Some)
  next
    fix ip
    assume "ip \<in> {ip. \<exists>r b. r \<in> set rs \<and> \<not> ri_loopback r \<and> ri_address r = IfV4 ip b}"
    then obtain r b where "r \<in> set ?on" and r: "ri_address r = IfV4 ip b" by auto
    moreover obtain i where "interface_of r = Some i" "if_address i = ip" using r by (simp add: interface_of_def)
    ultimately show "ip \<in> if_address ` {i. \<exists>r \<in> set ?on. interface_of r = Some i}" by blast
  qed
  finally show ?thesis .
qed

section \<open>The announcer's sockets\<close>

lemma bind_all_set: "set (bind_all can_bind is ss) = set ss \<union> {x \<in> if_address ` set is. can_bind x}"
  by (induction "is" arbitrary: ss) auto

lemma bind_all_distinct: "distinct ss \<Longrightarrow> distinct (bind_all can_bind is ss)"
  by (induction "is" arbitrary: ss) auto

definition announcer_inv :: "announcer \<Rightarrow> bool" where
  "announcer_inv a \<longleftrightarrow> distinct (senders a) \<and> set (senders a) \<subseteq> if_address ` set (known a)"

lemma follow_inv: "announcer_inv a \<Longrightarrow> announcer_inv (follow_interfaces can_bind current a)"
  by (auto simp: announcer_inv_def follow_interfaces_def bind_all_set bind_all_distinct)

lemma follow_known [simp]: "known (follow_interfaces can_bind current a) = current"
  by (simp add: follow_interfaces_def)

lemma follow_senders:
  "set (senders (follow_interfaces can_bind current a)) =
     (if current = known a then set (senders a)
      else {x \<in> if_address ` set current. x \<in> set (senders a) \<or> can_bind x})"
  by (auto simp: follow_interfaces_def bind_all_set)

lemma send_unicast_by: "d \<in> set (send_unicast ss ks t p) \<Longrightarrow> dg_by d \<in> set ss \<and> dg_to d = t \<and> dg_payload d = p"
  by (auto simp: send_unicast_def send_by_def split: ip_addr.splits option.splits if_splits)

lemma send_unicast_sends: "ss \<noteq> [] \<Longrightarrow> sa_ip t = V4 ip \<Longrightarrow> \<exists>d \<in> set (send_unicast ss ks t p). dg_by d \<in> set ss"
  by (cases ss) (auto simp: send_unicast_def send_by_def split: option.splits)

text \<open>What leaves in one round, as a set.\<close>

definition announced :: "u16 \<Rightarrow> bytes \<Rightarrow> announcer \<Rightarrow> datagram set" where
  "announced port payload a = {send_by \<lparr>sa_ip = V4 to, sa_port = port\<rparr> payload (if_address i) | i to.
     i \<in> set (known a) \<and> if_address i \<in> set (senders a) \<and> (to = GROUP \<or> if_broadcast i = Some to)}"

lemma announce_on_set:
  "set (announce_on port payload ss i) =
     (if if_address i \<in> set ss
      then {send_by \<lparr>sa_ip = V4 to, sa_port = port\<rparr> payload (if_address i) | to. to = GROUP \<or> if_broadcast i = Some to}
      else {})"
  by (auto simp: announce_on_def split: option.split)

lemma announced_eq: "(\<Union>i \<in> set (known a). set (announce_on port payload (senders a) i)) = announced port payload a"
  by (auto simp: announced_def announce_on_set)

lemma announce_round_eq:
  assumes "announce_round J port can_bind current manual an a = (a', ds)" and "enc J an = Some payload"
  shows "a' = follow_interfaces can_bind current a \<and>
    set ds = announced port payload a' \<union>
      (case enc J (an\<lparr>an_probe := True\<rparr>) of
         None \<Rightarrow> {}
       | Some probe \<Rightarrow> (\<Union>t \<in> set manual. set (send_unicast (senders a') current t probe)))"
  using assms
  by (cases "manual = []") (auto simp: announce_round_def Let_def announced_eq [symmetric] split: option.splits)

text \<open>A socket that could not be bound is not tried again while the interfaces stay the same.\<close>

fun announce_rounds ::
  "announcement codec \<Rightarrow> u16 \<Rightarrow> interface list \<Rightarrow> ((ipv4 \<Rightarrow> bool) \<times> socket_addr list \<times> announcement) list
     \<Rightarrow> announcer \<Rightarrow> announcer \<times> datagram list" where
  "announce_rounds J port current [] a = (a, [])"
| "announce_rounds J port current ((can_bind, manual, an) # rounds) a =
     (let (a, ds) = announce_round J port can_bind current manual an a;
          (a, es) = announce_rounds J port current rounds a
      in (a, ds @ es))"

lemma round_by:
  "announce_round J port can_bind current manual an a = (a', ds) \<Longrightarrow>
     a' = follow_interfaces can_bind current a \<and> (\<forall>d \<in> set ds. dg_by d \<in> set (senders a'))"
  by (auto simp: announce_round_def Let_def announce_on_def send_by_def
      split: option.splits if_splits dest!: send_unicast_by)

lemma rounds_keep:
  "known a = current \<Longrightarrow> announce_rounds J port current rounds a = (a', ds) \<Longrightarrow>
     a' = a \<and> (\<forall>d \<in> set ds. dg_by d \<in> set (senders a))"
proof (induction rounds arbitrary: a ds)
  case (Cons r rounds)
  obtain can_bind manual an where r: "r = (can_bind, manual, an)" by (cases r)
  obtain a1 ds1 where one: "announce_round J port can_bind current manual an a = (a1, ds1)" by fastforce
  then have "a1 = a" using round_by [OF one] Cons.prems(1) by (simp add: follow_interfaces_def)
  then show ?case using Cons round_by [OF one] one r by (auto split: prod.splits)
qed simp

section \<open>Listening\<close>

text \<open>The datagrams before the first event that stops the socket.\<close>

fun stops :: "announcement codec \<Rightarrow> interface list \<Rightarrow> listen_event \<Rightarrow> bool" where
  "stops J on (Datagram payload from taken) = (heard J payload from \<noteq> None \<and> \<not> taken)"
| "stops J on RecvFailed = True"
| "stops J on (Recheck now) = (now \<noteq> on)"

fun heard_in :: "announcement codec \<Rightarrow> listen_event \<Rightarrow> sighting option" where
  "heard_in J (Datagram payload from taken) = heard J payload from"
| "heard_in J _ = None"

lemma listen_eq: "fst (listen J on es) = List.map_filter (heard_in J) (takeWhile (\<lambda>e. \<not> stops J on e) es)"
proof (induction es)
  case (Cons e es)
  then show ?case
    by (cases e) (auto simp: List.map_filter_def split: option.splits prod.splits)
qed (simp add: List.map_filter_def)

lemma heard_current: "heard J payload from = Some s \<Longrightarrow> is_current (sg_announcement s) \<and> sg_from s = from"
  by (auto simp: heard_def split: option.splits if_splits)

lemma heard_own: "enc J an = Some b \<Longrightarrow> dec J b = Some an \<Longrightarrow> length b \<le> 8192 \<Longrightarrow> is_current an \<Longrightarrow>
     heard J b from = Some \<lparr>sg_announcement = an, sg_from = from\<rparr>"
  by (simp add: heard_def)

section \<open>Introductions\<close>

text \<open>The actor learns of the machine \<open>i\<close>: it reports it as a peer or as a candidate.\<close>

definition introduces :: "machine_id \<Rightarrow> actor \<Rightarrow> actor \<Rightarrow> bool" where
  "introduces i a a' \<longleftrightarrow> (\<exists>e. emitted a' = emitted a @ [e] \<and>
     (e = EvSighted i \<or> (\<exists>name key workspace addr invited. e = EvCandidate i name key workspace addr invited)))"

lemma sighting_introduces:
  "an_machine_id (sg_announcement s) \<noteq> me a \<Longrightarrow>
     introduces (an_machine_id (sg_announcement s)) a (on_sighting now auth s a) \<and>
     spawned (on_sighting now auth s a) =
       spawned a @ (if an_probe (sg_announcement s) then [ReplyToProbe (discovery_port_of a) (sa_ip (sg_from s))] else [])"
  by (simp add: introduces_def on_sighting_def Let_def emit_def spawn_def)

lemma reply_sends:
  assumes "enc J an = Some payload" and "bind_all can_bind current [] \<noteq> []"
  shows "\<exists>d \<in> set (reply_to_probe J can_bind current port (V4 ip) an).
    dg_to d = \<lparr>sa_ip = V4 ip, sa_port = port\<rparr> \<and> dg_payload d = payload"
proof -
  let ?t = "\<lparr>sa_ip = V4 ip, sa_port = port\<rparr>"
  from send_unicast_sends [OF assms(2), of ?t ip] obtain d
    where "d \<in> set (send_unicast (bind_all can_bind current []) current ?t payload)" by auto
  with send_unicast_by [OF this] assms(1) show ?thesis by (auto simp: reply_to_probe_def)
qed

definition probing :: "announcement \<Rightarrow> announcement" where
  "probing an = an\<lparr>an_probe := True\<rparr>"

lemma probing_fields [simp]:
  "an_machine_id (probing an) = an_machine_id an" "an_probe (probing an)" "is_current (probing an) = is_current an"
  by (simp_all add: probing_def is_current_def)

lemma round_probes:
  assumes "announce_round J port can_bind current manual an a = (a', ds)" and "enc J an = Some payload"
    and "enc J (probing an) = Some probe" and "t \<in> set manual" and "sa_ip t = V4 ip" and "senders a' \<noteq> []"
  shows "\<exists>d \<in> set ds. dg_to d = t \<and> dg_payload d = probe"
proof -
  obtain d where d: "d \<in> set (send_unicast (senders a') current t probe)"
    using send_unicast_sends [OF assms(6,5)] by blast
  then have "d \<in> set ds" using announce_round_eq [OF assms(1,2)] assms(3,4) by (auto simp: probing_def)
  with send_unicast_by [OF d] show ?thesis by blast
qed

section \<open>Properties\<close>

text \<open>
  Every round announces on every network card. The interfaces are the addresses found that
  are not loopback, each once and in order. After a round there is at most one socket per
  interface and none for an address that is gone; the announcement has left by every socket to
  the group and to its interface's broadcast address; every typed-in IPv4 address has been sent
  a probe, provided there is a socket at all; and nothing else was sent.
\<close>

theorem announcements_cover_every_card:
  assumes "announcer_inv a" and "current = interfaces (Some rs)"
    and "announce_round J port can_bind current manual an a = (a', ds)"
    and "enc J an = Some payload" and "enc J (probing an) = Some probe"
  shows "sorted_wrt (<) (map if_address current) \<and>
    if_address ` set current = {ip. \<exists>r b. r \<in> set rs \<and> \<not> ri_loopback r \<and> ri_address r = IfV4 ip b} \<and>
    announcer_inv a' \<and> known a' = current \<and>
    (current \<noteq> known a \<longrightarrow> (\<forall>i \<in> set current. can_bind (if_address i) \<longrightarrow> if_address i \<in> set (senders a'))) \<and>
    announced port payload a' \<subseteq> set ds \<and>
    (\<forall>t ip. t \<in> set manual \<and> sa_ip t = V4 ip \<and> senders a' \<noteq> [] \<longrightarrow> (\<exists>d \<in> set ds. dg_to d = t \<and> dg_payload d = probe)) \<and>
    (\<forall>d \<in> set ds. dg_by d \<in> set (senders a') \<and>
      (d \<in> announced port payload a' \<or> (dg_to d \<in> set manual \<and> dg_payload d = probe)))"
proof -
  note round = announce_round_eq [OF assms(3,4)]
  have inv: "announcer_inv a' \<and> known a' = current" using round follow_inv [OF assms(1)] by simp
  have bound: "current \<noteq> known a \<longrightarrow> (\<forall>i \<in> set current. can_bind (if_address i) \<longrightarrow> if_address i \<in> set (senders a'))"
    using round follow_senders [of can_bind current a] by auto
  have sends: "announced port payload a' \<subseteq> set ds" using round by auto
  have only: "dg_by d \<in> set (senders a') \<and>
      (d \<in> announced port payload a' \<or> (dg_to d \<in> set manual \<and> dg_payload d = probe))" if "d \<in> set ds" for d
    using round round_by [OF assms(3)] that assms(5) send_unicast_by by (auto simp: probing_def dest!: send_unicast_by)
  show ?thesis
    using inv bound sends only round_probes [OF assms(3-5)]
    by (simp add: assms(2) interfaces_sorted interfaces_addresses)
qed

definition sample_cards :: "raw_interface list" where
  "sample_cards = [\<lparr>ri_name = ''lo'', ri_loopback = True, ri_address = IfV4 0x7F000001 None\<rparr>,
     \<lparr>ri_name = ''wifi'', ri_loopback = False, ri_address = IfV4 0xC0A80005 (Some 0xC0A800FF)\<rparr>]"

definition sample_probe_codec :: "announcement codec" where
  "sample_probe_codec =
     \<lparr>enc = (\<lambda>an. Some [if an_probe an then 1 else 0, ucast (an_machine_id an)]),
      dec = (\<lambda>b. case b of
          [p, i] \<Rightarrow> Some (sample_announcement\<lparr>an_machine_id := ucast i, an_probe := p = 1\<rparr>) | _ \<Rightarrow> None)\<rparr>"

definition silent_announcer :: announcer where
  "silent_announcer = \<lparr>senders = [], known = []\<rparr>"

text \<open>
  C38: An address typed in on one machine introduces both. The round that follows sends it a
  probe; whatever address the probe is seen to come from, the machine there learns of the sender
  and spawns one reply, which is sent to that address on the discovery port; and the machine
  that gets the reply learns of the other.
\<close>

theorem typed_address_introduces_both:
  assumes "announce_round J port can_bind current manual an_a a = (a', ds)" and "enc J an_a = Some plain"
    and "\<lparr>sa_ip = V4 ip_b, sa_port = port\<rparr> \<in> set manual" and "senders a' \<noteq> []"
    and "enc J (probing an_a) = Some probe" and "dec J probe = Some (probing an_a)"
    and "enc J an_b = Some reply" and "dec J reply = Some an_b"
    and "length probe \<le> 8192" and "length reply \<le> 8192" and "is_current an_a" and "is_current an_b"
    and "bind_all can_bind_b current_b [] \<noteq> []" and "discovery_port_of actor_b = port"
    and "an_machine_id an_a \<noteq> me actor_b" and "an_machine_id an_b \<noteq> me actor_a"
  shows "\<exists>d \<in> set ds. dg_to d = \<lparr>sa_ip = V4 ip_b, sa_port = port\<rparr> \<and>
    (\<forall>ip_a p. \<exists>s. heard J (dg_payload d) \<lparr>sa_ip = V4 ip_a, sa_port = p\<rparr> = Some s \<and>
      introduces (an_machine_id an_a) actor_b (on_sighting now_b auth_b s actor_b) \<and>
      spawned (on_sighting now_b auth_b s actor_b) = spawned actor_b @ [ReplyToProbe port (V4 ip_a)] \<and>
      (\<exists>r \<in> set (reply_to_probe J can_bind_b current_b port (V4 ip_a) an_b).
        dg_to r = \<lparr>sa_ip = V4 ip_a, sa_port = port\<rparr> \<and>
        (\<forall>from. \<exists>t. heard J (dg_payload r) from = Some t \<and>
          introduces (an_machine_id an_b) actor_a (on_sighting now_a auth_a t actor_a))))"
proof -
  obtain d where d: "d \<in> set ds" "dg_to d = \<lparr>sa_ip = V4 ip_b, sa_port = port\<rparr>" "dg_payload d = probe"
    using round_probes [OF assms(1,2,5,3)] assms(4) by auto
  have first: "heard J probe x = Some \<lparr>sg_announcement = probing an_a, sg_from = x\<rparr>" for x
    using assms(11) by (intro heard_own [OF assms(5,6,9)]) simp
  have second: "heard J reply x = Some \<lparr>sg_announcement = an_b, sg_from = x\<rparr>" for x
    by (rule heard_own [OF assms(7,8,10,12)])
  have "\<exists>s. heard J (dg_payload d) \<lparr>sa_ip = V4 ip_a, sa_port = p\<rparr> = Some s \<and>
      introduces (an_machine_id an_a) actor_b (on_sighting now_b auth_b s actor_b) \<and>
      spawned (on_sighting now_b auth_b s actor_b) = spawned actor_b @ [ReplyToProbe port (V4 ip_a)] \<and>
      (\<exists>r \<in> set (reply_to_probe J can_bind_b current_b port (V4 ip_a) an_b).
        dg_to r = \<lparr>sa_ip = V4 ip_a, sa_port = port\<rparr> \<and>
        (\<forall>from. \<exists>t. heard J (dg_payload r) from = Some t \<and>
          introduces (an_machine_id an_b) actor_a (on_sighting now_a auth_a t actor_a)))" for ip_a p
  proof -
    let ?s = "\<lparr>sg_announcement = probing an_a, sg_from = \<lparr>sa_ip = V4 ip_a, sa_port = p\<rparr>\<rparr>"
    obtain r where "r \<in> set (reply_to_probe J can_bind_b current_b port (V4 ip_a) an_b)"
      "dg_to r = \<lparr>sa_ip = V4 ip_a, sa_port = port\<rparr>" "dg_payload r = reply"
      using reply_sends [OF assms(7,13)] by blast
    moreover have "introduces (an_machine_id an_a) actor_b (on_sighting now_b auth_b ?s actor_b)"
      and "spawned (on_sighting now_b auth_b ?s actor_b) = spawned actor_b @ [ReplyToProbe port (V4 ip_a)]"
      using sighting_introduces [of ?s actor_b now_b auth_b] assms(14,15) by simp_all
    moreover have "introduces (an_machine_id an_b) actor_a
        (on_sighting now_a auth_a \<lparr>sg_announcement = an_b, sg_from = x\<rparr> actor_a)" for x
      using sighting_introduces [of "\<lparr>sg_announcement = an_b, sg_from = x\<rparr>" actor_a now_a auth_a] assms(16) by simp
    ultimately show ?thesis
      unfolding d(3) using first second
      by - (rule exI [of _ ?s], intro conjI bexI [of _ r] allI, auto)
  qed
  with d show ?thesis by blast
qed

theorem typed_address_introduces_both_witness:
  "\<exists>a ds d s. announce_round sample_probe_codec 47451 (\<lambda>_. True) (interfaces (Some sample_cards))
      [\<lparr>sa_ip = V4 0x0A000007, sa_port = 47451\<rparr>] sample_announcement silent_announcer = (a, ds) \<and>
    d \<in> set ds \<and> heard sample_probe_codec (dg_payload d) \<lparr>sa_ip = V4 5, sa_port = 6\<rparr> = Some s \<and>
    introduces 2 sample_actor (on_sighting 0 (\<lambda>_ _. False) s sample_actor) \<and>
    (\<exists>r \<in> set (reply_to_probe sample_probe_codec (\<lambda>_. True) (interfaces (Some sample_cards)) 47451 (V4 5)
        (sample_announcement\<lparr>an_machine_id := 1\<rparr>)). dg_to r = \<lparr>sa_ip = V4 5, sa_port = 47451\<rparr>)"
proof -
  let ?t = "\<lparr>sa_ip = V4 0x0A000007, sa_port = 47451\<rparr>" and ?b = "sample_announcement\<lparr>an_machine_id := 1\<rparr>"
  let ?J = "sample_probe_codec" and ?cards = "interfaces (Some sample_cards)"
  obtain a ds where r: "announce_round ?J 47451 (\<lambda>_. True) ?cards [?t] sample_announcement silent_announcer = (a, ds)"
    by fastforce
  have enc: "enc ?J sample_announcement = Some [0, 2]" "enc ?J (probing sample_announcement) = Some [1, 2]"
    "enc ?J ?b = Some [0, 1]" by code_simp+
  have dec: "dec ?J [1, 2] = Some (probing sample_announcement)" "dec ?J [0, 1] = Some ?b" by code_simp+
  have cards: "bind_all (\<lambda>_. True) ?cards [] \<noteq> []" by code_simp
  have ids: "an_machine_id sample_announcement = 2" "me sample_actor = 1" "discovery_port_of sample_actor = 47451"
    by (simp_all add: sample_actor_def sample_announcement_def)
  have current: "is_current sample_announcement" "is_current ?b" by code_simp+
  have "a = follow_interfaces (\<lambda>_. True) ?cards silent_announcer" using round_by [OF r] by simp
  then have "senders a \<noteq> []" by (simp only:) code_simp
  from typed_address_introduces_both [OF r enc(1) _ this enc(2) dec(1) enc(3) dec(2) _ _ current cards,
      where ip_b = "0x0A000007" and actor_b = sample_actor and actor_a = "sample_actor\<lparr>me := 2\<rparr>" and now_b = 0
        and auth_b = "\<lambda>_ _. False" and now_a = 0 and auth_a = "\<lambda>_ _. False"]
  obtain d where d: "d \<in> set ds" and all: "\<forall>ip p. \<exists>s. heard ?J (dg_payload d) \<lparr>sa_ip = V4 ip, sa_port = p\<rparr> = Some s \<and>
      introduces 2 sample_actor (on_sighting 0 (\<lambda>_ _. False) s sample_actor) \<and>
      (\<exists>r \<in> set (reply_to_probe ?J (\<lambda>_. True) ?cards 47451 (V4 ip) ?b). dg_to r = \<lparr>sa_ip = V4 ip, sa_port = 47451\<rparr>)"
    by (simp add: ids) blast
  from all [rule_format, of 5 6] d r show ?thesis by blast
qed

text \<open>
  A card whose socket could not be bound when it appeared stays silent: as long as the list of
  interfaces does not change, no datagram leaves by it again, even when binding would succeed.
\<close>

theorem failed_bind_silences_card:
  assumes "announce_round J port can_bind current manual an a = (a1, ds1)" and "current \<noteq> known a"
    and "\<not> can_bind x" and "x \<notin> set (senders a)"
    and "announce_rounds J port current rounds a1 = (a2, ds2)"
  shows "\<forall>d \<in> set (ds1 @ ds2). dg_by d \<noteq> x"
proof -
  have a1: "a1 = follow_interfaces can_bind current a" and by1: "\<forall>d \<in> set ds1. dg_by d \<in> set (senders a1)"
    using round_by [OF assms(1)] by auto
  have "x \<notin> set (senders a1)" using a1 assms(2-4) by (auto simp: follow_senders)
  moreover have "\<forall>d \<in> set ds2. dg_by d \<in> set (senders a1)" using rounds_keep [OF _ assms(5)] a1 by simp
  ultimately show ?thesis using by1 by auto
qed

end
