(* ===== verification/Listener.thy ===== *)
theory Listener
  imports Discovery
begin

text \<open>
  The sockets of discovery and the listening task: \<^verbatim>\<open>bind_listener\<close>, \<^verbatim>\<open>bind_sender\<close> and the outer loop of
  \<^verbatim>\<open>listen\<close> in \<^verbatim>\<open>crates/is-net/src/discovery.rs\<close>. What the system answers to a call on a socket is the
  record \<open>socket_os\<close>; \<^verbatim>\<open>None\<close> is success. Calls whose answer the code throws away are left out.

  The task binds, listens until the socket fails or the interfaces are others than at the time of
  binding, waits, and begins again; \<open>listener_step\<close> has a turn for each of these.
\<close>

section \<open>Sockets\<close>

record socket_os =
  so_new :: "io_error_kind option"
  so_reuse_address :: "io_error_kind option"
  so_nonblocking :: "io_error_kind option"
  so_multicast_if :: "io_error_kind option"
  so_bind :: "io_error_kind option"
  so_from_std :: "io_error_kind option"
  so_join :: "ipv4 \<Rightarrow> bool"

text \<open>\<^verbatim>\<open>?\<close> on call after call: the first error ends it.\<close>

fun first_error :: "io_error_kind option list \<Rightarrow> io_error_kind option" where
  "first_error [] = None"
| "first_error (Some k # xs) = Some k"
| "first_error (None # xs) = first_error xs"

record listening_socket =
  ls_port :: u16
  ls_joined :: "ipv4 list"

definition bind_listener :: "socket_os \<Rightarrow> u16 \<Rightarrow> interface list \<Rightarrow> net_error + listening_socket" where
  "bind_listener os port on =
     (case first_error [so_new os, so_reuse_address os, so_nonblocking os, so_bind os] of
        Some k \<Rightarrow> Inl (NetIo k)
      | None \<Rightarrow>
          let joined = filter (so_join os) (map if_address on) in
          (case so_from_std os of
             Some k \<Rightarrow> Inl (NetIo k)
           | None \<Rightarrow> Inr \<lparr>ls_port = port, ls_joined = joined\<rparr>))"

record sending_socket =
  ss_address :: ipv4
  ss_interface :: ipv4
  ss_ttl :: nat

definition bind_sender :: "socket_os \<Rightarrow> ipv4 \<Rightarrow> net_error + sending_socket" where
  "bind_sender os address =
     (case first_error [so_new os, so_reuse_address os, so_nonblocking os, so_multicast_if os, so_bind os, so_from_std os] of
        Some k \<Rightarrow> Inl (NetIo k)
      | None \<Rightarrow> Inr \<lparr>ss_address = address, ss_interface = address, ss_ttl = 4\<rparr>)"

text \<open>What \<open>announce_round\<close> asks of it.\<close>

definition sender_binds :: "(ipv4 \<Rightarrow> socket_os) \<Rightarrow> ipv4 \<Rightarrow> bool" where
  "sender_binds os address \<longleftrightarrow> (case bind_sender (os address) address of Inl _ \<Rightarrow> False | Inr _ \<Rightarrow> True)"

section \<open>The task\<close>

datatype listening_task = Waiting | On "interface list" listening_socket | Stopped

text \<open>
  \<open>Woke\<close> is the top of the loop. \<open>Arrives\<close> is a datagram on a card: one to the group only reaches the
  socket if it has joined the group there.
\<close>

datatype listener_event =
    Woke "interface list" socket_os
  | Arrives ipv4 datagram socket_addr bool
  | Broke
  | Looked "interface list"

definition reaches_socket :: "ipv4 \<Rightarrow> datagram \<Rightarrow> listening_socket \<Rightarrow> bool" where
  "reaches_socket at d s \<longleftrightarrow> sa_port (dg_to d) = ls_port s \<and> (sa_ip (dg_to d) = V4 GROUP \<longrightarrow> at \<in> set (ls_joined s))"

definition after_listening :: "interface list \<Rightarrow> listening_socket \<Rightarrow> listen_end \<Rightarrow> listening_task" where
  "after_listening on s e = (case e of StillListening \<Rightarrow> On on s | Rebind \<Rightarrow> Waiting | ServiceGone \<Rightarrow> Stopped)"

fun listener_step ::
  "announcement codec \<Rightarrow> u16 \<Rightarrow> listener_event \<Rightarrow> listening_task \<times> sighting list \<Rightarrow> listening_task \<times> sighting list" where
  "listener_step J port (Woke on os) (Waiting, seen) =
     (case bind_listener os port on of Inl _ \<Rightarrow> (Waiting, seen) | Inr s \<Rightarrow> (On on s, seen))"
| "listener_step J port (Arrives at d from taken) (On on s, seen) =
     (if reaches_socket at d s
      then (case listen J on [Datagram (dg_payload d) from taken] of (ss, e) \<Rightarrow> (after_listening on s e, seen @ ss))
      else (On on s, seen))"
| "listener_step J port Broke (On on s, seen) =
     (case listen J on [RecvFailed] of (ss, e) \<Rightarrow> (after_listening on s e, seen @ ss))"
| "listener_step J port (Looked now) (On on s, seen) =
     (case listen J on [Recheck now] of (ss, e) \<Rightarrow> (after_listening on s e, seen @ ss))"
| "listener_step J port _ task = task"

definition listener_run ::
  "announcement codec \<Rightarrow> u16 \<Rightarrow> listener_event list \<Rightarrow> listening_task \<times> sighting list \<Rightarrow> listening_task \<times> sighting list" where
  "listener_run J port es task = fold (listener_step J port) es task"

section \<open>Lemmas\<close>

lemma first_error_None: "first_error xs = None \<longleftrightarrow> set xs \<subseteq> {None}"
  by (induction xs rule: first_error.induct) auto

lemma listener_bound:
  "bind_listener os port on = Inr s \<longleftrightarrow>
     {so_new os, so_reuse_address os, so_nonblocking os, so_bind os, so_from_std os} \<subseteq> {None} \<and>
     s = \<lparr>ls_port = port, ls_joined = filter (so_join os) (map if_address on)\<rparr>"
  by (auto simp: bind_listener_def Let_def first_error_None split: option.split)

text \<open>The socket is on the right port, and has joined on cards that were there.\<close>

definition task_ok :: "u16 \<Rightarrow> listening_task \<Rightarrow> bool" where
  "task_ok port t \<longleftrightarrow> (case t of On on s \<Rightarrow> ls_port s = port \<and> set (ls_joined s) \<subseteq> if_address ` set on | _ \<Rightarrow> True)"

lemma listener_step_ok: "task_ok port (fst task) \<Longrightarrow> task_ok port (fst (listener_step J port e task))"
  by (induction J port e task rule: listener_step.induct)
    (auto simp: task_ok_def listener_bound after_listening_def split: sum.split listen_end.split prod.split)

lemma listener_run_ok: "task_ok port (fst task) \<Longrightarrow> task_ok port (fst (listener_run J port es task))"
  unfolding listener_run_def
proof (induction es arbitrary: task)
  case (Cons e es)
  show ?case using Cons.IH [OF listener_step_ok [OF Cons.prems]] by simp
qed simp

lemma rebinding:
  assumes "{so_new os, so_reuse_address os, so_nonblocking os, so_bind os, so_from_std os} \<subseteq> {None}"
    and "task = Waiting \<or> (\<exists>on s. task = On on s \<and> on \<noteq> now)"
  shows "listener_run J port [Looked now, Woke now os] (task, seen) =
    (On now \<lparr>ls_port = port, ls_joined = filter (so_join os) (map if_address now)\<rparr>, seen)"
proof -
  have "bind_listener os port now = Inr \<lparr>ls_port = port, ls_joined = filter (so_join os) (map if_address now)\<rparr>"
    using assms(1) by (simp add: listener_bound)
  then show ?thesis using assms(2) by (auto simp: listener_run_def after_listening_def)
qed

section \<open>Property\<close>

text \<open>
  C37: A card that comes up late is enough for two machines to find each other. When one machine's
  interfaces have changed and it can bind a socket on a card, its next announcement leaves by that card to
  the group; when another machine's have changed and the system lets it bind and join on its card,
  it listens there after its next look at them; the announcement that arrives there is handed on,
  and the network actor reports the first machine as a peer or as a candidate.
\<close>

theorem late_cards_introduce:
  assumes "enc J an = Some payload" and "dec J payload = Some an" and "length payload \<le> 8192" and "is_current an"
    and "announce_round J port (sender_binds os) current manual an a = (a', ds)" and "current \<noteq> known a"
    and "i \<in> set current" and "sender_binds os (if_address i)"
    and "{so_new os', so_reuse_address os', so_nonblocking os', so_bind os', so_from_std os'} \<subseteq> {None}"
    and "k \<in> set now" and "so_join os' (if_address k)"
    and "task = Waiting \<or> (\<exists>on s. task = On on s \<and> on \<noteq> now)"
    and "an_machine_id an \<noteq> me peer"
  shows "\<exists>d \<in> set ds. dg_by d = if_address i \<and> dg_to d = \<lparr>sa_ip = V4 GROUP, sa_port = port\<rparr> \<and>
    (\<exists>s. listener_run J port [Looked now, Woke now os', Arrives (if_address k) d src True] (task, seen) =
       (On now s, seen @ [\<lparr>sg_announcement = an, sg_from = src\<rparr>])) \<and>
    introduces (an_machine_id an) peer (on_sighting time auth \<lparr>sg_announcement = an, sg_from = src\<rparr> peer)"
proof -
  let ?d = "send_by \<lparr>sa_ip = V4 GROUP, sa_port = port\<rparr> payload (if_address i)"
  let ?s = "\<lparr>ls_port = port, ls_joined = filter (so_join os') (map if_address now)\<rparr>"
  have round: "a' = follow_interfaces (sender_binds os) current a" "announced port payload a' \<subseteq> set ds"
    using announce_round_eq [OF assms(5,1)] by auto
  have "if_address i \<in> set (senders a')" using assms(6-8) by (simp add: round(1) follow_senders)
  then have sent: "?d \<in> set ds" using round assms(7) by (auto simp: announced_def)
  have "reaches_socket (if_address k) ?d ?s" using assms(10,11) by (auto simp: reaches_socket_def send_by_def)
  then have "listener_step J port (Arrives (if_address k) ?d src True) (On now ?s, seen) =
      (On now ?s, seen @ [\<lparr>sg_announcement = an, sg_from = src\<rparr>])"
    using heard_own [OF assms(1-4), of src] by (simp add: send_by_def after_listening_def)
  then have "listener_run J port [Looked now, Woke now os', Arrives (if_address k) ?d src True] (task, seen) =
      (On now ?s, seen @ [\<lparr>sg_announcement = an, sg_from = src\<rparr>])"
    using rebinding [OF assms(9,12), of J port seen] by (simp add: listener_run_def)
  moreover have "introduces (an_machine_id an) peer (on_sighting time auth \<lparr>sg_announcement = an, sg_from = src\<rparr> peer)"
    using sighting_introduces [of "\<lparr>sg_announcement = an, sg_from = src\<rparr>" peer] assms(13) by simp
  ultimately show ?thesis using sent by (intro bexI [of _ ?d] conjI) (auto simp: send_by_def)
qed

definition willing :: socket_os where
  "willing = \<lparr>so_new = None, so_reuse_address = None, so_nonblocking = None, so_multicast_if = None, so_bind = None,
     so_from_std = None, so_join = (\<lambda>_. True)\<rparr>"

theorem late_cards_introduce_witness:
  "\<exists>a ds d s. announce_round sample_probe_codec 47451 (sender_binds (\<lambda>_. willing)) (interfaces (Some sample_cards)) []
      sample_announcement silent_announcer = (a, ds) \<and> d \<in> set ds \<and>
    listener_run sample_probe_codec 47451 [Looked (interfaces (Some sample_cards)), Woke (interfaces (Some sample_cards)) willing,
        Arrives (if_address (hd (interfaces (Some sample_cards)))) d \<lparr>sa_ip = V4 5, sa_port = 6\<rparr> True] (Waiting, []) =
      (On (interfaces (Some sample_cards)) s, [\<lparr>sg_announcement = sample_announcement, sg_from = \<lparr>sa_ip = V4 5, sa_port = 6\<rparr>\<rparr>])"
proof -
  let ?J = "sample_probe_codec" and ?cards = "interfaces (Some sample_cards)" and ?here = "hd (interfaces (Some sample_cards))"
  obtain a ds where r: "announce_round ?J 47451 (sender_binds (\<lambda>_. willing)) ?cards [] sample_announcement silent_announcer = (a, ds)"
    by fastforce
  have codec: "enc ?J sample_announcement = Some [0, 2]" "dec ?J [0, 2] = Some sample_announcement" by code_simp+
  have current: "is_current sample_announcement" "length [0, 2 :: u8] \<le> 8192" by code_simp+
  have cards: "?cards \<noteq> known silent_announcer" "?cards \<noteq> []" by code_simp+
  then have here: "?here \<in> set ?cards" by simp
  have os: "sender_binds (\<lambda>_. willing) (if_address ?here)" "so_join willing (if_address ?here)"
    "{so_new willing, so_reuse_address willing, so_nonblocking willing, so_bind willing, so_from_std willing} \<subseteq> {None}"
    by (simp_all add: sender_binds_def bind_sender_def willing_def)
  have other: "an_machine_id sample_announcement \<noteq> me sample_actor" by (simp add: sample_actor_def sample_announcement_def)
  let ?src = "\<lparr>sa_ip = V4 5, sa_port = 6\<rparr>"
  obtain d s where "d \<in> set ds"
    and "listener_run ?J 47451 [Looked ?cards, Woke ?cards willing, Arrives (if_address ?here) d ?src True] (Waiting, []) =
      (On ?cards s, [] @ [\<lparr>sg_announcement = sample_announcement, sg_from = ?src\<rparr>])"
    using late_cards_introduce [OF codec(1,2) current(2,1) r cards(1) here os(1) os(3) here os(2) disjI1 [OF refl] other,
        where seen = "[]" and src = ?src] by blast
  then show ?thesis using r by auto
qed

text \<open>
  A card on which the group could not be joined at the time of binding stays deaf to it: while the
  interfaces stay the same and the socket works, joining is not tried again.
\<close>

theorem failed_join_stays_deaf:
  assumes "y \<notin> set (ls_joined s)" and "list_all (\<lambda>e. e = Looked on \<or> (\<exists>os. e = Woke on os) \<or> (\<exists>x d src. e = Arrives x d src True)) es"
    and "sa_ip (dg_to d) = V4 GROUP"
  shows "\<exists>seen'. listener_run J port es (On on s, seen) = (On on s, seen') \<and>
    listener_step J port (Arrives y d src taken) (On on s, seen') = (On on s, seen')"
  using assms(2)
proof (induction es arbitrary: seen)
  case Nil
  show ?case using assms(1,3) by (simp add: listener_run_def reaches_socket_def)
next
  case (Cons e es)
  have "\<exists>seen1. listener_step J port e (On on s, seen) = (On on s, seen1)"
    using Cons.prems by (auto simp: after_listening_def split: option.split)
  then obtain seen1 where "listener_step J port e (On on s, seen) = (On on s, seen1)" ..
  moreover have "list_all (\<lambda>e. e = Looked on \<or> (\<exists>os. e = Woke on os) \<or> (\<exists>x d src. e = Arrives x d src True)) es"
    using Cons.prems by simp
  ultimately show ?case using Cons.IH [of seen1] by (simp add: listener_run_def)
qed


end
