(* ===== verification/Joining.thy ===== *)
theory Joining
  imports Agent Link
begin

text \<open>
  How two computers become one configuration, from the two clicks to the document they share. No code of its
  own: \<open>pair\<close> on either side, the report of the session in which both find that they are in different workspaces, and
  the document that is sent in the next session, are operations of \<open>Agent\<close> and \<open>Session\<close>.
\<close>

section \<open>Before and after\<close>

definition self_id :: "core \<Rightarrow> machine_id" where
  "self_id c = id_machine_id (co_identity c)"

definition self_key :: "host \<Rightarrow> core \<Rightarrow> pub_key" where
  "self_key H c = public_key (h_crypto H) (co_identity c)"

text \<open>The agent's own record is in its document under its own key, as \<open>agent_load\<close> puts it there.\<close>

definition knows_itself :: "host \<Rightarrow> core \<Rightarrow> workspace_doc \<Rightarrow> bool" where
  "knows_itself H c d \<longleftrightarrow> co_doc c = Some d \<and> map_option mr_public_key (machine (self_id c) d) = Some (self_key H c)"

definition has_found :: "core \<Rightarrow> machine_id \<Rightarrow> pub_key \<Rightarrow> bool" where
  "has_found c i key \<longleftrightarrow> map_option fm_identity_key (bt_get (co_candidates c) i) = Some key"

text \<open>A document that arrives on a session with \<open>i\<close>.\<close>

definition receives :: "host \<Rightarrow> wire_format \<Rightarrow> machine_id \<Rightarrow> workspace_doc \<Rightarrow> core \<Rightarrow> core" where
  "receives H J i d c = io_state (fst (handle_message (core_workspace H) J i (DocFull d)
     \<lparr>io_state = c, io_in = [], io_out = [], io_room = 0, io_actor_alive = True, io_inbox = []\<rparr>))"

lemma receives_merge: "receives H J i d c = fst (core_merge H d c)"
  by (simp add: receives_def core_workspace_def split: prod.split sum.split bool.split)

text \<open>Both have this document on their disk, are in it, and let each other in.\<close>

definition one_configuration :: "host \<Rightarrow> core \<Rightarrow> host \<Rightarrow> core \<Rightarrow> workspace_doc \<Rightarrow> bool" where
  "one_configuration H c G b e \<longleftrightarrow> knows_itself H c e \<and> knows_itself G b e \<and> core_inv H c \<and> core_inv G b \<and>
     core_authorize (self_id b) (self_key G b) c \<and> core_authorize (self_id c) (self_key H c) b"

section \<open>The clicks\<close>

lemma clicked:
  assumes "core_inv H c" and "writes_work H" and "knows_itself H c d" and "has_found c i key" and "i \<noteq> self_id c"
    and "pair H i c = (p, r)"
  shows "\<exists>e. r = Inr () \<and> core_inv H p \<and> knows_itself H p e \<and> co_identity p = co_identity c \<and>
    doc_workspace_id e = doc_workspace_id d \<and> map_option mr_public_key (machine i e) = Some key"
proof -
  obtain found where found: "bt_get (co_candidates c) i = Some found" "fm_identity_key found = key"
    using assms(4) by (auto simp: has_found_def)
  have doc: "co_doc c = Some d" using assms(3) by (simp add: knows_itself_def)
  have id: "fm_machine_id found = i" using core_invD(1) [OF assms(1)] found(1) by (simp add: found_ok_def)
  have ok: "bt_ok (machines d)" using core_invD(3) [OF assms(1) doc] by (simp add: readable_def)
  have identity: "co_identity p = co_identity c"
    using assms(6) found(1) doc mutate_doc(6) [OF doc]
    by (auto simp: pair_def Let_def split: prod.splits sum.splits) (metis fst_conv)+
  have inv: "core_inv H p" using pair_inv [OF assms(2,1), of i] assms(6) by simp
  from pair_admitted [OF found(1) doc assms(6)] obtain m where
    p: "r = Inr ()" "co_doc p = Some (fst (upsert_machine (h_now H) (self_id c) m d))" "mr_id m = i" "mr_public_key m = key"
    using id found(2) by (auto simp: self_id_def)
  let ?e = "fst (upsert_machine (h_now H) (self_id c) m d)"
  have "doc_workspace_id ?e = doc_workspace_id d" by (simp add: upsert_machine_def tick_def Let_def)
  moreover have "map_option mr_public_key (machine i ?e) = Some key" using machine_upserted [OF ok] p(3,4) by simp
  moreover have "knows_itself H p ?e"
    using machine_upserted [OF ok] p(2,3) assms(3,5) identity by (simp add: knows_itself_def self_id_def self_key_def)
  ultimately show ?thesis using p(1) inv identity by blast
qed

lemma taken_over:
  assumes "core_inv H p" and "writes_work H" and "gives_up H ev p i k e" and "readable e"
    and "map_option mr_public_key (machine (self_id p) e) = Some (self_key H p)"
    and "co_identity (on_net_event H ev p) = co_identity p"
  shows "knows_itself H (receives H J i e (on_net_event H ev p)) e \<and> core_inv H (receives H J i e (on_net_event H ev p)) \<and>
    co_identity (receives H J i e (on_net_event H ev p)) = co_identity p"
proof -
  let ?q = "on_net_event H ev p"
  have doc: "co_doc ?q = None" and new: "co_doc (fst (core_merge H e ?q)) = Some e"
    using assms(3) by (simp_all add: gives_up_def Let_def)
  have "co_identity (fst (core_merge H e ?q)) = co_identity ?q" using doc by (simp add: core_merge_def Let_def)
  then show ?thesis
    using new assms(5,6) core_merge_inv [OF assms(2) on_net_event_inv [OF assms(2,1)] assms(4), of ev]
    by (simp add: receives_merge knows_itself_def self_id_def self_key_def)
qed

lemma event_keeps_identity: "co_identity (on_net_event H ev c) = co_identity c"
  by (cases ev) (auto simp: adopt_configuration_of_def agent_rescan_def Let_def split: option.split prod.split sum.split)

text \<open>One gives up for the other: what they have then.\<close>

lemma unites:
  assumes "core_inv H c" and "knows_itself H c e" and "map_option mr_public_key (machine (self_id b) e) = Some (self_key G b)"
    and "core_inv G b" and "writes_work G" and "gives_up G ev b (self_id c) (self_key H c) e"
  shows "one_configuration H c G (receives G J (self_id c) e (on_net_event G ev b)) e"
proof -
  let ?b = "receives G J (self_id c) e (on_net_event G ev b)"
  have doc: "co_doc c = Some e" using assms(2) by (simp add: knows_itself_def)
  have b: "knows_itself G ?b e" "core_inv G ?b" "co_identity ?b = co_identity b"
    using taken_over [OF assms(4-6) core_invD(3) [OF assms(1) doc] assms(3) event_keeps_identity] by simp_all
  have "core_authorize (self_id ?b) (self_key G ?b) c"
    using assms(3) b(3) by (auto simp: authorize_Some [OF doc] self_id_def self_key_def split: option.splits)
  moreover have "core_authorize (self_id c) (self_key H c) ?b"
    using assms(2) b(1) by (auto simp: authorize_Some [of ?b e] knows_itself_def split: option.splits)
  ultimately show ?thesis using assms(1,2) b by (simp add: one_configuration_def)
qed

section \<open>How they are told\<close>

text \<open>What an agent says of itself at the beginning of a session.\<close>

definition introduction :: "host \<Rightarrow> core \<Rightarrow> workspace_doc \<Rightarrow> message" where
  "introduction H c d = Identify (core_display_name H c) (Some (doc_workspace_id d)) (of_nat (length (machines_present d)))"

text \<open>
  The middle of the story, seen from one end: the session with a machine that is let in and says that it has another
  workspace ends, and the actor's event is the one that machine's document calls for.
\<close>

lemma session_reports_meeting:
  assumes "crypto_ok C" and "co_doc c = Some d" and "core_authorize (peer_machine ses) (peer_key ses) c"
    and "io_state io = c" and "io_actor_alive io"
    and "send_message C J (introduction H c d) (ses_send ses) io = ((sealer, io1), Inr ())" and "io_in io = [(id, Inr frame)]"
    and "enc (message_codec J) (introduction G b e) = Some p" and "dec (message_codec J) p = Some (introduction G b e)"
    and "seal C p (ses_receive ses) = (opener, Inr frame)" and "doc_workspace_id d \<noteq> doc_workspace_id e"
  shows "\<exists>io'. identify_phase (core_workspace H) C J ses addr io = (io', Inr None) \<and>
    io_inbox io' = io_inbox io @ [DifferentWorkspaces (peer_machine ses) (core_display_name G b) (peer_key ses)
      (doc_workspace_id e) (of_nat (length (machines_present e)))]"
proof -
  obtain out room where io1: "io1 = io\<lparr>io_out := out, io_room := room\<rparr>"
    using send_message_writes [of C J "introduction H c d" "ses_send ses" io] assms(6) by auto
  have "open_frame C frame (ses_receive ses) = (opener, Inr p)" by (rule seal_open [OF assms(1,10)])
  then have recv: "recv_message C J (ses_receive ses) io1 = ((opener, io1\<lparr>io_in := []\<rparr>), Inr (introduction G b e))"
    using assms(7,9) by (simp add: recv_message_def next_frame_def io1)
  show ?thesis
    using assms(2-6,11) recv sent_fields [of C J goodbye sealer]
    by (simp add: identify_phase_def split_session_def core_workspace_def introduction_def tell_def io1)
qed

lemma meeting_is_told:
  "emitted (on_session now (DifferentWorkspaces i n key (doc_workspace_id e) (of_nat (length (machines_present e)))) a) =
     emitted a @ [meets i n key e]"
  by (simp add: emit_def)

section \<open>Property\<close>

text \<open>
  C5: Two computers that are on their own become one configuration by a click on each. Each has found the
  other; both accept. When the session that follows tells them that they are in different workspaces, exactly
  one gives its own up; the document of the other, the next thing it is sent, makes it a member: both then have
  this one document, both are in it under their own keys, it is on the disk of both, and each lets the other in.
\<close>

theorem two_clicks_make_one_configuration:
  assumes "core_inv H1 c1" and "writes_work H1" and "knows_itself H1 c1 d1"
    and "core_inv H2 c2" and "writes_work H2" and "knows_itself H2 c2 d2"
    and "self_id c1 \<noteq> self_id c2" and "doc_workspace_id d1 \<noteq> doc_workspace_id d2"
    and "has_found c1 (self_id c2) (self_key H2 c2)" and "has_found c2 (self_id c1) (self_key H1 c1)"
    and "pair H1 (self_id c2) c1 = (p1, r1)" and "pair H2 (self_id c1) c2 = (p2, r2)"
  shows "r1 = Inr () \<and> r2 = Inr () \<and> (\<exists>e1 e2. co_doc p1 = Some e1 \<and> co_doc p2 = Some e2 \<and>
    (let q1 = on_net_event H1 (meets (self_id c2) n2 (self_key H2 c2) e2) p1;
         q2 = on_net_event H2 (meets (self_id c1) n1 (self_key H1 c1) e1) p2
     in one_configuration H1 q1 H2 (receives H2 J (self_id c1) e1 q2) e1 \<or>
        one_configuration H2 q2 H1 (receives H1 J (self_id c2) e2 q1) e2))"
proof -
  obtain e1 where e1: "r1 = Inr ()" "core_inv H1 p1" "knows_itself H1 p1 e1" "co_identity p1 = co_identity c1"
    "doc_workspace_id e1 = doc_workspace_id d1" "map_option mr_public_key (machine (self_id c2) e1) = Some (self_key H2 c2)"
    using clicked [OF assms(1-3,9) assms(7) [symmetric] assms(11)] by blast
  obtain e2 where e2: "r2 = Inr ()" "core_inv H2 p2" "knows_itself H2 p2 e2" "co_identity p2 = co_identity c2"
    "doc_workspace_id e2 = doc_workspace_id d2" "map_option mr_public_key (machine (self_id c1) e2) = Some (self_key H1 c1)"
    using clicked [OF assms(4-6,10) assms(7) assms(12)] by blast
  have same: "self_id p1 = self_id c1" "self_id p2 = self_id c2" "self_key H1 p1 = self_key H1 c1" "self_key H2 p2 = self_key H2 c2"
    using e1(4) e2(4) by (simp_all add: self_id_def self_key_def)
  have docs: "co_doc p1 = Some e1" "co_doc p2 = Some e2" using e1(3) e2(3) by (simp_all add: knows_itself_def)
  let ?m1 = "meets (self_id c2) n2 (self_key H2 c2) e2" and ?m2 = "meets (self_id c1) n1 (self_key H1 c1) e1"
  have apart: "doc_workspace_id e1 \<noteq> doc_workspace_id e2" using assms(8) e1(5) e2(5) by simp
  have "one_configuration H1 (on_net_event H1 ?m1 p1) H2 (receives H2 J (self_id c1) e1 (on_net_event H2 ?m2 p2)) e1 \<or>
      one_configuration H2 (on_net_event H2 ?m2 p2) H1 (receives H1 J (self_id c2) e2 (on_net_event H1 ?m1 p1)) e2"
  proof (cases "should_yield e2 (doc_workspace_id e1) (of_nat (length (machines_present e1)))")
    case True
    then have "on_net_event H1 ?m1 p1 = p1" using yields_once [OF apart] docs(1) by simp
    then show ?thesis
      using unites [OF e1(2,3), of p2 H2 ?m2 J] yielding_gives_up [OF e2(2) assms(5) docs(2) True] e1(6) e2(2) assms(5) same by simp
  next
    case False
    then have yields: "should_yield e1 (doc_workspace_id e2) (of_nat (length (machines_present e2)))"
      using yields_once [OF apart] by simp
    have "on_net_event H2 ?m2 p2 = p2" using False docs(2) by simp
    then show ?thesis
      using unites [OF e2(2,3), of p1 H1 ?m1 J] yielding_gives_up [OF e1(2) assms(2) docs(1) yields] e2(6) e1(2) assms(2) same by simp
  qed
  then show ?thesis using e1(1) e2(1) docs by (auto simp: Let_def)
qed

definition lone_key :: pub_key where "lone_key = PubKey (pad32 [3])"

definition lone_doc :: "machine_id \<Rightarrow> workspace_id \<Rightarrow> workspace_doc" where
  "lone_doc i w = create 0 w ''desk'' ((sample_machine i 0)\<lparr>mr_public_key := lone_key\<rparr>)"

definition lone_core :: "machine_id \<Rightarrow> workspace_id \<Rightarrow> machine_id \<Rightarrow> core" where
  "lone_core i w j = on_net_event (sample_host i) (EvCandidate j ''other'' lone_key None sample_address True) (sample_core i (lone_doc i w))"

lemma lone_readable: "readable (lone_doc i w)"
  by (simp add: readable_def lone_doc_def create_def Let_def bt_empty_def bt_ok_def)

lemma lone_core_ok:
  "core_inv (sample_host i) (lone_core i w j)" "self_id (lone_core i w j) = i" "self_key (sample_host i) (lone_core i w j) = lone_key"
  "knows_itself (sample_host i) (lone_core i w j) (lone_doc i w)" "has_found (lone_core i w j) j lone_key"
proof -
  show "core_inv (sample_host i) (lone_core i w j)"
    unfolding lone_core_def by (rule on_net_event_inv [OF sample_host_works sample_core_inv [OF lone_readable]])
  show id: "self_id (lone_core i w j) = i" "self_key (sample_host i) (lone_core i w j) = lone_key"
    by (simp_all add: self_id_def self_key_def lone_core_def sample_core_def generate_def public_key_def sample_host_def
        toy_crypto_def lone_key_def)
  have "machine i (lone_doc i w) = Some ((sample_machine i 0)\<lparr>mr_public_key := lone_key\<rparr>)"
    by (simp add: lone_doc_def create_def machine_def sample_machine_def bt_empty_def bt_get_def Let_def)
  then show "knows_itself (sample_host i) (lone_core i w j) (lone_doc i w)"
    by (simp add: knows_itself_def id) (simp add: lone_core_def sample_core_def)
  show "has_found (lone_core i w j) j lone_key"
    by (simp add: has_found_def lone_core_def sample_core_def bt_get_def bt_empty_def)
qed

theorem two_clicks_make_one_configuration_witness:
  "\<exists>p1 p2 e1 e2 J. pair (sample_host 1) 2 (lone_core 1 7 2) = (p1, Inr ()) \<and> pair (sample_host 2) 1 (lone_core 2 8 1) = (p2, Inr ()) \<and>
    (let q1 = on_net_event (sample_host 1) (meets 2 ''other'' lone_key e2) p1;
         q2 = on_net_event (sample_host 2) (meets 1 ''other'' lone_key e1) p2
     in one_configuration (sample_host 1) q1 (sample_host 2) (receives (sample_host 2) J 1 e1 q2) e1 \<or>
        one_configuration (sample_host 2) q2 (sample_host 1) (receives (sample_host 1) J 2 e2 q1) e2)"
proof -
  obtain p1 r1 p2 r2 where p: "pair (sample_host 1) 2 (lone_core 1 7 2) = (p1, r1)" "pair (sample_host 2) 1 (lone_core 2 8 1) = (p2, r2)"
    by fastforce
  have apart: "doc_workspace_id (lone_doc 1 7) \<noteq> doc_workspace_id (lone_doc 2 8)"
    by (simp add: lone_doc_def create_def Let_def)
  have ids: "self_id (lone_core 1 7 2) \<noteq> self_id (lone_core 2 8 1)" by (simp add: lone_core_ok)
  from two_clicks_make_one_configuration [OF lone_core_ok(1) sample_host_works lone_core_ok(4) lone_core_ok(1) sample_host_works
      lone_core_ok(4) ids apart, of p1 r1 p2 r2 "''other''" "''other''"] p
  show ?thesis unfolding lone_core_ok using lone_core_ok(5) by (metis (no_types, lifting))
qed

end
