(* ===== verification/Refresher.thy ===== *)
theory Refresher
  imports Agent
begin

text \<open>
  The task that keeps this machine's record true: \<^verbatim>\<open>go_online_on\<close> of \<^verbatim>\<open>crates/is-agent/src/lib.rs\<close> spawns it,
  it publishes the screens and the platform after every change, and publishing is a change
  itself. \<open>refresh_all\<close> is the loop until it waits again, and \<open>None\<close> if it never does.

  Changes reach it through the broadcast channel of \<^verbatim>\<open>Agent::load\<close>, which keeps the last 64. The first
  \<^verbatim>\<open>recv\<close> of a reader that is further behind is an error, and any error ends the loop.
\<close>

section \<open>The task\<close>

definition CHANGE_CAPACITY :: nat where "CHANGE_CAPACITY = 64"

record refresher =
  rf_core :: core
  rf_waiting :: nat
  rf_lagged :: bool
  rf_alive :: bool

definition tell_refresher :: "nat \<Rightarrow> refresher \<Rightarrow> refresher" where
  "tell_refresher n f =
     (if rf_waiting f + n \<le> CHANGE_CAPACITY then f\<lparr>rf_waiting := rf_waiting f + n\<rparr>
      else f\<lparr>rf_waiting := CHANGE_CAPACITY, rf_lagged := True\<rparr>)"

definition changes_since :: "core \<Rightarrow> core \<Rightarrow> nat" where
  "changes_since c c' = length (filter (\<lambda>q. q = Changed) (drop (length (co_requests c)) (co_requests c')))"

definition spawn_refresher :: "core \<Rightarrow> refresher" where
  "spawn_refresher c = \<lparr>rf_core = c, rf_waiting = 0, rf_lagged = False, rf_alive = True\<rparr>"

text \<open>One turn: whether publishing fails is only logged.\<close>

definition refresh_turn :: "host \<Rightarrow> refresher \<Rightarrow> refresher" where
  "refresh_turn H f =
     (if \<not> rf_alive f then f
      else if rf_lagged f then f\<lparr>rf_alive := False\<rparr>
      else if rf_waiting f = 0 then f
      else
        let c = fst (publish_local_facts H (rf_core f))
        in tell_refresher (changes_since (rf_core f) c) (f\<lparr>rf_core := c, rf_waiting := rf_waiting f - 1\<rparr>))"

partial_function (option) refresh_all :: "host \<Rightarrow> refresher \<Rightarrow> refresher option" where
  "refresh_all H f =
     (if \<not> rf_alive f \<or> \<not> rf_lagged f \<and> rf_waiting f = 0 then Some f else refresh_all H (refresh_turn H f))"

text \<open>Another part of the agent changes something.\<close>

definition core_changes :: "(core \<Rightarrow> core) \<Rightarrow> refresher \<Rightarrow> refresher" where
  "core_changes g f =
     (let c = g (rf_core f) in tell_refresher (changes_since (rf_core f) c) (f\<lparr>rf_core := c\<rparr>))"

section \<open>It settles\<close>

lemma refresh_settled:
  assumes "publish_local_facts H c = (c, Inr False)" and "n \<le> CHANGE_CAPACITY"
  shows "refresh_all H \<lparr>rf_core = c, rf_waiting = n, rf_lagged = False, rf_alive = True\<rparr> =
    Some \<lparr>rf_core = c, rf_waiting = 0, rf_lagged = False, rf_alive = True\<rparr>"
  using assms(2)
proof (induction n)
  case 0
  show ?case by (subst refresh_all.simps) simp
next
  case (Suc n)
  then show ?case
    using assms(1) by (subst refresh_all.simps) (simp add: refresh_turn_def tell_refresher_def changes_since_def)
qed

text \<open>What one publication asks for: at most one change and one message to the others.\<close>

definition is_broadcast :: "request \<Rightarrow> bool" where
  "is_broadcast q \<longleftrightarrow> (\<exists>u. q = BroadcastUpdate u)"

lemma published_requests:
  assumes "publish_local_facts H c = (c', r)"
  shows "\<exists>qs. co_requests c' = co_requests c @ qs \<and> changes_since c c' \<le> 1 \<and> length (filter is_broadcast qs) \<le> 1"
proof (cases "own_record c")
  case None
  then show ?thesis using assms by (auto simp: publish_local_facts_def changes_since_def Let_def)
next
  case (Some r0)
  then obtain d where "co_doc c = Some d" by (auto simp: own_record_def Option.bind_eq_Some_conv)
  from mutate_doc(5) [OF this] mutate_doc(2) [OF this] show ?thesis
    using assms publish_cases [OF Some, of H]
    by (auto simp: and_then_def agent_upsert_machine_def changes_since_def is_broadcast_def split_beta split: if_splits)
qed

lemma published_record:
  assumes "publish_local_facts H c = (c', Inr False)" and "own_record c = Some r"
  shows "\<not> differ (mr_displays r) (local_displays H) \<and> mr_platform r = h_platform H"
  using assms publish_cases [OF assms(2), of H] by (auto simp: and_then_def split: if_splits prod.splits sum.splits)

lemma settled_at_once:
  assumes "\<forall>d. co_doc c = Some d \<longrightarrow> doc_wf d" and "\<forall>x \<in> set (local_displays H). display_eq x x"
    and "publish_local_facts H c = (c', r)"
  shows "publish_local_facts H c' = (c', Inr False)"
proof (cases "co_doc c")
  case None
  then have "publish_local_facts H c = (c, Inr False)" by (simp add: publish_local_facts_def own_record_def Let_def)
  then show ?thesis using assms(3) by simp
next
  case (Some d)
  then show ?thesis using publish_settled [OF Some _ assms(3,2) refl refl] assms(1) by blast
qed

section \<open>Properties\<close>

text \<open>
  C34: The task that republishes this machine's record cannot chase itself. Although every publication
  is a change and every change wakes the task, from any backlog it can hold it comes to rest, alive
  and with nothing waiting; it sent the other machines one message at most, and after it the
  record, if there is one, shows the screens and the platform the machine has.
\<close>

theorem refreshing_comes_to_rest:
  assumes "\<forall>d. co_doc c = Some d \<longrightarrow> doc_wf d" and "\<forall>x \<in> set (local_displays H). display_eq x x"
    and "0 < n" and "n \<le> CHANGE_CAPACITY"
  shows "\<exists>c' qs. refresh_all H \<lparr>rf_core = c, rf_waiting = n, rf_lagged = False, rf_alive = True\<rparr> =
      Some \<lparr>rf_core = c', rf_waiting = 0, rf_lagged = False, rf_alive = True\<rparr> \<and>
    co_requests c' = co_requests c @ qs \<and> length (filter is_broadcast qs) \<le> 1 \<and>
    (\<forall>r. own_record c' = Some r \<longrightarrow> \<not> differ (mr_displays r) (local_displays H) \<and> mr_platform r = h_platform H)"
proof -
  obtain c' r where run: "publish_local_facts H c = (c', r)" by fastforce
  obtain qs where qs: "co_requests c' = co_requests c @ qs" "changes_since c c' \<le> 1" "length (filter is_broadcast qs) \<le> 1"
    using published_requests [OF run] by blast
  note rest = settled_at_once [OF assms(1,2) run]
  have room: "n - 1 + changes_since c c' \<le> CHANGE_CAPACITY" using assms(3,4) qs(2) by linarith
  have "refresh_all H \<lparr>rf_core = c, rf_waiting = n, rf_lagged = False, rf_alive = True\<rparr> =
      refresh_all H \<lparr>rf_core = c', rf_waiting = n - 1 + changes_since c c', rf_lagged = False, rf_alive = True\<rparr>"
    using assms(3) run room by (subst refresh_all.simps) (simp add: refresh_turn_def tell_refresher_def)
  also have "\<dots> = Some \<lparr>rf_core = c', rf_waiting = 0, rf_lagged = False, rf_alive = True\<rparr>"
    by (rule refresh_settled [OF rest room])
  finally show ?thesis using qs(1,3) published_record [OF rest] by blast
qed

theorem refreshing_comes_to_rest_witness:
  "\<exists>c'. refresh_all (sample_host 1) \<lparr>rf_core = sample_core 1 sample_doc, rf_waiting = 3, rf_lagged = False, rf_alive = True\<rparr> =
     Some \<lparr>rf_core = c', rf_waiting = 0, rf_lagged = False, rf_alive = True\<rparr>"
proof -
  have "\<forall>d. co_doc (sample_core 1 sample_doc) = Some d \<longrightarrow> doc_wf d"
    using sample_wf(1) by (simp add: sample_core_def)
  moreover have "\<forall>x \<in> set (local_displays (sample_host 1)). display_eq x x" by code_simp
  ultimately show ?thesis
    using refreshing_comes_to_rest [of "sample_core 1 sample_doc" "sample_host 1" 3] by (auto simp: CHANGE_CAPACITY_def)
qed

text \<open>
  What goes wrong when more than 64 changes come while the task publishes, which waits while the
  network's mailbox is full: \<^verbatim>\<open>recv\<close> answers that some were missed, the loop takes any error for the
  end, and a monitor that is plugged in later is not published any more.
\<close>

theorem lag_ends_the_refresher:
  assumes "rf_alive f" and "CHANGE_CAPACITY < rf_waiting f + changes_since (rf_core f) (g (rf_core f))"
  shows "let f' = refresh_turn H (core_changes g f)
    in rf_core f' = g (rf_core f) \<and> \<not> rf_alive f' \<and> refresh_turn H' (core_changes g' f') = core_changes g' f'"
  using assms by (simp add: core_changes_def tell_refresher_def refresh_turn_def Let_def)

end
