(* ===== verification/Node.thy ===== *)
theory Node
  imports Agent Discovery
begin

text \<open>
  A running machine: the handle \<^verbatim>\<open>Service\<close> and \<^verbatim>\<open>Service::start\<close> (\<^verbatim>\<open>crates/is-net/src/service.rs\<close>) with the
  agent's \<^verbatim>\<open>go_online\<close> (\<^verbatim>\<open>crates/is-agent/src/lib.rs\<close>).

  \<^verbatim>\<open>Service::start\<close> spawns the actor and the tasks that feed its mailbox; \<^verbatim>\<open>go_online\<close> spawns the
  task that reads its events. The steps of \<open>node_step\<close> are the turns these tasks take, in any
  order: a task that waits for room in the mailbox has no step. The mailbox holds 256 messages.
  The events go through a broadcast channel that keeps the last 256: a reader that is further
  behind is told how many it missed. The channel of 128 between listener and mailbox only delays
  sightings and is left out.
\<close>

section \<open>Sockets\<close>

datatype bind_answer = Bound u16 | AddrInUse | BindFailed io_error_kind

definition bind_transport :: "(u16 \<Rightarrow> bind_answer) \<Rightarrow> u16 \<Rightarrow> net_error + u16" where
  "bind_transport bind preferred =
     (let any = (\<lambda>a. case a of Bound port \<Rightarrow> Inr port | AddrInUse \<Rightarrow> Inl (NetIo OtherIo) | BindFailed k \<Rightarrow> Inl (NetIo k))
      in if bind preferred = AddrInUse \<and> preferred \<noteq> 0 then any (bind 0) else any (bind preferred))"

text \<open>\<^verbatim>\<open>dial\<close>: \<open>None\<close> is no answer within five seconds.\<close>

definition dial :: "(io_error_kind + 'stream) option \<Rightarrow> net_error + 'stream" where
  "dial answer =
     (case answer of None \<Rightarrow> Inl Timeout | Some (Inl k) \<Rightarrow> Inl (NetIo k) | Some (Inr stream) \<Rightarrow> Inr stream)"

section \<open>The service\<close>

record config =
  cf_identity :: identity
  cf_discovery_port :: u16
  cf_transport_port :: u16
  cf_announce_interval :: nat

definition config_new :: "identity \<Rightarrow> config" where
  "config_new self = \<lparr>cf_identity = self, cf_discovery_port = 47451, cf_transport_port = 47452,
     cf_announce_interval = 3000\<rparr>"

record service =
  sv_mailbox :: "internal list"
  sv_open :: bool
  sv_announce_now :: bool
  sv_manual :: "socket_addr list"
  sv_discovery_port :: u16
  sv_transport_port :: u16

definition MAILBOX_CAPACITY :: nat where "MAILBOX_CAPACITY = 256"
definition EVENT_CAPACITY :: nat where "EVENT_CAPACITY = 256"

definition service_start :: "(u16 \<Rightarrow> bind_answer) \<Rightarrow> config \<Rightarrow> net_error + service \<times> actor" where
  "service_start bind cf =
     (case bind_transport bind (cf_transport_port cf) of
        Inl e \<Rightarrow> Inl e
      | Inr port \<Rightarrow>
          Inr (\<lparr>sv_mailbox = [], sv_open = True, sv_announce_now = False, sv_manual = [], sv_discovery_port = cf_discovery_port cf,
                sv_transport_port = port\<rparr>,
               \<lparr>me = id_machine_id (cf_identity cf), discovery_port_of = cf_discovery_port cf, peers = bt_empty,
                channels = (\<lambda>_. \<lparr>ch_queue = [], ch_open = False\<rparr>), emitted = [], spawned = []\<rparr>))"

text \<open>
  The methods of the handle. \<^verbatim>\<open>send(..).await\<close> waits while the mailbox is full, which is \<open>None\<close>, and
  does nothing when the actor is gone.
\<close>

definition post :: "internal \<Rightarrow> service \<Rightarrow> service option" where
  "post msg s =
     (if \<not> sv_open s then Some s
      else if length (sv_mailbox s) < MAILBOX_CAPACITY then Some (s\<lparr>sv_mailbox := sv_mailbox s @ [msg]\<rparr>) else None)"

definition service_broadcast :: "workspace_update \<Rightarrow> service \<Rightarrow> service option" where
  "service_broadcast u = post (Broadcast u)"

definition service_send_input :: "machine_id \<Rightarrow> input_event list \<Rightarrow> service \<Rightarrow> service option" where
  "service_send_input to events = post (SendInput to events)"

definition service_announce_cursor_owner :: "machine_id \<Rightarrow> service \<Rightarrow> service option" where
  "service_announce_cursor_owner m = post (AnnounceCursorOwner m)"

definition service_rescan :: "service \<Rightarrow> service option" where
  "service_rescan s = post Rescan (s\<lparr>sv_announce_now := True\<rparr>)"

definition service_shutdown :: "service \<Rightarrow> service option" where
  "service_shutdown = post Shutdown"

section \<open>The agent's ear\<close>

record receiver =
  rc_waiting :: "event list"
  rc_missed :: nat

definition new_receiver :: receiver where
  "new_receiver = \<lparr>rc_waiting = [], rc_missed = 0\<rparr>"

definition tell_receiver :: "event \<Rightarrow> receiver \<Rightarrow> receiver" where
  "tell_receiver e r =
     (if length (rc_waiting r) < EVENT_CAPACITY then r\<lparr>rc_waiting := rc_waiting r @ [e]\<rparr>
      else r\<lparr>rc_waiting := tl (rc_waiting r) @ [e], rc_missed := rc_missed r + 1\<rparr>)"

text \<open>\<^verbatim>\<open>recv\<close>: how many were missed, or the next event, or nothing yet.\<close>

definition receive_event :: "receiver \<Rightarrow> (receiver \<times> (nat + event)) option" where
  "receive_event r =
     (if 0 < rc_missed r then Some (r\<lparr>rc_missed := 0\<rparr>, Inl (rc_missed r))
      else case rc_waiting r of [] \<Rightarrow> None | e # es \<Rightarrow> Some (r\<lparr>rc_waiting := es\<rparr>, Inr e))"

section \<open>The machine\<close>

record node =
  nd_core :: core
  nd_service :: service
  nd_actor :: actor
  nd_events :: receiver

definition go_online_ports :: "core \<Rightarrow> u16 \<times> u16" where
  "go_online_ports c =
     (let s = (case co_doc c of Some d \<Rightarrow> lww_value (settings d) | None \<Rightarrow> workspace_settings_default)
      in (discovery_port s, transport_port s))"

text \<open>
  \<^verbatim>\<open>go_online_on\<close>. The tasks run from \<^verbatim>\<open>Service::start\<close> on, and the agent subscribes after it: \<open>early\<close>
  is what the actor handles in between, and its events have no reader.
\<close>

definition go_online_on ::
  "(u16 \<Rightarrow> bind_answer) \<Rightarrow> u16 \<Rightarrow> u16 \<Rightarrow> (instant \<times> (machine_id \<Rightarrow> pub_key \<Rightarrow> bool) \<times> internal) list \<Rightarrow> core
     \<Rightarrow> net_error + node" where
  "go_online_on bind discovery transport early c =
     (case service_start bind ((config_new (co_identity c))\<lparr>cf_discovery_port := discovery, cf_transport_port := transport\<rparr>) of
        Inl e \<Rightarrow> Inl e
      | Inr (s, a) \<Rightarrow>
          Inr \<lparr>nd_core = c, nd_service = s, nd_actor = actor_run early a, nd_events = new_receiver\<rparr>)"

text \<open>What the agent asks of the network goes to the service, if there is one.\<close>

fun forward :: "request \<Rightarrow> service \<Rightarrow> service option" where
  "forward (BroadcastUpdate u) s = service_broadcast u s"
| "forward RescanNetwork s = service_rescan s"
| "forward (AddPeer addr) s = Some (s\<lparr>sv_manual := service_add_manual_peer addr (sv_manual s), sv_announce_now := True\<rparr>)"
| "forward (ForgetPeer addr) s = Some (s\<lparr>sv_manual := service_forget_manual_peer addr (sv_manual s)\<rparr>)"
| "forward Changed s = Some s"
| "forward (InjectEvent e) s = Some s"

definition agent_send_input :: "machine_id \<Rightarrow> input_event list \<Rightarrow> service option \<Rightarrow> service option option" where
  "agent_send_input to events net =
     (case net of None \<Rightarrow> Some None | Some s \<Rightarrow> map_option Some (service_send_input to events s))"

definition agent_announce_cursor_owner :: "machine_id \<Rightarrow> service option \<Rightarrow> service option option" where
  "agent_announce_cursor_owner m net =
     (case net of None \<Rightarrow> Some None | Some s \<Rightarrow> map_option Some (service_announce_cursor_owner m s))"

text \<open>Handling one message, with the events it emits.\<close>

definition node_handle :: "instant \<Rightarrow> node \<Rightarrow> node" where
  "node_handle now n =
     (case sv_mailbox (nd_service n) of
        [] \<Rightarrow> n
      | msg # mail \<Rightarrow>
          let n = n\<lparr>nd_service := (nd_service n)\<lparr>sv_mailbox := mail\<rparr>\<rparr> in
          (case actor_step now (\<lambda>i key. core_authorize i key (nd_core n)) msg (nd_actor n) of
             None \<Rightarrow> n\<lparr>nd_service := (nd_service n)\<lparr>sv_mailbox := [], sv_open := False\<rparr>\<rparr>
           | Some a \<Rightarrow>
               n\<lparr>nd_actor := a,
                 nd_events := fold tell_receiver (drop (length (emitted (nd_actor n))) (emitted a)) (nd_events n)\<rparr>))"

text \<open>One turn of the task that reads the events.\<close>

definition node_listen :: "host \<Rightarrow> node \<Rightarrow> node" where
  "node_listen H n =
     (case receive_event (nd_events n) of
        None \<Rightarrow> n
      | Some (r, Inl missed) \<Rightarrow> n\<lparr>nd_events := r\<rparr>
      | Some (r, Inr e) \<Rightarrow> n\<lparr>nd_events := r, nd_core := on_net_event H e (nd_core n)\<rparr>)"

text \<open>
  What else the agent does, apart from hearing events, giving its configuration up, which it only
  does on hearing one, and removing a machine, which it stops showing while it is connected.
\<close>

fun changes_view :: "agent_command \<Rightarrow> bool" where
  "changes_view (NetEvent e) = True"
| "changes_view (Adopt i key) = True"
| "changes_view (Unpair i) = True"
| "changes_view _ = False"

inductive node_step :: "announcement codec \<Rightarrow> node \<Rightarrow> node \<Rightarrow> bool" for J where
  Heard: "heard J payload source = Some s \<Longrightarrow> post (Sighting s) (nd_service n) = Some s' \<Longrightarrow>
    node_step J n (n\<lparr>nd_service := s'\<rparr>)"
| Ticked: "post Tick (nd_service n) = Some s' \<Longrightarrow> node_step J n (n\<lparr>nd_service := s'\<rparr>)"
| Reported: "post (Session outcome) (nd_service n) = Some s' \<Longrightarrow> node_step J n (n\<lparr>nd_service := s'\<rparr>)"
| Routed: "agent_send_input to events (Some (nd_service n)) = Some (Some s') \<Longrightarrow> node_step J n (n\<lparr>nd_service := s'\<rparr>)"
| Owned: "agent_announce_cursor_owner m (Some (nd_service n)) = Some (Some s') \<Longrightarrow> node_step J n (n\<lparr>nd_service := s'\<rparr>)"
| Asked: "co_requests (nd_core n) = q # qs \<Longrightarrow> forward q (nd_service n) = Some s' \<Longrightarrow>
    node_step J n (n\<lparr>nd_core := (nd_core n)\<lparr>co_requests := qs\<rparr>, nd_service := s'\<rparr>)"
| Closing: "service_shutdown (nd_service n) = Some s' \<Longrightarrow> node_step J n (n\<lparr>nd_service := s'\<rparr>)"
| Handled: "(\<And>msg mail. sv_mailbox (nd_service n) = msg # mail \<Longrightarrow> new_channel msg (nd_actor n)) \<Longrightarrow>
    node_step J n (node_handle now n)"
| Listened: "node_step J n (node_listen H n)"
| Did: "\<not> changes_view cmd \<Longrightarrow> node_step J n (n\<lparr>nd_core := agent_do H cmd (nd_core n)\<rparr>)"

text \<open>Runs in which the agent keeps up with the events.\<close>

inductive keeps_up :: "announcement codec \<Rightarrow> node \<Rightarrow> node \<Rightarrow> bool" for J n where
  Begun: "keeps_up J n n"
| Went: "keeps_up J n m \<Longrightarrow> node_step J m m' \<Longrightarrow> rc_missed (nd_events m') = 0 \<Longrightarrow> keeps_up J n m'"

section \<open>What the agent hears of the actor\<close>

text \<open>The news in an event, for a listener that takes a foreign workspace for the end of a connection.\<close>

fun hear_all :: "event \<Rightarrow> machine_id set \<Rightarrow> machine_id set" where
  "hear_all (EvOnline i) s = insert i s"
| "hear_all (EvOffline i reason) s = s - {i}"
| "hear_all (EvDifferentWorkspaces i name key theirs n) s = s - {i}"
| "hear_all _ s = s"

lemma hear_all_mono: "s \<subseteq> t \<Longrightarrow> hear_all e s \<subseteq> hear_all e t"
  by (cases e) auto

lemma fold_hear_mono: "s \<subseteq> t \<Longrightarrow> fold hear_all es s \<subseteq> fold hear_all es t"
  by (induction es arbitrary: s t) (simp_all add: hear_all_mono)

lemma agent_hears_more:
  "hear_all e (co_online c) \<subseteq> co_online (on_net_event H e c)"
  "\<not> is_mismatch e \<Longrightarrow> hear_all e (co_online c) = co_online (on_net_event H e c)"
  by (cases e; auto simp: adopt_configuration_of_def agent_rescan_def request_def Let_def split: option.split prod.split sum.split)+

lemma agent_hears_all:
  "fold hear_all es (co_online c) \<subseteq> co_online (fold (on_net_event H) es c)"
  "\<forall>e \<in> set es. \<not> is_mismatch e \<Longrightarrow> fold hear_all es (co_online c) = co_online (fold (on_net_event H) es c)"
proof (induction es arbitrary: c)
  case (Cons e es)
  {
    case 1
    have "fold hear_all es (hear_all e (co_online c)) \<subseteq> fold hear_all es (co_online (on_net_event H e c))"
      by (rule fold_hear_mono [OF agent_hears_more(1)])
    also have "\<dots> \<subseteq> co_online (fold (on_net_event H) es (on_net_event H e c))" by (rule Cons.IH(1))
    finally show ?case by simp
  next
    case 2
    then show ?case using agent_hears_more(2) [of e c H] Cons.IH(2) [of "on_net_event H e c"] by simp
  }
qed simp_all

definition tells :: "actor \<Rightarrow> actor \<Rightarrow> bool" where
  "tells a b \<longleftrightarrow> (\<exists>es. emitted b = emitted a @ es \<and> online_in b = fold hear_all es (online_in a))"

lemma tells_quiet:
  assumes "emitted b = emitted a @ es" and "\<And>e s. e \<in> set es \<Longrightarrow> hear_all e s = s"
    and "\<And>i. in_status Online i b \<longleftrightarrow> in_status Online i a"
  shows "tells a b"
proof -
  have "fold hear_all es s = s" for s using assms(2) by (induction es) auto
  then show ?thesis using assms(1,3) by (auto simp: tells_def online_in_def)
qed

lemma session_tells:
  assumes "bt_ok (peers a)"
  shows "tells a (on_session now outcome a)"
  unfolding tells_def
  by (cases outcome; intro exI [of _ "drop (length (emitted a)) (emitted (on_session now outcome a))"])
    (use assms in \<open>auto simp: emit_def online_in_def in_status_def bt_get_entry bt_get_adjust Let_def split: if_splits\<close>)

lemma sighting_tells:
  assumes "bt_ok (peers a)"
  shows "tells a (on_sighting now auth s a)"
proof -
  let ?an = "sg_announcement s"
  show ?thesis
    by (rule tells_quiet [where es = "if an_machine_id ?an = me a then [] else
        if auth (an_machine_id ?an) (an_identity_key ?an) then [EvSighted (an_machine_id ?an)]
        else [EvCandidate (an_machine_id ?an) (an_display_name ?an) (an_identity_key ?an) (an_workspace_id ?an)
          \<lparr>sa_ip = sa_ip (sg_from s), sa_port = an_transport_port ?an\<rparr> (me a \<in> set (an_invitations ?an))]"])
      (auto simp: on_sighting_def Let_def emit_def spawn_def in_status_def bt_get_entry assms split: if_splits option.splits)
qed

lemma tick_tells:
  assumes "bt_ok (peers a)"
  shows "tells a (on_tick now a)"
proof (rule tells_quiet)
  show "in_status Online i (on_tick now a) \<longleftrightarrow> in_status Online i a" for i
    by (cases "bt_get (peers a) i") (auto simp: in_status_def get_on_tick [OF assms] tick_slot_def due_def)
  show "emitted (on_tick now a) = emitted a @ map (\<lambda>(i, _). EvConnecting i) (dials now a)"
    by (simp add: on_tick_eq [OF assms])
qed auto

lemma actor_step_tells:
  assumes "actor_inv a" and step: "actor_step now auth msg a = Some b"
  shows "tells a b"
proof (cases msg)
  case (Broadcast u)
  then show ?thesis using step
    by (intro tells_quiet [where es = "[]"]) (auto simp: on_broadcast_eq [OF assms(1)] in_status_def bt_get_each)
next
  case (SendInput to events)
  then show ?thesis using step
    by (intro tells_quiet [where es = "[]"])
      (auto simp: on_send_input_def push_eq in_status_def bt_get_adjust split: option.splits if_splits)
next
  case (AnnounceCursorOwner m)
  then show ?thesis using step
    by (intro tells_quiet [where es = "[]"]) (auto simp: on_announce_owner_def in_status_def)
next
  case Rescan
  then show ?thesis using step
    by (intro tells_quiet [where es = "[]"]) (auto simp: on_rescan_def in_status_def bt_get_each split: if_splits)
qed (use step session_tells sighting_tells tick_tells actor_invD(1) [OF assms(1)] in auto)

lemma mutate_online: "co_online (fst (mutate H change c)) = co_online c"
  by (simp add: mutate_def Let_def request_def split: option.split prod.split)

lemma merge_apply_online:
  "co_online (fst (core_merge H d c)) = co_online c" "co_online (fst (core_apply H u c)) = co_online c"
  by (auto simp: core_merge_def core_apply_def Let_def request_def split: option.split prod.split sum.split)

lemma inject_all_online: "co_online (inject_all H es c) = co_online c"
  by (induction es arbitrary: c) (simp_all add: request_def split: option.split)

lemma pair_online: "co_online (fst (pair H i c)) = co_online c"
  using mutate_online [of H _ c]
  by (simp add: pair_def Let_def split_beta request_def split: option.split sum.split)

lemma publish_online: "co_online (fst (publish_local_facts H c)) = co_online c"
  using mutate_online [of H _ c]
  by (simp add: publish_local_facts_def agent_upsert_machine_def Let_def split_beta split: option.split sum.split)

lemma sharing_online: "co_online (fst (set_sharing H on started c)) = co_online c"
  by (simp add: set_sharing_def remember_sharing_def request_def Let_def note_cursor_owner_def split: sum.split)

lemma rename_online: "co_online (fst (rename_this_machine H name c)) = co_online c"
  by (simp add: rename_this_machine_def agent_upsert_machine_def mutate_online split: option.split)

lemma command_online: "\<not> changes_view cmd \<Longrightarrow> co_online (agent_do H cmd c) = co_online c"
  by (cases cmd)
    (simp_all add: pair_online publish_online sharing_online rename_online mutate_online merge_apply_online inject_all_online
      agent_upsert_machine_def rename_workspace_def update_settings_def add_manual_peer_def forget_manual_peer_def request_def
      note_cursor_owner_def set_remote_input_sink_def take_announced_owner_def core_on_input_def core_on_cursor_owner_def
      Let_def split: option.split)

section \<open>Invariant of a running machine\<close>

definition node_inv :: "node \<Rightarrow> bool" where
  "node_inv n \<longleftrightarrow> actor_inv (nd_actor n) \<and> rc_missed (nd_events n) = 0 \<and>
     set (rc_waiting (nd_events n)) \<subseteq> set (emitted (nd_actor n)) \<and>
     online_in (nd_actor n) \<subseteq> fold hear_all (rc_waiting (nd_events n)) (co_online (nd_core n)) \<and>
     ((\<forall>e \<in> set (emitted (nd_actor n)). \<not> is_mismatch e) \<longrightarrow>
        online_in (nd_actor n) = fold hear_all (rc_waiting (nd_events n)) (co_online (nd_core n)))"

lemma told_all:
  "rc_missed r \<le> rc_missed (fold tell_receiver es r)"
  "rc_missed (fold tell_receiver es r) = rc_missed r \<Longrightarrow> rc_waiting (fold tell_receiver es r) = rc_waiting r @ es"
proof (induction es arbitrary: r)
  case (Cons e es)
  {
    case 1
    have "rc_missed r \<le> rc_missed (tell_receiver e r)" by (simp add: tell_receiver_def)
    with Cons.IH(1) [of "tell_receiver e r"] show ?case by simp
  next
    case 2
    have "rc_missed r \<le> rc_missed (tell_receiver e r)" by (simp add: tell_receiver_def)
    then have same: "rc_missed (tell_receiver e r) = rc_missed r"
      using 2 Cons.IH(1) [of "tell_receiver e r"] by simp
    then have "rc_waiting (tell_receiver e r) = rc_waiting r @ [e]" by (auto simp: tell_receiver_def split: if_splits)
    with Cons.IH(2) [of "tell_receiver e r"] 2 same show ?case by simp
  }
qed simp_all

lemma handle_keeps_inv:
  assumes "node_inv n" and "\<And>msg mail. sv_mailbox (nd_service n) = msg # mail \<Longrightarrow> new_channel msg (nd_actor n)"
    and "rc_missed (nd_events (node_handle now n)) = 0"
  shows "node_inv (node_handle now n)"
proof (cases "sv_mailbox (nd_service n)")
  case Nil
  then show ?thesis using assms(1) by (simp add: node_handle_def)
next
  case (Cons msg mail)
  let ?step = "actor_step now (\<lambda>i key. core_authorize i key (nd_core n)) msg (nd_actor n)"
  show ?thesis
  proof (cases ?step)
    case None
    then show ?thesis using assms(1) Cons by (simp add: node_handle_def Let_def node_inv_def)
  next
    case (Some b)
    have inv: "actor_inv (nd_actor n)" and zero: "rc_missed (nd_events n) = 0" using assms(1) by (simp_all add: node_inv_def)
    obtain es where es: "emitted b = emitted (nd_actor n) @ es" "online_in b = fold hear_all es (online_in (nd_actor n))"
      using actor_step_tells [OF inv Some] by (auto simp: tells_def)
    have n': "nd_actor (node_handle now n) = b" "nd_core (node_handle now n) = nd_core n"
      "nd_events (node_handle now n) = fold tell_receiver es (nd_events n)"
      using Cons Some by (simp_all add: node_handle_def Let_def es(1))
    have told: "rc_waiting (fold tell_receiver es (nd_events n)) = rc_waiting (nd_events n) @ es"
      using told_all(2) [of es "nd_events n"] assms(3) zero n'(3) by simp
    have "actor_inv b" using actor_step_inv [OF inv assms(2) [OF Cons] Some] .
    then show ?thesis
      using assms(1,3) fold_hear_mono by (auto simp: node_inv_def n' told es)
  qed
qed

lemma listen_keeps_inv:
  assumes "node_inv n"
  shows "node_inv (node_listen H n)"
proof (cases "rc_waiting (nd_events n)")
  case Nil
  then show ?thesis using assms by (simp add: node_listen_def receive_event_def node_inv_def)
next
  case (Cons e es)
  let ?c = "on_net_event H e (nd_core n)" and ?a = "nd_actor n"
  have n': "node_listen H n = n\<lparr>nd_events := (nd_events n)\<lparr>rc_waiting := es\<rparr>, nd_core := ?c\<rparr>"
    using Cons assms by (simp add: node_listen_def receive_event_def node_inv_def)
  have "fold hear_all es (hear_all e (co_online (nd_core n))) \<subseteq> fold hear_all es (co_online ?c)"
    by (rule fold_hear_mono [OF agent_hears_more(1)])
  moreover have "\<forall>x \<in> set (emitted ?a). \<not> is_mismatch x \<Longrightarrow> hear_all e (co_online (nd_core n)) = co_online ?c"
    using agent_hears_more(2) assms Cons by (auto simp: node_inv_def)
  ultimately show ?thesis using assms Cons by (auto simp: node_inv_def n')
qed

lemma same_view_keeps_inv:
  "node_inv n \<Longrightarrow> nd_actor m = nd_actor n \<Longrightarrow> nd_events m = nd_events n \<Longrightarrow>
     co_online (nd_core m) = co_online (nd_core n) \<Longrightarrow> node_inv m"
  by (simp add: node_inv_def)

lemma node_step_keeps_inv:
  assumes "node_step J n m" and "node_inv n" and "rc_missed (nd_events m) = 0"
  shows "node_inv m"
  using assms
proof (cases rule: node_step.cases)
  case (Handled now)
  then show ?thesis using handle_keeps_inv assms(2,3) by simp
next
  case (Listened H)
  then show ?thesis using listen_keeps_inv assms(2) by simp
qed (auto intro!: same_view_keeps_inv [OF assms(2)] simp: command_online)

lemma keeps_up_inv:
  assumes "keeps_up J n m" and "node_inv n"
  shows "node_inv m"
  using assms(1)
proof induction
  case Begun
  show ?case by (rule assms(2))
next
  case (Went m m')
  from node_step_keeps_inv [OF Went(2,4,3)] show ?case .
qed

lemma started_inv:
  assumes "go_online_on bind discovery transport [] c = Inr n" and "co_online c = {}"
  shows "node_inv n"
  using assms
  by (auto simp: go_online_on_def service_start_def node_inv_def actor_inv_def bt_get_def bt_empty_def new_receiver_def
      online_in_def in_status_def split: sum.splits)

lemma steps_keep_room:
  assumes "node_step J n m"
    and "length (sv_mailbox (nd_service n)) \<le> MAILBOX_CAPACITY" and "length (rc_waiting (nd_events n)) \<le> EVENT_CAPACITY"
  shows "length (sv_mailbox (nd_service m)) \<le> MAILBOX_CAPACITY \<and> length (rc_waiting (nd_events m)) \<le> EVENT_CAPACITY"
proof -
  have posted: "length (sv_mailbox s') \<le> MAILBOX_CAPACITY"
    if "post msg s = Some s'" "length (sv_mailbox s) \<le> MAILBOX_CAPACITY" for msg s s'
    using that by (auto simp: post_def split: if_splits)
  have told: "length (rc_waiting (fold tell_receiver es r)) \<le> EVENT_CAPACITY"
    if "length (rc_waiting r) \<le> EVENT_CAPACITY" for es r
    using that by (induction es arbitrary: r) (auto simp: tell_receiver_def EVENT_CAPACITY_def)
  show ?thesis
    using assms
  proof (cases rule: node_step.cases)
    case (Asked q qs s')
    then show ?thesis
      using assms(2,3) posted by (cases q) (auto simp: service_broadcast_def service_rescan_def dest!: posted)
  next
    case (Handled now)
    then show ?thesis
      using assms(2,3) by (auto simp: node_handle_def Let_def told split: list.split option.split)
  next
    case (Listened H)
    then show ?thesis
      using assms(2,3) by (auto simp: node_listen_def receive_event_def split: option.split list.splits if_splits)
  qed (use assms(2,3) in \<open>auto simp: agent_send_input_def agent_announce_cursor_owner_def service_send_input_def
      service_announce_cursor_owner_def service_shutdown_def dest: posted\<close>)
qed

section \<open>Properties\<close>


text \<open>A machine that goes online, hears of a connection and handles it.\<close>

definition sample_node :: node where
  "sample_node = \<lparr>nd_core = sample_core 1 sample_doc,
     nd_service = \<lparr>sv_mailbox = [], sv_open = True, sv_announce_now = False, sv_manual = [], sv_discovery_port = 47451,
       sv_transport_port = 50000\<rparr>,
     nd_actor = \<lparr>me = 1, discovery_port_of = 47451, peers = bt_empty, channels = (\<lambda>_. \<lparr>ch_queue = [], ch_open = False\<rparr>),
       emitted = [], spawned = []\<rparr>, nd_events = new_receiver\<rparr>"

definition sample_bind :: "u16 \<Rightarrow> bind_answer" where
  "sample_bind port = (if port = 0 then Bound 50000 else AddrInUse)"

definition met :: internal where "met = Session (Established 2 ''pc'' 5)"

definition sample_met :: node where
  "sample_met = sample_node\<lparr>nd_service := (nd_service sample_node)\<lparr>sv_mailbox := [met]\<rparr>\<rparr>"

lemma sample_node_starts: "go_online_on sample_bind 47451 47452 [] (sample_core 1 sample_doc) = Inr sample_node"
  by (simp add: go_online_on_def service_start_def bind_transport_def sample_bind_def config_new_def sample_node_def
      sample_core_def generate_def)

lemma sample_node_runs: "keeps_up J sample_node (node_handle 1000 sample_met)"
proof (rule keeps_up.Went [OF keeps_up.Went [OF keeps_up.Begun]])
  have "node_step J sample_node (sample_node\<lparr>nd_service := (nd_service sample_node)\<lparr>sv_mailbox := [met]\<rparr>\<rparr>)"
    by (rule node_step.Reported) (simp add: post_def sample_node_def met_def MAILBOX_CAPACITY_def)
  then show "node_step J sample_node sample_met" by (simp only: sample_met_def)
  show "node_step J sample_met (node_handle 1000 sample_met)"
    by (rule node_step.Handled) (simp add: sample_met_def sample_node_def new_channel_def bt_get_def bt_empty_def)
qed (simp_all add: sample_met_def sample_node_def new_receiver_def node_handle_def Let_def met_def emit_def tell_receiver_def
    EVENT_CAPACITY_def)



definition busy_announcement :: announcement where
  "busy_announcement = describe (core_workspace (sample_host 1)) toy_crypto (generate 1 0 [3]) 50000 (sample_core 1 sample_doc)"

definition busy_codec :: "announcement codec" where
  "busy_codec = \<lparr>enc = (\<lambda>_. Some [1]), dec = (\<lambda>_. Some busy_announcement)\<rparr>"


text \<open>Neither queue grows beyond its capacity, in any run.\<close>

theorem queues_stay_bounded:
  assumes "(node_step J)\<^sup>*\<^sup>* n m"
    and "length (sv_mailbox (nd_service n)) \<le> MAILBOX_CAPACITY" and "length (rc_waiting (nd_events n)) \<le> EVENT_CAPACITY"
  shows "length (sv_mailbox (nd_service m)) \<le> MAILBOX_CAPACITY \<and> length (rc_waiting (nd_events m)) \<le> EVENT_CAPACITY"
  using assms
proof (induction rule: rtranclp_induct)
  case (step m m')
  then show ?case using steps_keep_room [of J m m'] by simp
qed simp

text \<open>
  A session that comes up after \<^verbatim>\<open>Service::start\<close> and before the agent subscribes is connected, and the
  agent has no event waiting that would say so.
\<close>

theorem early_session_is_not_shown:
  assumes "go_online_on bind discovery transport [(now, auth, Session (Established i name ch))] c = Inr n"
    and "co_online c = {}"
  shows "in_status Online i (nd_actor n) \<and> i \<notin> co_online (fold (on_net_event H) (rc_waiting (nd_events n)) (nd_core n))"
  using assms
  by (auto simp: go_online_on_def service_start_def new_receiver_def emit_def in_status_def bt_get_def bt_entry_def bt_empty_def
      split: sum.splits)

text \<open>
  A connected machine that is met again in a foreign workspace is disconnected by the actor, and
  the agent that keeps its own configuration goes on showing it until the old session ends.
\<close>

theorem foreign_workspace_stays_shown:
  assumes "bt_ok (peers a)" and "in_status Online i a" and "i \<in> co_online c" and "co_doc c = Some d"
    and "\<not> should_yield d theirs number"
    and "b = on_session now (DifferentWorkspaces i name key theirs number) a"
  shows "\<not> in_status Online i b \<and> i \<in> co_online (fold (on_net_event H) (drop (length (emitted a)) (emitted b)) c)"
  using assms by (auto simp: emit_def in_status_def bt_get_adjust split: if_splits)

text \<open>
  An address that was typed in before the network is up stays on the window's list, and the service that is
  started later never hears of it.
\<close>

theorem early_address_is_not_tried:
  assumes "go_online_on bind discovery transport early c = Inr n"
  shows "sv_manual (nd_service n) = [] \<and> co_manual_peers (nd_core n) = co_manual_peers c \<and>
    (\<forall>s. forward q (nd_service n) = Some s \<and> (\<forall>a. q \<noteq> AddPeer a) \<longrightarrow> sv_manual s = [])"
  using assms
  by (cases q) (auto simp: go_online_on_def service_start_def post_def service_broadcast_def service_rescan_def
      service_forget_manual_peer_def split: sum.splits if_splits)

end
