(* ===== verification/Desk.thy ===== *)
theory Desk
  imports Agent Hook_Thread
begin

text \<open>
  Sharing as a whole on one machine: the agent's switch (\<^verbatim>\<open>set_sharing\<close> of
  \<^verbatim>\<open>crates/is-agent/src/lib.rs\<close>), \<^verbatim>\<open>start\<close> and \<^verbatim>\<open>Sharing::stop\<close> of \<^verbatim>\<open>crates/is-agent/src/sharing.rs\<close>, the
  routing loop, and the hooks of Windows.

  What the loop asks for is done to the real components here: \<open>perform\<close> runs one effect of
  \<open>Sharing\<close> on the capture process of \<open>Hook_Thread\<close> and the core of \<open>Agent\<close>. The bridge thread
  and the channels between hook and loop only delay events and are left out; stopping waits
  for the loop, up to three seconds in the code and for as long as it takes here.
\<close>

section \<open>State and effects\<close>

record desk =
  dk_core :: core
  dk_process :: capture_process
  dk_router :: "router option"

definition input_error_text :: "input_error \<Rightarrow> string" where
  "input_error_text e =
     (case e of
        Unsupported what \<Rightarrow> ''this platform is not supported yet: '' @ what
      | Os what \<Rightarrow> ''the operating system refused: '' @ what
      | AlreadyRunning \<Rightarrow> ''input capture is already running'')"

definition on_capture :: "(capture_state \<Rightarrow> capture_state) \<Rightarrow> desk \<Rightarrow> desk" where
  "on_capture f k = k\<lparr>dk_process := (dk_process k)\<lparr>cp_state := f (cp_state (dk_process k))\<rparr>\<rparr>"

text \<open>Messages to other machines, replay and the placing of the pointer leave these parts alone.\<close>

fun perform :: "u64 \<Rightarrow> effect \<Rightarrow> desk \<Rightarrow> desk" where
  "perform now (Suppress b) k = on_capture (set_suppressing now b) k"
| "perform now (NoteOwner m) k = k\<lparr>dk_core := note_cursor_owner m (dk_core k)\<rparr>"
| "perform now (RemoteSink b) k = k\<lparr>dk_core := set_remote_input_sink b (dk_core k)\<rparr>"
| "perform now _ k = k"

text \<open>
  The router moves on, and its new effects happen. The announced owner it has is the slot of the
  agent, which outlives it.
\<close>

definition advance :: "u64 \<Rightarrow> router \<Rightarrow> router \<Rightarrow> desk \<Rightarrow> desk" where
  "advance now r r' k =
     fold (perform now) (drop (length (effects r)) (effects r'))
       (k\<lparr>dk_router := Some r', dk_core := (dk_core k)\<lparr>co_announced_owner := announced_owner r'\<rparr>\<rparr>)"

section \<open>Starting and stopping\<close>

definition sharing_start ::
  "u64 \<Rightarrow> world \<Rightarrow> string + hook_os \<Rightarrow> string option \<Rightarrow> (i32 \<times> i32) option \<Rightarrow> desk \<Rightarrow> desk \<times> (agent_error + unit)" where
  "sharing_start now w hooks bridge ptr k =
     (case process_start now hooks (dk_process k) of
        (p, Inl e) \<Rightarrow> (k\<lparr>dk_process := p\<rparr>, Inl (Refusal (input_error_text e)))
      | (p, Inr _) \<Rightarrow>
          (case bridge of
             Some e \<Rightarrow> (k\<lparr>dk_process := process_drop p\<rparr>, Inl (Refusal e))
           | None \<Rightarrow>
               let r = router_start w (id_machine_id (co_identity (dk_core k))) (co_announced_owner (dk_core k)) ptr
               in (fold (perform now) (effects r) (k\<lparr>dk_process := p, dk_router := Some r\<rparr>), Inr ())))"

text \<open>The end of \<^verbatim>\<open>run\<close>, however the loop was left.\<close>

definition sharing_end :: "u64 \<Rightarrow> desk \<Rightarrow> desk" where
  "sharing_end now k =
     (case dk_router k of
        None \<Rightarrow> k
      | Some r \<Rightarrow>
          let k = on_capture (set_suppressing now False) k;
              k = k\<lparr>dk_process := process_drop (dk_process k)\<rparr>
          in k\<lparr>dk_core := note_cursor_owner None (set_remote_input_sink False (dk_core k)), dk_router := None\<rparr>)"

definition switch_sharing ::
  "host \<Rightarrow> u64 \<Rightarrow> world \<Rightarrow> string + hook_os \<Rightarrow> string option \<Rightarrow> (i32 \<times> i32) option \<Rightarrow> bool \<Rightarrow> desk
     \<Rightarrow> desk \<times> (agent_error + unit)" where
  "switch_sharing H now w hooks bridge ptr enabled k =
     (let k = k\<lparr>dk_core := remember_sharing H enabled (dk_core k)\<rparr> in
      if enabled = co_sharing (dk_core k) then (k, Inr ())
      else if enabled then
        (case sharing_start now w hooks bridge ptr k of
           (k, Inl e) \<Rightarrow> (k, Inl e)
         | (k, Inr _) \<Rightarrow> (k\<lparr>dk_core := request Changed ((dk_core k)\<lparr>co_sharing := True\<rparr>)\<rparr>, Inr ()))
      else
        let k = k\<lparr>dk_core := (dk_core k)\<lparr>co_sharing := False\<rparr>\<rparr>;
            k = sharing_end now k
        in (k\<lparr>dk_core := request Changed (note_cursor_owner None (dk_core k))\<rparr>, Inr ()))"

text \<open>One turn of the loop; at the heartbeat the hooks are told that it is alive.\<close>

definition loop_turn :: "u64 \<Rightarrow> world \<Rightarrow> loop_event \<Rightarrow> desk \<Rightarrow> desk" where
  "loop_turn now w e k =
     (case dk_router k of
        None \<Rightarrow> k
      | Some r \<Rightarrow>
          let k = (if e = HeartbeatTick then on_capture (heartbeat now) k else k)
          in advance now r (router_step w e r) k)"

section \<open>What can happen\<close>

inductive desk_step :: "desk \<Rightarrow> desk \<Rightarrow> bool" where
  Switched: "desk_step k (fst (switch_sharing H now w hooks bridge ptr enabled k))"
| Turned: "desk_step k (loop_turn now w e k)"
| Broke: "desk_step k (sharing_end now k)"
| Told: "dk_router k = None \<Longrightarrow> desk_step k (k\<lparr>dk_core := core_on_cursor_owner i m (dk_core k)\<rparr>)"
| MouseCalled: "MouseHook \<in> cp_resources (dk_process k) \<Longrightarrow> desk_step k (on_capture (\<lambda>s. fst (mouse_hook now m s)) k)"
| KeyCalled: "KeyboardHook \<in> cp_resources (dk_process k) \<Longrightarrow>
    desk_step k (on_capture (\<lambda>s. fst (keyboard_hook now held m s)) k)"
| RawCalled: "RawWindow \<in> cp_resources (dk_process k) \<Longrightarrow> desk_step k (on_capture (raw_input_proc message len written raw) k)"

definition quiet_desk :: "core \<Rightarrow> desk" where
  "quiet_desk c = \<lparr>dk_core = c, dk_process = idle_process, dk_router = None\<rparr>"

inductive desk_reaches :: "core \<Rightarrow> desk \<Rightarrow> bool" for c where
  Quiet: "desk_reaches c (quiet_desk c)"
| Stepped: "desk_reaches c k \<Longrightarrow> desk_step k k' \<Longrightarrow> desk_reaches c k'"

section \<open>Effects come in order\<close>

definition extends :: "router \<Rightarrow> router \<Rightarrow> bool" where
  "extends r r' \<longleftrightarrow> take (length (effects r)) (effects r') = effects r"

lemma extends_append: "extends r r' \<longleftrightarrow> (\<exists>es. effects r' = effects r @ es)"
  unfolding extends_def by (metis append_eq_conv_conj append_take_drop_id)

lemma extends_trans: "extends r s \<Longrightarrow> extends s t \<Longrightarrow> extends r t"
  by (auto simp: extends_append)

lemma handle_extends: "extends r (handle w e src r)"
  by (auto simp: extends_append handle_def on_motion_def flush_effects place_cursor_effects Let_def
      split: input_event.split source.split option.split resolution.split)

lemma step_extends: "extends r (router_step w e r)"
proof (cases e)
  case (RemoteBatch es)
  have "extends r (fold (\<lambda>e. handle w e Remote) es r)"
  proof (induction es arbitrary: r)
    case (Cons x es)
    show ?case using extends_trans [OF handle_extends Cons] by simp
  qed (simp add: extends_append)
  then show ?thesis by (simp add: RemoteBatch)
qed (auto simp: extends_append handle_extends [unfolded extends_append] take_ownership_def flush_effects apply_announcement_def
    Let_def split: option.split)

section \<open>Invariant\<close>

definition desk_inv :: "desk \<Rightarrow> bool" where
  "desk_inv k \<longleftrightarrow> process_inv (dk_process k) \<and>
     (case dk_router k of
        None \<Rightarrow> cp_thread (dk_process k) = None \<and> co_remote_input (dk_core k) = None \<and> co_cursor_owner (dk_core k) = None
      | Some r \<Rightarrow> cp_thread (dk_process k) \<noteq> None \<and> co_sharing (dk_core k) \<and> router_ok r \<and>
          co_cursor_owner (dk_core k) = shown_owner (effects r) \<and>
          (suppressing (cp_state (dk_process k)) \<longrightarrow> swallowing r))"

lemma set_suppressing_mode: "suppressing (set_suppressing now b s) = b"
  by (simp add: set_suppressing_def Let_def)

lemma perform_fields:
  "dk_router (perform now e k) = dk_router k"
  "cp_thread (dk_process (perform now e k)) = cp_thread (dk_process k)"
  "process_inv (dk_process k) \<Longrightarrow> cp_thread (dk_process k) \<noteq> None \<Longrightarrow> process_inv (dk_process (perform now e k))"
  "suppressing (cp_state (dk_process (perform now e k))) = told_capture (suppressing (cp_state (dk_process k))) e"
  "co_cursor_owner (dk_core (perform now e k)) = told_view (co_cursor_owner (dk_core k)) e"
  "co_sharing (dk_core (perform now e k)) = co_sharing (dk_core k)"
  by (cases e;
      auto simp: on_capture_def note_cursor_owner_def set_remote_input_sink_def request_def hooks_keep_running set_suppressing_mode
        intro!: state_keeps_inv)+

lemma performed:
  "dk_router (fold (perform now) es k) = dk_router k"
  "cp_thread (dk_process (fold (perform now) es k)) = cp_thread (dk_process k)"
  "process_inv (dk_process k) \<Longrightarrow> cp_thread (dk_process k) \<noteq> None \<Longrightarrow> process_inv (dk_process (fold (perform now) es k))"
  "suppressing (cp_state (dk_process (fold (perform now) es k))) = foldl told_capture (suppressing (cp_state (dk_process k))) es"
  "co_cursor_owner (dk_core (fold (perform now) es k)) = foldl told_view (co_cursor_owner (dk_core k)) es"
  "co_sharing (dk_core (fold (perform now) es k)) = co_sharing (dk_core k)"
  by (induction es arbitrary: k) (simp_all add: perform_fields)

lemma told_capture_mono: "(b \<longrightarrow> b') \<Longrightarrow> foldl told_capture b es \<longrightarrow> foldl told_capture b' es"
proof (induction es arbitrary: b b')
  case (Cons e es)
  have "told_capture b e \<longrightarrow> told_capture b' e" using Cons.prems by (cases e) auto
  then show ?case using Cons.IH by simp
qed simp

lemma capture_keeps_inv:
  assumes "desk_inv k" and "dk_router k \<noteq> None"
    and "\<And>s. running (f s) = running s \<and> sink_open (f s) = sink_open s \<and> (suppressing (f s) \<longrightarrow> suppressing s)"
  shows "desk_inv (on_capture f k)"
  using assms by (auto simp: desk_inv_def on_capture_def intro!: state_keeps_inv)

lemma turn_keeps_inv:
  assumes "desk_inv k"
  shows "desk_inv (loop_turn now w e k)"
proof (cases "dk_router k")
  case None
  then show ?thesis using assms by (simp add: loop_turn_def)
next
  case (Some r)
  let ?k = "if e = HeartbeatTick then on_capture (heartbeat now) k else k" and ?r = "router_step w e r"
  have k: "desk_inv ?k" "dk_router ?k = Some r"
    using Some capture_keeps_inv [OF assms, of "heartbeat now"] assms by (simp_all add: heartbeat_def on_capture_def)
  obtain es where es: "effects ?r = effects r @ es" using step_extends [of r w e] unfolding extends_append by blast
  have ok: "router_ok r" "router_ok ?r" using k router_step_ok by (simp_all add: desk_inv_def)
  then have modes: "capture_mode (effects r) = swallowing r" "foldl told_capture (swallowing r) es = swallowing ?r"
    by (simp_all add: router_ok_def es)
  have "foldl told_capture (suppressing (cp_state (dk_process ?k))) es \<longrightarrow> swallowing ?r"
    using told_capture_mono [of "suppressing (cp_state (dk_process ?k))" "swallowing r" es] k modes
    by (simp add: desk_inv_def)
  then show ?thesis
    using Some k ok(2) by (simp add: loop_turn_def Let_def advance_def es desk_inv_def performed)
qed

lemma end_keeps_inv: "desk_inv k \<Longrightarrow> desk_inv (sharing_end now k)"
proof (cases "dk_router k")
  case (Some r)
  assume inv: "desk_inv k"
  have "process_inv (process_drop (dk_process (on_capture (set_suppressing now False) k)))"
    using inv Some by (intro drop_keeps_inv) (auto simp: desk_inv_def on_capture_def hooks_keep_running intro!: state_keeps_inv)
  moreover have "cp_thread (process_drop p) = None" for p
    by (simp add: process_drop_def Let_def split: option.split)
  moreover have "dk_core (on_capture f k) = dk_core k" for f by (simp add: on_capture_def)
  ultimately show ?thesis
    using Some by (simp add: sharing_end_def Let_def desk_inv_def note_cursor_owner_def set_remote_input_sink_def request_def)
qed (simp add: sharing_end_def)

lemma end_clears: "dk_router (sharing_end now k) = None"
  by (simp add: sharing_end_def Let_def split: option.split)

lemma start_result:
  assumes "process_inv p" and "cp_thread p = None" and "process_start now hooks p = (p', r)"
  shows "process_inv p'" and "r = Inl e \<Longrightarrow> cp_thread p' = None"
    and "r = Inr t \<Longrightarrow> cp_thread p' \<noteq> None \<and> \<not> suppressing (cp_state p')"
proof -
  show "process_inv p'" using start_keeps_inv [OF assms(1), of now hooks] assms(3) by simp
  show "r = Inl e \<Longrightarrow> cp_thread p' = None" "r = Inr t \<Longrightarrow> cp_thread p' \<noteq> None \<and> \<not> suppressing (cp_state p')"
    using assms
    by (auto simp: process_start_def capture_start_def process_inv_def thread_resources_def install_from_nothing Let_def
        split: if_splits sum.splits)
qed

lemma start_keeps_desk_inv:
  assumes "desk_inv k" and "dk_router k = None" and "sharing_start now w hooks bridge ptr k = (k', res)"
  shows "res = Inl e \<Longrightarrow> desk_inv k'"
    and "res = Inr () \<Longrightarrow> desk_inv (k'\<lparr>dk_core := request Changed ((dk_core k')\<lparr>co_sharing := True\<rparr>)\<rparr>)"
proof -
  obtain p' r where start: "process_start now hooks (dk_process k) = (p', r)" by fastforce
  have pre: "process_inv (dk_process k)" "cp_thread (dk_process k) = None" using assms(1,2) by (simp_all add: desk_inv_def)
  note started = start_result [OF pre start]
  have dropped: "process_inv (process_drop p')" "cp_thread (process_drop p') = None"
    using drop_keeps_inv [OF started(1)] by (simp_all add: process_drop_def Let_def split: option.split)
  show "res = Inl e \<Longrightarrow> desk_inv k'"
    using assms started dropped start by (auto simp: sharing_start_def desk_inv_def Let_def split: sum.splits option.splits)
  let ?r = "router_start w (id_machine_id (co_identity (dk_core k))) (co_announced_owner (dk_core k)) ptr"
  let ?k = "k\<lparr>dk_process := p', dk_router := Some ?r\<rparr>"
  assume "res = Inr ()"
  then obtain t where r: "r = Inr t" and k': "k' = fold (perform now) (effects ?r) ?k"
    using assms(3) start by (auto simp: sharing_start_def Let_def split: sum.splits option.splits)
  have effects: "effects ?r = [RemoteSink True, NoteOwner (Some (id_machine_id (co_identity (dk_core k))))]"
    by (simp add: router_start_def Let_def)
  have "process_inv (dk_process k')" "cp_thread (dk_process k') \<noteq> None" "\<not> suppressing (cp_state (dk_process k'))"
    using performed(2,4) [of now "effects ?r" ?k] performed(3) [of ?k now "effects ?r"] started r by (simp_all add: k' effects)
  moreover have "dk_router k' = Some ?r" "co_cursor_owner (dk_core k') = shown_owner (effects ?r)"
    using performed(1,5) [of now "effects ?r" ?k] by (simp_all add: k' effects shown_owner_def)
  ultimately show "desk_inv (k'\<lparr>dk_core := request Changed ((dk_core k')\<lparr>co_sharing := True\<rparr>)\<rparr>)"
    using router_start_ok by (simp add: desk_inv_def request_def)
qed

lemma core_keeps_desk_inv:
  "desk_inv k \<Longrightarrow> co_remote_input c = co_remote_input (dk_core k) \<Longrightarrow> co_cursor_owner c = co_cursor_owner (dk_core k) \<Longrightarrow>
     (dk_router k \<noteq> None \<longrightarrow> co_sharing c) \<Longrightarrow> desk_inv (k\<lparr>dk_core := c\<rparr>)"
  by (auto simp: desk_inv_def split: option.splits)

lemma remembered_fields:
  "co_remote_input (remember_sharing H on c) = co_remote_input c" "co_cursor_owner (remember_sharing H on c) = co_cursor_owner c"
  "co_sharing (remember_sharing H on c) = co_sharing c"
  by (simp_all add: remember_sharing_def Let_def)

lemma switch_keeps_inv:
  assumes "desk_inv k"
  shows "desk_inv (fst (switch_sharing H now w hooks bridge ptr enabled k))"
proof -
  let ?k = "k\<lparr>dk_core := remember_sharing H enabled (dk_core k)\<rparr>"
  have inv: "desk_inv ?k"
    using assms by (intro core_keeps_desk_inv) (auto simp: remembered_fields, auto simp: desk_inv_def)
  show ?thesis
  proof (cases "enabled = co_sharing (dk_core ?k)")
    case True
    then show ?thesis using inv by (simp add: switch_sharing_def Let_def)
  next
    case differs: False
    show ?thesis
    proof (cases enabled)
      case True
      then have off: "dk_router ?k = None" using differs inv by (auto simp: desk_inv_def split: option.splits)
      obtain k' res where start: "sharing_start now w hooks bridge ptr ?k = (k', res)" by fastforce
      show ?thesis
        using start_keeps_desk_inv [OF inv off start] start differs True
        by (cases res) (simp_all add: switch_sharing_def Let_def)
    next
      case False
      let ?off = "?k\<lparr>dk_core := (dk_core ?k)\<lparr>co_sharing := False\<rparr>\<rparr>"
      have ended: "desk_inv (sharing_end now ?off)"
      proof (cases "dk_router k")
        case None
        then show ?thesis using inv by (simp add: sharing_end_def desk_inv_def)
      next
        case (Some r)
        have "sharing_end now ?off = (sharing_end now ?k)\<lparr>dk_core := (dk_core (sharing_end now ?k))\<lparr>co_sharing := False\<rparr>\<rparr>"
          using Some by (simp add: sharing_end_def Let_def on_capture_def note_cursor_owner_def set_remote_input_sink_def request_def)
        then show ?thesis using core_keeps_desk_inv [OF end_keeps_inv [OF inv, of now]] end_clears by simp
      qed
      then have "co_cursor_owner (dk_core (sharing_end now ?off)) = None"
        using end_clears by (simp add: desk_inv_def)
      then show ?thesis
        using core_keeps_desk_inv [OF ended] differs False end_clears
        by (simp add: switch_sharing_def Let_def note_cursor_owner_def request_def)
    qed
  qed
qed

lemma hook_called_inv:
  assumes "desk_inv k" and "x \<in> cp_resources (dk_process k)"
    and "\<And>s. running (f s) = running s \<and> sink_open (f s) = sink_open s \<and> (suppressing (f s) \<longrightarrow> suppressing s)"
  shows "desk_inv (on_capture f k)"
proof (rule capture_keeps_inv [OF assms(1) _ assms(3)])
  have "cp_thread (dk_process k) \<noteq> None" using assms(1,2) hook_needs_thread by (auto simp: desk_inv_def)
  then show "dk_router k \<noteq> None" using assms(1) by (auto simp: desk_inv_def split: option.splits)
qed

lemma hooks_only_release:
  "suppressing (fst (mouse_hook now m s)) \<longrightarrow> suppressing s"
  "suppressing (fst (keyboard_hook now held m' s)) \<longrightarrow> suppressing s"
  "suppressing (raw_input_proc message len written raw s) \<longrightarrow> suppressing s"
  by (auto simp: mouse_hook_def keyboard_hook_def raw_input_proc_def raw_input_def report_def suppressing_now_def Let_def
      split: option.splits if_splits)

lemma hooks_release:
  "running (fst (mouse_hook now m s)) = running s \<and> sink_open (fst (mouse_hook now m s)) = sink_open s \<and>
     (suppressing (fst (mouse_hook now m s)) \<longrightarrow> suppressing s)"
  "running (fst (keyboard_hook now held m' s)) = running s \<and> sink_open (fst (keyboard_hook now held m' s)) = sink_open s \<and>
     (suppressing (fst (keyboard_hook now held m' s)) \<longrightarrow> suppressing s)"
  "running (raw_input_proc message len written raw s) = running s \<and>
     sink_open (raw_input_proc message len written raw s) = sink_open s \<and>
     (suppressing (raw_input_proc message len written raw s) \<longrightarrow> suppressing s)"
  by (intro conjI hooks_keep_running hooks_only_release)+

lemma desk_reaches_inv:
  assumes "desk_reaches c k" and "co_remote_input c = None" and "co_cursor_owner c = None"
  shows "desk_inv k"
  using assms(1)
proof induction
  case Quiet
  show ?case
    using assms(2,3) by (simp add: desk_inv_def quiet_desk_def process_inv_def idle_process_def thread_resources_def)
next
  case (Stepped k k')
  from Stepped(2) show ?case
  proof cases
    case (Switched H now w hooks bridge ptr enabled)
    then show ?thesis using switch_keeps_inv [OF Stepped(3)] by simp
  next
    case (Turned now w e)
    then show ?thesis using turn_keeps_inv [OF Stepped(3)] by simp
  next
    case (Broke now)
    then show ?thesis using end_keeps_inv [OF Stepped(3)] by simp
  next
    case (Told i m)
    then show ?thesis using Stepped(3) by (simp add: desk_inv_def core_on_cursor_owner_def)
  next
    case (MouseCalled now m)
    show ?thesis unfolding MouseCalled(1)
      by (rule hook_called_inv [OF Stepped(3) MouseCalled(2)]) (rule hooks_release(1))
  next
    case (KeyCalled now held m)
    show ?thesis unfolding KeyCalled(1)
      by (rule hook_called_inv [OF Stepped(3) KeyCalled(2)]) (rule hooks_release(2))
  next
    case (RawCalled message len written raw)
    show ?thesis unfolding RawCalled(1)
      by (rule hook_called_inv [OF Stepped(3) RawCalled(2)]) (rule hooks_release(3))
  qed
qed

section \<open>Properties\<close>

text \<open>
  C13: Local input is only ever taken away for a machine that has the pointer. In every state sharing
  can reach on a machine, a hook that swallows an event is one of a running capture, sharing is
  on, the router has given the pointer to another machine and the window shows that machine, and the loop
  was alive within the watchdog's limit. When no loop runs nothing is hooked, nothing is
  swallowed, and nothing is left behind of it; and the switch, turned off, stops the loop.
\<close>

theorem input_taken_only_for_remote_owner:
  assumes "desk_reaches c k" and "co_remote_input c = None" and "co_cursor_owner c = None"
  shows "(mouse_hook now m (cp_state (dk_process k)) = (s, Swallow) \<or>
      keyboard_hook now held m' (cp_state (dk_process k)) = (s, Swallow) \<longrightarrow>
      co_sharing (dk_core k) \<and> cp_thread (dk_process k) \<noteq> None \<and>
      u64_saturating_sub now (watchdog (cp_state (dk_process k))) \<le> WATCHDOG_LIMIT_MS \<and>
      (\<exists>r. dk_router k = Some r \<and> owner r \<noteq> local_machine r \<and> co_cursor_owner (dk_core k) = Some (owner r))) \<and>
    (dk_router k = None \<longrightarrow> cp_resources (dk_process k) = {} \<and> \<not> suppressing (cp_state (dk_process k)) \<and>
      co_remote_input (dk_core k) = None \<and> co_cursor_owner (dk_core k) = None) \<and>
    (co_sharing (dk_core k) \<longrightarrow> dk_router (fst (switch_sharing H now w hooks bridge ptr False k)) = None)"
proof -
  have inv: "desk_inv k" by (rule desk_reaches_inv [OF assms])
  have swallowed: "co_sharing (dk_core k) \<and> cp_thread (dk_process k) \<noteq> None \<and>
      u64_saturating_sub now (watchdog (cp_state (dk_process k))) \<le> WATCHDOG_LIMIT_MS \<and>
      (\<exists>r. dk_router k = Some r \<and> owner r \<noteq> local_machine r \<and> co_cursor_owner (dk_core k) = Some (owner r))"
    if "may_swallow now (cp_state (dk_process k))"
    using that inv
    by (auto simp: may_swallow_def desk_inv_def process_inv_def router_ok_def split: option.splits)
  have off: "dk_router k = None \<longrightarrow> cp_resources (dk_process k) = {} \<and> \<not> suppressing (cp_state (dk_process k)) \<and>
      co_remote_input (dk_core k) = None \<and> co_cursor_owner (dk_core k) = None"
    using inv by (auto simp: desk_inv_def process_inv_def thread_resources_def)
  have "co_sharing (dk_core k) \<longrightarrow> dk_router (fst (switch_sharing H now w hooks bridge ptr False k)) = None"
    by (simp add: switch_sharing_def Let_def remembered_fields end_clears)
  then show ?thesis using swallowed off mouse_verdict key_verdict by blast
qed

text \<open>
  The switch of \<open>Agent\<close> is what the rest of the agent sees of this one: with the answer that starting
  gives here, both answer the same, write the same to the disk and leave the same state, apart from
  what only sharing itself uses.
\<close>

definition apart_from_sharing :: "core \<Rightarrow> core" where
  "apart_from_sharing c = c\<lparr>co_remote_input := None, co_cursor_owner := None, co_requests := []\<rparr>"

lemma apart_simps:
  "apart_from_sharing (request q c) = apart_from_sharing c"
  "apart_from_sharing (note_cursor_owner m c) = apart_from_sharing c"
  "apart_from_sharing (set_remote_input_sink b c) = apart_from_sharing c"
  "apart_from_sharing (c\<lparr>co_sharing := b\<rparr>) = (apart_from_sharing c)\<lparr>co_sharing := b\<rparr>"
  by (simp_all add: apart_from_sharing_def request_def note_cursor_owner_def set_remote_input_sink_def)

lemma apart_perform: "apart_from_sharing (dk_core (perform now e k)) = apart_from_sharing (dk_core k)"
  by (cases e) (simp_all add: apart_simps on_capture_def)

lemma apart_performed: "apart_from_sharing (dk_core (fold (perform now) es k)) = apart_from_sharing (dk_core k)"
  by (induction es arbitrary: k) (simp_all add: apart_perform)

lemma apart_started: "apart_from_sharing (dk_core (fst (sharing_start now w hooks bridge ptr k))) = apart_from_sharing (dk_core k)"
  by (simp add: sharing_start_def Let_def apart_performed split: prod.split sum.split option.split)

lemma apart_ended: "apart_from_sharing (dk_core (sharing_end now k)) = apart_from_sharing (dk_core k)"
  by (simp add: sharing_end_def Let_def apart_simps on_capture_def split: option.split)

theorem switch_refines_agent:
  assumes "switch_sharing H now w hooks bridge ptr enabled k = (k', r)"
    and "started = snd (sharing_start now w hooks bridge ptr (k\<lparr>dk_core := remember_sharing H enabled (dk_core k)\<rparr>))"
  shows "r = snd (set_sharing H enabled started (dk_core k)) \<and>
    apart_from_sharing (dk_core k') = apart_from_sharing (fst (set_sharing H enabled started (dk_core k)))"
proof -
  let ?k = "k\<lparr>dk_core := remember_sharing H enabled (dk_core k)\<rparr>"
  obtain k1 r1 where start: "sharing_start now w hooks bridge ptr ?k = (k1, r1)" by fastforce
  note core = apart_started [of now w hooks bridge ptr ?k] apart_ended [of now "?k\<lparr>dk_core := (dk_core ?k)\<lparr>co_sharing := False\<rparr>\<rparr>"]
  show ?thesis
    using assms core start by (cases r1) (auto simp: switch_sharing_def set_sharing_def Let_def apart_simps split: if_splits)
qed

definition sample_sharing :: desk where
  "sample_sharing = fst (switch_sharing (sample_host 1) 10000 sample_world (Inr granted) None (Some (1910, 500)) True
     (quiet_desk (sample_core 1 sample_doc)))"

definition sample_crossed :: desk where
  "sample_crossed = loop_turn 10500 sample_world (LocalInput (MouseMove 30 0)) sample_sharing"

lemma sample_crossed_swallows:
  "snd (mouse_hook 11000 sample_click (cp_state (dk_process sample_crossed))) = Swallow"
  "map_option owner (dk_router sample_crossed) = Some 2"
  by code_simp+

theorem input_taken_only_for_remote_owner_witness:
  "co_sharing (dk_core sample_crossed) \<and> co_cursor_owner (dk_core sample_crossed) = Some 2 \<and>
   dk_router (fst (switch_sharing (sample_host 1) 11000 sample_world (Inr granted) None None False sample_crossed)) = None"
proof -
  have reached: "desk_reaches (sample_core 1 sample_doc) sample_crossed"
    unfolding sample_crossed_def sample_sharing_def
    by (rule Stepped [OF Stepped [OF Quiet Switched] Turned])
  have quiet: "co_remote_input (sample_core 1 sample_doc) = None" "co_cursor_owner (sample_core 1 sample_doc) = None"
    by (simp_all add: sample_core_def)
  obtain s where "mouse_hook 11000 sample_click (cp_state (dk_process sample_crossed)) = (s, Swallow)"
    using sample_crossed_swallows(1) by (metis prod.collapse)
  then show ?thesis
    using input_taken_only_for_remote_owner [OF reached quiet, of 11000 sample_click s undefined undefined
        "sample_host 1" sample_world "Inr granted" None None] sample_crossed_swallows(2)
    by auto
qed

lemma waiting_for_owner:
  assumes "owner r = there" and "there \<noteq> local_machine r" and "swallowing r" and "announced_owner r = None"
    and "\<forall>(w, e) \<in> set tr. there \<in> w_online w \<and> (\<forall>es. e \<noteq> RemoteBatch es) \<and> (\<forall>m. e \<noteq> Announced m)"
  shows "swallowing (router_run tr r) \<and> owner (router_run tr r) = there"
  using assms
proof (induction tr arbitrary: r)
  case (Cons step tr)
  obtain w e where step: "step = (w, e)" by fastforce
  have "swallowing (router_step w e r) \<and> owner (router_step w e r) = there \<and> local_machine (router_step w e r) = local_machine r \<and>
      announced_owner (router_step w e r) = None"
    using Cons.prems step
    by (cases e) (auto simp: owner_is_reachable_def apply_announcement_def handle_def split: input_event.split)
  then show ?case using Cons.IH [of "router_step w e r"] Cons.prems by (simp add: step)
qed simp

text \<open>
  Sharing turned off on the machine that holds the pointer. It tells nobody, and a machine that has given
  it the pointer goes on swallowing its own input through every heartbeat, for the other is
  still connected.
\<close>

theorem stopped_owner_keeps_others_deaf:
  assumes "owner r = there" and "there \<noteq> local_machine r" and "swallowing r" and "announced_owner r = None"
    and "\<forall>(w, e) \<in> set tr. there \<in> w_online w \<and> (\<forall>es. e \<noteq> RemoteBatch es) \<and> (\<forall>m. e \<noteq> Announced m)"
  shows "swallowing (router_run tr r) \<and> owner (router_run tr r) = there \<and>
    (\<forall>q. \<forall>x \<in> set (drop (length (effects q)) (effects (router_stop q))). \<forall>m. x \<noteq> AnnounceOwner m)"
  using waiting_for_owner [OF assms] by (simp add: router_stop_def)

end
