(* ===== verification/Desktop.thy ===== *)
theory Desktop
  imports Agent Discovery "HOL-Library.Multiset"
begin

text \<open>
  The desktop application (\<^verbatim>\<open>crates/is-ui/src/main.rs\<close>, and the agent's snapshot \<^verbatim>\<open>View\<close> from
  \<^verbatim>\<open>crates/is-agent/src/lib.rs\<close>): what the window shows of the agent's state, and the commands it
  gives the agent.

  Every command answers the view of the state it leaves, or an error; here it is the new state
  and the error, and \<open>desktop_view\<close> is that view. Identifiers and addresses are shown as texts;
  the model keeps the values. Reading an identifier is the crate \<^verbatim>\<open>uuid\<close>, an argument
  \<open>parse_uuid\<close>; reading a typed-in address is in \<open>Address\<close>. Registering the program to start at
  login is the system's: the record \<open>login\<close> has its answers, and what was asked is recorded.
\<close>

section \<open>The agent's snapshot\<close>

record agent_view =
  av_identity :: identity
  av_doc :: "workspace_doc option"
  av_online :: "machine_id set"
  av_candidates :: "found_machine list"
  av_awaiting_join :: "machine_id list"
  av_manual_peers :: "socket_addr list"
  av_cursor_owner :: "machine_id option"
  av_config_dir :: string
  av_transport_port :: "u16 option"

definition agent_view :: "host \<Rightarrow> u16 option \<Rightarrow> core \<Rightarrow> agent_view" where
  "agent_view H port c = \<lparr>av_identity = co_identity c, av_doc = co_doc c, av_online = co_online c,
     av_candidates = bt_values (co_candidates c), av_awaiting_join = bt_keys (co_pending_trust c),
     av_manual_peers = co_manual_peers c, av_cursor_owner = co_cursor_owner c,
     av_config_dir = store_dir (h_store H), av_transport_port = port\<rparr>"

section \<open>What the window shows\<close>

record ui_candidate =
  uc_machine_id :: machine_id
  uc_display_name :: string
  uc_fingerprint :: string
  uc_addr :: socket_addr
  uc_seconds_since_seen :: u64
  uc_has_workspace :: bool
  uc_invited_us :: bool

record ui_interface =
  ui_if_name :: string
  ui_if_address :: ipv4
  ui_if_self_assigned :: bool

record ui_settings =
  us_clipboard_sync :: bool
  us_offline_edge :: string
  us_discovery_port :: u16
  us_transport_port :: u16
  us_autostart :: bool

record ui_screen =
  sc_name :: string
  sc_x :: i32
  sc_y :: i32
  sc_width :: u32
  sc_height :: u32
  sc_primary :: bool

record ui_machine =
  um_id :: machine_id
  um_name :: string
  um_platform :: string
  um_fingerprint :: string
  um_x :: i32
  um_y :: i32
  um_width :: u32
  um_height :: u32
  um_keyboard :: bool
  um_mouse :: bool
  um_online :: bool
  um_is_local :: bool
  um_known_displays :: bool
  um_screens :: "ui_screen list"

record ui_workspace =
  uw_id :: workspace_id
  uw_name :: string
  uw_revision :: u64
  uw_settings :: ui_settings
  uw_machines :: "ui_machine list"
  uw_cursor_owner :: "string option"

record ui_state =
  ui_machine_id :: machine_id
  ui_fingerprint :: string
  ui_config_dir :: string
  ui_transport_port :: "u16 option"
  ui_autostart :: bool
  ui_sharing :: bool
  ui_computer_name :: string
  ui_discovery_port :: u16
  ui_interfaces :: "ui_interface list"
  ui_manual_peers :: "socket_addr list"
  ui_candidates :: "ui_candidate list"
  ui_awaiting_join :: "machine_id list"
  ui_workspace :: "ui_workspace option"

fun platform_label :: "platform \<Rightarrow> string" where
  "platform_label Windows = ''Windows''"
| "platform_label MacOs = ''macOS''"
| "platform_label Linux = ''Linux''"
| "platform_label OtherPlatform = ''Unknown''"

definition show_machine :: "crypto \<Rightarrow> machine_id \<Rightarrow> machine_id set \<Rightarrow> machine_record \<Rightarrow> ui_machine" where
  "show_machine C self online m =
     \<lparr>um_id = mr_id m, um_name = mr_display_name m, um_platform = platform_label (mr_platform m),
      um_fingerprint = fingerprint C (mr_public_key m),
      um_x = (case bounds m of Some b \<Rightarrow> rx b | None \<Rightarrow> px (mr_position m)),
      um_y = (case bounds m of Some b \<Rightarrow> ry b | None \<Rightarrow> py (mr_position m)),
      um_width = (case bounds m of Some b \<Rightarrow> rwidth b | None \<Rightarrow> 0),
      um_height = (case bounds m of Some b \<Rightarrow> rheight b | None \<Rightarrow> 0),
      um_keyboard = provides_keyboard (mr_input m), um_mouse = provides_mouse (mr_input m),
      um_online = (mr_id m \<in> online \<or> mr_id m = self), um_is_local = (mr_id m = self),
      um_known_displays = (mr_displays m \<noteq> []),
      um_screens = map (\<lambda>d. \<lparr>sc_name = di_name d, sc_x = di_x d + px (mr_position m),
          sc_y = di_y d + py (mr_position m), sc_width = di_width d, sc_height = di_height d,
          sc_primary = di_primary d\<rparr>) (mr_displays m)\<rparr>"

fun edge_label :: "offline_edge_behavior \<Rightarrow> string" where
  "edge_label Block = ''block''"
| "edge_label SkipOver = ''skip_over''"

definition show_settings :: "workspace_settings \<Rightarrow> ui_settings" where
  "show_settings s = \<lparr>us_clipboard_sync = clipboard_sync s, us_offline_edge = edge_label (offline_edge s),
     us_discovery_port = discovery_port s, us_transport_port = transport_port s, us_autostart = autostart s\<rparr>"

definition show_workspace :: "crypto \<Rightarrow> agent_view \<Rightarrow> workspace_doc \<Rightarrow> ui_workspace" where
  "show_workspace C v doc =
     (let self = id_machine_id (av_identity v);
          owner = (case av_cursor_owner v of
              Some i \<Rightarrow> Some i
            | None \<Rightarrow> fallback_owner doc (insert self (av_online v)) self)
      in \<lparr>uw_id = doc_workspace_id doc, uw_name = lww_value (doc_name doc), uw_revision = doc_lamport doc,
          uw_settings = show_settings (lww_value (settings doc)),
          uw_machines = sort_key (\<lambda>m. (sint (um_y m), sint (um_x m)))
            (map (show_machine C self (av_online v)) (machines_present doc)),
          uw_cursor_owner = map_option mr_display_name (Option.bind owner (\<lambda>i. machine i doc))\<rparr>)"

definition desktop_view :: "host \<Rightarrow> u16 option \<Rightarrow> bool \<Rightarrow> interface list \<Rightarrow> core \<Rightarrow> ui_state" where
  "desktop_view H port starts_at_login cards c =
     (let v = agent_view H port c; C = h_crypto H in
      \<lparr>ui_machine_id = id_machine_id (av_identity v), ui_fingerprint = fingerprint C (public_key C (av_identity v)),
       ui_config_dir = av_config_dir v, ui_transport_port = av_transport_port v, ui_autostart = starts_at_login,
       ui_sharing = co_sharing c, ui_computer_name = computer_name H, ui_discovery_port = agent_discovery_port c,
       ui_interfaces = map (\<lambda>i. \<lparr>ui_if_name = if_name i, ui_if_address = if_address i,
           ui_if_self_assigned = if_self_assigned i\<rparr>) cards,
       ui_manual_peers = av_manual_peers v,
       ui_candidates = map (\<lambda>f. \<lparr>uc_machine_id = fm_machine_id f, uc_display_name = fm_display_name f,
           uc_fingerprint = fingerprint C (fm_identity_key f), uc_addr = fm_addr f,
           uc_seconds_since_seen = u64_saturating_sub (h_now H) (fm_last_seen_ms f) div 1000,
           uc_has_workspace = fm_has_workspace f, uc_invited_us = fm_invited_us f\<rparr>) (av_candidates v),
       ui_awaiting_join = av_awaiting_join v,
       ui_workspace = map_option (show_workspace C v) (av_doc v)\<rparr>)"

section \<open>Commands\<close>

datatype desktop_error =
    NotAnId string
  | NoSuchMachine
  | UnknownEdge string
  | LoginFailed string
  | EmptyName
  | EmptyAddress
  | NotAnAddress string
  | NoWorkspaceYet
  | Failed agent_error
  | StoreFailed core_error

record login =
  lg_executable :: "string + string"
  lg_set :: "bool \<Rightarrow> string \<Rightarrow> string option"

definition from_agent :: "core \<times> (agent_error + 'a) \<Rightarrow> core \<times> (desktop_error + unit)" where
  "from_agent r = (case r of (c, Inl e) \<Rightarrow> (c, Inl (Failed e)) | (c, Inr _) \<Rightarrow> (c, Inr ()))"

definition with_id ::
  "(string \<Rightarrow> machine_id option) \<Rightarrow> string \<Rightarrow> (machine_id \<Rightarrow> core \<Rightarrow> core \<times> (desktop_error + unit))
     \<Rightarrow> core \<Rightarrow> core \<times> (desktop_error + unit)" where
  "with_id parse_uuid text f c =
     (case parse_uuid text of None \<Rightarrow> (c, Inl (NotAnId text)) | Some i \<Rightarrow> f i c)"

definition edit_machine ::
  "host \<Rightarrow> (string \<Rightarrow> machine_id option) \<Rightarrow> string \<Rightarrow> (machine_record \<Rightarrow> machine_record)
     \<Rightarrow> core \<Rightarrow> core \<times> (desktop_error + unit)" where
  "edit_machine H parse_uuid text edit =
     with_id parse_uuid text (\<lambda>i c.
       case Option.bind (co_doc c) (machine i) of
         None \<Rightarrow> (c, Inl NoSuchMachine)
       | Some r \<Rightarrow> from_agent (agent_upsert_machine H (edit r) c))"

definition ui_pair :: "host \<Rightarrow> (string \<Rightarrow> machine_id option) \<Rightarrow> string \<Rightarrow> core \<Rightarrow> core \<times> (desktop_error + unit)" where
  "ui_pair H parse_uuid text = with_id parse_uuid text (\<lambda>i c. from_agent (pair H i c))"

definition ui_unpair :: "host \<Rightarrow> (string \<Rightarrow> machine_id option) \<Rightarrow> string \<Rightarrow> core \<Rightarrow> core \<times> (desktop_error + unit)" where
  "ui_unpair H parse_uuid text = with_id parse_uuid text (\<lambda>i c. from_agent (unpair H i c))"

definition moved_to :: "i32 \<Rightarrow> i32 \<Rightarrow> machine_record \<Rightarrow> machine_record" where
  "moved_to x y r =
     (let offset = (case bounds r of
            Some b \<Rightarrow> point_new (rx b - px (mr_position r)) (ry b - py (mr_position r))
          | None \<Rightarrow> point_new 0 0)
      in r\<lparr>mr_position := point_new (x - px offset) (y - py offset)\<rparr>)"

definition move_machine ::
  "host \<Rightarrow> (string \<Rightarrow> machine_id option) \<Rightarrow> string \<Rightarrow> i32 \<Rightarrow> i32 \<Rightarrow> core \<Rightarrow> core \<times> (desktop_error + unit)" where
  "move_machine H parse_uuid text x y = edit_machine H parse_uuid text (moved_to x y)"

definition rename_machine ::
  "host \<Rightarrow> (string \<Rightarrow> machine_id option) \<Rightarrow> string \<Rightarrow> string \<Rightarrow> core \<Rightarrow> core \<times> (desktop_error + unit)" where
  "rename_machine H parse_uuid text name = edit_machine H parse_uuid text (\<lambda>r. r\<lparr>mr_display_name := name\<rparr>)"

definition set_input ::
  "host \<Rightarrow> (string \<Rightarrow> machine_id option) \<Rightarrow> string \<Rightarrow> bool \<Rightarrow> bool \<Rightarrow> core \<Rightarrow> core \<times> (desktop_error + unit)" where
  "set_input H parse_uuid text keyboard mouse = edit_machine H parse_uuid text
     (\<lambda>r. r\<lparr>mr_input := \<lparr>provides_keyboard = keyboard, provides_mouse = mouse\<rparr>\<rparr>)"

definition ui_rename_workspace :: "host \<Rightarrow> string \<Rightarrow> core \<Rightarrow> core \<times> (desktop_error + unit)" where
  "ui_rename_workspace H name c = from_agent (rename_workspace H name c)"

definition ui_rename_this_machine :: "host \<Rightarrow> string \<Rightarrow> core \<Rightarrow> core \<times> (desktop_error + unit)" where
  "ui_rename_this_machine H name c =
     (if trim name = [] then (c, Inl EmptyName) else from_agent (rename_this_machine H (trim name) c))"

text \<open>The setting is written first; then the program is registered with the system.\<close>

definition ui_update_settings ::
  "host \<Rightarrow> login \<Rightarrow> ui_settings \<Rightarrow> core \<Rightarrow> core \<times> (bool \<times> string) list \<times> (desktop_error + unit)" where
  "ui_update_settings H L s c =
     (case (if us_offline_edge s = ''skip_over'' then Some SkipOver
            else if us_offline_edge s = ''block'' then Some Block else None) of
        None \<Rightarrow> (c, [], Inl (UnknownEdge (us_offline_edge s)))
      | Some edge \<Rightarrow>
          let preferred = (case co_doc c of Some d \<Rightarrow> preferred_interfaces (lww_value (settings d)) | None \<Rightarrow> []) in
          (case update_settings H \<lparr>clipboard_sync = us_clipboard_sync s, offline_edge = edge,
               discovery_port = us_discovery_port s, transport_port = us_transport_port s,
               preferred_interfaces = preferred, autostart = us_autostart s\<rparr> c of
             (c, Inl e) \<Rightarrow> (c, [], Inl (Failed e))
           | (c, Inr _) \<Rightarrow>
               (case lg_executable L of
                  Inl e \<Rightarrow> (c, [], Inl (LoginFailed e))
                | Inr exe \<Rightarrow>
                    (c, [(us_autostart s, exe)],
                     case lg_set L (us_autostart s) exe of Some e \<Rightarrow> Inl (LoginFailed e) | None \<Rightarrow> Inr ()))))"

definition ui_set_sharing :: "host \<Rightarrow> bool \<Rightarrow> agent_error + unit \<Rightarrow> core \<Rightarrow> core \<times> (desktop_error + unit)" where
  "ui_set_sharing H enabled started c = from_agent (set_sharing H enabled started c)"

definition ui_rescan :: "host \<Rightarrow> core \<Rightarrow> core \<times> (desktop_error + unit)" where
  "ui_rescan H c = (agent_rescan H c, Inr ())"

definition refresh_displays :: "host \<Rightarrow> core \<Rightarrow> core \<times> (desktop_error + unit)" where
  "refresh_displays H c = from_agent (publish_local_facts H c)"

definition ui_export_backup :: "host \<Rightarrow> string \<Rightarrow> core \<Rightarrow> core \<times> (desktop_error + unit)" where
  "ui_export_backup H path c =
     (case store_at (h_fault H) (store_dir (h_store H)) of
        Inl e \<Rightarrow> (c, Inl (StoreFailed e))
      | Inr st \<Rightarrow>
          (case export_backup (h_fault H) (h_identity_codec H) (h_doc_codec H) (h_backup_codec H)
              (h_new_identity H) st path (co_disk c) of
             (d, Inl e) \<Rightarrow> (c\<lparr>co_disk := d\<rparr>, Inl (StoreFailed e))
           | (d, Inr _) \<Rightarrow> (c\<lparr>co_disk := d\<rparr>, Inr ())))"

definition em_dash :: string where "em_dash = map char_of [0xE2 :: nat, 0x80, 0x94]"

record route_result =
  rr_outcome :: string
  rr_machine :: "string option"
  rr_x :: i32
  rr_y :: i32
  rr_explanation :: string

definition resolve_route ::
  "(string \<Rightarrow> machine_id option) \<Rightarrow> string \<Rightarrow> i32 \<Rightarrow> i32 \<Rightarrow> core \<Rightarrow> desktop_error + route_result" where
  "resolve_route parse_uuid text x y c =
     (case co_doc c of
        None \<Rightarrow> Inl NoWorkspaceYet
      | Some doc \<Rightarrow>
          (case parse_uuid text of
             None \<Rightarrow> Inl (NotAnId text)
           | Some origin \<Rightarrow>
               let online = insert (id_machine_id (co_identity c)) (co_online c); target = point_new x y in
               Inr (case resolve_cursor doc online origin target of
                   Stay p \<Rightarrow>
                     let left_the_machine = \<not> (case Option.bind (machine origin doc) bounds of
                           Some b \<Rightarrow> contains b target | None \<Rightarrow> False)
                     in \<lparr>rr_outcome = (if left_the_machine then ''blocked'' else ''same''),
                         rr_machine = map_option mr_display_name (machine origin doc), rr_x = px p, rr_y = py p,
                         rr_explanation = (if left_the_machine then ''held at the boundary '' @ em_dash @ '' nothing online over there''
                           else ''still on the same machine'')\<rparr>
                 | Move i p \<Rightarrow>
                     \<lparr>rr_outcome = ''handoff'', rr_machine = map_option mr_display_name (machine i doc),
                      rr_x = px p, rr_y = py p, rr_explanation = ''crosses over''\<rparr>)))"

section \<open>Moving a machine\<close>

text \<open>Coordinates within \<open>2 ^ 28\<close> of the origin, so that a machine can be placed anywhere among them.\<close>

definition near :: "rect \<Rightarrow> bool" where
  "near r \<longleftrightarrow> - 268435456 \<le> sint (rx r) \<and> - 268435456 \<le> sint (ry r) \<and>
     0 \<le> sint (rwidth r) \<and> 0 \<le> sint (rheight r) \<and>
     sint (rx r) + sint (rwidth r) \<le> 268435455 \<and> sint (ry r) + sint (rheight r) \<le> 268435455"

definition within :: "int \<Rightarrow> point \<Rightarrow> bool" where
  "within n p \<longleftrightarrow> - n \<le> sint (px p) \<and> sint (px p) \<le> n \<and> - n \<le> sint (py p) \<and> sint (py p) \<le> n"

lemma near_in_desk: "near r \<Longrightarrow> in_desk r"
  by (simp add: near_def in_desk_def)

lemma near_edges: "near r \<longleftrightarrow> in_desk r \<and> - 268435456 \<le> sint (rx r) \<and> - 268435456 \<le> sint (ry r) \<and>
    sint (max_x r) \<le> 268435455 \<and> sint (max_y r) \<le> 268435455"
  by (auto simp: near_in_desk desk_edges) (auto simp: near_def in_desk_def desk_edges)

lemma near_union: "near r \<Longrightarrow> near s \<Longrightarrow> near (rect_union r s)"
  by (auto simp: near_edges union_in_desk union_edges union_simps)

lemma sint_translate:
  assumes "near r" and "within 536870912 p"
  shows "sint (rx (translate r p)) = sint (rx r) + sint (px p)"
    and "sint (ry (translate r p)) = sint (ry r) + sint (py p)"
    and "rwidth (translate r p) = rwidth r" and "rheight (translate r p) = rheight r"
  using assms by (simp_all add: translate_def near_def within_def i32_simps)

lemma translate_in_desk: "near r \<Longrightarrow> within 536870912 p \<Longrightarrow> in_desk (translate r p)"
  using sint_translate [of r p] by (simp add: in_desk_def) (simp add: near_def within_def)

lemma rect_eqI:
  "sint (rx r) = sint (rx s) \<Longrightarrow> sint (ry r) = sint (ry s) \<Longrightarrow> sint (rwidth r) = sint (rwidth s) \<Longrightarrow>
     sint (rheight r) = sint (rheight s) \<Longrightarrow> (r :: rect) = s"
  by (simp add: i32_eqI)

lemma translate_union:
  assumes "near r" and "near s" and "within 536870912 p"
  shows "rect_union (translate r p) (translate s p) = translate (rect_union r s) p"
proof -
  note d = translate_in_desk [OF assms(1,3)] translate_in_desk [OF assms(2,3)]
  note n = near_in_desk [OF assms(1)] near_in_desk [OF assms(2)]
  note t = sint_translate [OF assms(1,3)] sint_translate [OF assms(2,3)] sint_translate [OF near_union [OF assms(1,2)] assms(3)]
  show ?thesis
    by (rule rect_eqI) (simp_all add: t union_simps union_size [OF d] union_size [OF n] desk_edges d n)
qed

lemma translate_unions:
  "near a \<Longrightarrow> \<forall>r \<in> set rs. near r \<Longrightarrow> within 536870912 p \<Longrightarrow>
     foldl rect_union (translate a p) (map (\<lambda>r. translate r p) rs) = translate (foldl rect_union a rs) p \<and>
     near (foldl rect_union a rs)"
  by (induction rs arbitrary: a) (simp_all add: translate_union near_union)

lemma bounds_at:
  assumes "mr_displays r \<noteq> []" and "\<forall>d \<in> set (mr_displays r). near (display_rect d)"
  obtains u where "near u" and "\<And>p. within 536870912 p \<Longrightarrow> bounds (r\<lparr>mr_position := p\<rparr>) = Some (translate u p)"
proof -
  obtain d ds where D: "mr_displays r = d # ds" using assms(1) by (cases "mr_displays r") auto
  let ?u = "foldl rect_union (display_rect d) (map display_rect ds)"
  have all: "near (display_rect d)" "\<forall>q \<in> set (map display_rect ds). near q" using assms(2) D by auto
  have "within 536870912 (point_new 0 0)" by (simp add: within_def)
  from translate_unions [OF all this] have "near ?u" by simp
  moreover have "bounds (r\<lparr>mr_position := p\<rparr>) = Some (translate ?u p)" if "within 536870912 p" for p
    using translate_unions [OF all that] by (simp add: bounds_def placed_displays_def D comp_def)
  ultimately show ?thesis using that by blast
qed

lemma moved_bounds:
  assumes "mr_displays r \<noteq> []" and "\<forall>d \<in> set (mr_displays r). near (display_rect d)"
    and "within 268435456 (mr_position r)" and "within 268435456 (point_new x y)"
  shows "\<exists>b b'. bounds r = Some b \<and> bounds (moved_to x y r) = Some b' \<and> rx b' = x \<and> ry b' = y \<and>
    rwidth b' = rwidth b \<and> rheight b' = rheight b"
proof -
  obtain u where u: "near u" and b: "\<And>p. within 536870912 p \<Longrightarrow> bounds (r\<lparr>mr_position := p\<rparr>) = Some (translate u p)"
    using bounds_at [OF assms(1,2)] by blast
  let ?p = "mr_position r" and ?p' = "point_new (x - rx u) (y - ry u)"
  have in_p: "within 536870912 ?p" using assms(3) by (simp add: within_def)
  note t = sint_translate [OF u in_p]
  have b0: "bounds r = Some (translate u ?p)" using b [OF in_p] by simp
  have off: "rx (translate u ?p) - px ?p = rx u" "ry (translate u ?p) - py ?p = ry u"
    using t(1,2) u in_p by (auto intro!: i32_eqI simp: sint_sub_exact near_def within_def)
  then have m: "moved_to x y r = r\<lparr>mr_position := ?p'\<rparr>" by (simp add: moved_to_def b0)
  have p': "sint (px ?p') = sint x - sint (rx u)" "sint (py ?p') = sint y - sint (ry u)"
    using u assms(4) by (simp_all add: sint_sub_exact near_def within_def)
  then have in_p': "within 536870912 ?p'" using u assms(4) by (simp add: within_def near_def)
  note t' = sint_translate [OF u in_p']
  have "rx (translate u ?p') = x" "ry (translate u ?p') = y"
    using t'(1,2) p' by (auto intro: i32_eqI)
  then show ?thesis using b0 m b [OF in_p'] t(3,4) t'(3,4) by simp
qed

section \<open>The sharing switch on disk\<close>

text \<open>The preferences file and its recovery copy.\<close>

definition prefs_files :: "store \<Rightarrow> string set" where
  "prefs_files st = {file_path st PREFS_FILE, file_path st (PREFS_FILE @ ''.bak'')}"

definition same_prefs :: "store \<Rightarrow> disk \<Rightarrow> disk \<Rightarrow> bool" where
  "same_prefs st d d' \<longleftrightarrow> (\<forall>p \<in> prefs_files st. d' p = d p)"

lemma same_prefs_trans: "same_prefs st d d' \<Longrightarrow> same_prefs st d' d'' \<Longrightarrow> same_prefs st d d''"
  by (simp add: same_prefs_def)

lemma same_prefs_refl [simp]: "same_prefs st d d"
  by (simp add: same_prefs_def)

lemma same_prefs_load: "same_prefs st d d' \<Longrightarrow> load_prefs F cd st d' = load_prefs F cd st d"
proof -
  have "d' p = d p \<Longrightarrow> read_json F cd p d' = read_json F cd p d" for p by (simp add: read_json_def)
  then show "same_prefs st d d' \<Longrightarrow> ?thesis"
    by (simp add: same_prefs_def prefs_files_def load_prefs_def read_with_fallback_def cong: sum.case_cong)
qed

lemma prefs_other_names [simp]:
  "PREFS_FILE @ x \<noteq> IDENTITY_FILE @ y" "PREFS_FILE @ x \<noteq> WORKSPACE_FILE @ y"
  by (simp_all add: PREFS_FILE_def IDENTITY_FILE_def WORKSPACE_FILE_def)

lemma prefs_not_these [simp]:
  "PREFS_FILE \<notin> {IDENTITY_FILE, IDENTITY_FILE @ ''.tmp'', IDENTITY_FILE @ ''.bak''}"
  "PREFS_FILE @ ''.bak'' \<notin> {IDENTITY_FILE, IDENTITY_FILE @ ''.tmp'', IDENTITY_FILE @ ''.bak''}"
  "PREFS_FILE \<notin> {WORKSPACE_FILE, WORKSPACE_FILE @ ''.tmp'', WORKSPACE_FILE @ ''.bak''}"
  "PREFS_FILE @ ''.bak'' \<notin> {WORKSPACE_FILE, WORKSPACE_FILE @ ''.tmp'', WORKSPACE_FILE @ ''.bak''}"
  by (simp_all add: PREFS_FILE_def IDENTITY_FILE_def WORKSPACE_FILE_def)

lemma write_keeps_prefs:
  assumes "write_atomic F cd st name v d = (d', r)" and "name = IDENTITY_FILE \<or> name = WORKSPACE_FILE"
  shows "same_prefs st d d'"
  using assms(2) other_file [OF assms(1), of PREFS_FILE] other_file [OF assms(1), of "PREFS_FILE @ ''.bak''"]
    prefs_not_these by (auto simp: same_prefs_def prefs_files_def simp del: prefs_not_these)

lemma identity_keeps_prefs:
  assumes "load_or_create_identity F ci new st d = (d', r)"
  shows "same_prefs st d d'"
proof -
  obtain d1 q where w: "write_atomic F ci st IDENTITY_FILE new d = (d1, q)" by fastforce
  have "d' = d \<or> d' = d1"
    using assms w by (auto simp: load_or_create_identity_def fs_bind_def fs_return_def split: sum.splits option.splits)
  then show ?thesis using write_keeps_prefs [OF w] by auto
qed

lemma persist_keeps_prefs: "same_prefs (h_store H) (co_disk c) (co_disk (persist H c))"
proof (cases "co_doc c")
  case (Some d)
  obtain d' r where "write_atomic (h_fault H) (h_doc_codec H) (h_store H) WORKSPACE_FILE d (co_disk c) = (d', r)"
    by fastforce
  with write_keeps_prefs [OF this] Some show ?thesis by (simp add: persist_def save_workspace_def)
qed (simp add: persist_def)

lemma load_keeps_prefs: "agent_load H d = (d', r) \<Longrightarrow> same_prefs (h_store H) d d'"
proof -
  assume load: "agent_load H d = (d', r)"
  obtain d1 q where id: "load_or_create_identity (h_fault H) (h_identity_codec H) (h_new_identity H) (h_store H) d = (d1, q)"
    by fastforce
  have "d' = d1 \<or> (\<exists>doc q. write_atomic (h_fault H) (h_doc_codec H) (h_store H) WORKSPACE_FILE doc d1 = (d', q))"
    using load id by (auto simp: agent_load_def Let_def save_workspace_def
        split: sum.splits option.splits prod.splits)
  then have "same_prefs (h_store H) d1 d'" by (auto dest: write_keeps_prefs)
  with identity_keeps_prefs [OF id] show ?thesis by (rule same_prefs_trans)
qed

text \<open>Every command but the switch itself leaves the preferences alone.\<close>

lemma mutate_keeps_prefs: "same_prefs (h_store H) (co_disk c) (co_disk (fst (mutate H change c)))"
proof (cases "co_doc c")
  case (Some d)
  obtain d' u where "change (id_machine_id (co_identity c)) d = (d', u)" by fastforce
  then show ?thesis
    using Some persist_keeps_prefs [of H "c\<lparr>co_doc := Some d'\<rparr>"] by (simp add: mutate_def Let_def)
qed (simp add: mutate_def)

lemma fs_one_path:
  "fst (fs_bind (fs_create F path) (\<lambda>_. fs_write_all F path bs) d) p = (if p = path then
     fst (fs_bind (fs_create F path) (\<lambda>_. fs_write_all F path bs) d) path else d p)"
  by (auto simp: fs_defs split: option.splits)

lemma export_keeps_prefs:
  assumes "path \<notin> prefs_files st"
  shows "same_prefs st d (fst (export_backup F ci cw cb new st path d))"
proof -
  obtain d1 r where id: "load_or_create_identity F ci new st d = (d1, r)" by fastforce
  have "fst (export_backup F ci cw cb new st path d) = d1 \<or>
      (\<exists>bs. fst (export_backup F ci cw cb new st path d) = fst (fs_bind (fs_create F path) (\<lambda>_. fs_write_all F path bs) d1))"
  proof (cases r)
    case (Inl e)
    then show ?thesis by (simp add: export_backup_def fs_bind_def [of "load_or_create_identity F ci new st"] id)
  next
    case (Inr i)
    then show ?thesis
      by (cases "load_workspace F cw st d1")
        (auto simp: export_backup_def fs_bind_def [of "load_or_create_identity F ci new st"] id
          fs_bind_def [of "\<lambda>d. (d, load_workspace F cw st d)"] fs_fail_def split: option.split)
  qed
  moreover have "same_prefs st d1 (fst (fs_bind (fs_create F path) (\<lambda>_. fs_write_all F path bs) d1))" for bs
    unfolding same_prefs_def using assms by (subst fs_one_path) auto
  ultimately show ?thesis using identity_keeps_prefs [OF id] by (auto intro: same_prefs_trans)
qed

lemma clear_keeps_prefs:
  assumes "clear_workspace F st d = (d', r)"
  shows "same_prefs st d d'"
proof -
  have keep: "remove_files F ps d = (d', r) \<Longrightarrow> p \<notin> set ps \<Longrightarrow> d' p = d p" for ps p d r
    by (induction ps arbitrary: d)
      (auto simp: fs_remove_def split: option.splits io_error_kind.splits if_splits prod.splits)
  from this [OF assms [unfolded clear_workspace_def]] show ?thesis
    by (simp add: same_prefs_def prefs_files_def PREFS_FILE_def WORKSPACE_FILE_def)
qed

lemma adopt_keeps_prefs:
  "same_prefs (h_store H) (co_disk c) (co_disk (fst (adopt_configuration_of H i key c)))"
proof -
  let ?d = "fst (export_backup (h_fault H) (h_identity_codec H) (h_doc_codec H) (h_backup_codec H)
      (h_new_identity H) (h_store H) (rescue_file H) (co_disk c))"
  obtain d' r where cl: "clear_workspace (h_fault H) (h_store H) ?d = (d', r)" by fastforce
  have "rescue_file H \<notin> prefs_files (h_store H)"
    by (auto simp: prefs_files_def rescue_file_def PREFS_FILE_def)
  from same_prefs_trans [OF export_keeps_prefs [OF this] clear_keeps_prefs [OF cl]] cl show ?thesis
    by (auto simp: adopt_configuration_of_def Let_def agent_rescan_def split: sum.split)
qed

lemma merge_apply_keep_prefs:
  "same_prefs (h_store H) (co_disk c) (co_disk (fst (core_merge H d c)))"
  "same_prefs (h_store H) (co_disk c) (co_disk (fst (core_apply H u c)))"
  using persist_keeps_prefs [of H "c\<lparr>co_doc := Some e, co_pending_trust := t\<rparr>" for e t]
    persist_keeps_prefs [of H "c\<lparr>co_doc := Some e\<rparr>" for e]
  by (simp_all add: core_merge_def core_apply_def Let_def split: sum.split option.split prod.split)

lemma publish_keeps_prefs: "same_prefs (h_store H) (co_disk c) (co_disk (fst (publish_local_facts H c)))"
  by (auto simp: publish_local_facts_def agent_upsert_machine_def Let_def mutate_keeps_prefs
      split: option.split prod.split sum.split)
    (metis fst_conv mutate_keeps_prefs)+

lemma quiet_disk:
  "co_disk (add_manual_peer H a c) = co_disk c" "co_disk (forget_manual_peer H a c) = co_disk c"
  "co_disk (note_cursor_owner m c) = co_disk c" "co_disk (set_remote_input_sink on c) = co_disk c"
  "co_disk (fst (take_announced_owner c)) = co_disk c" "co_disk (core_on_input H i es c) = co_disk c"
  "co_disk (core_on_cursor_owner i j c) = co_disk c"
  by (simp_all add: add_manual_peer_def forget_manual_peer_def note_cursor_owner_def set_remote_input_sink_def
      take_announced_owner_def core_on_input_def core_on_cursor_owner_def Let_def split: option.split)

lemma agent_do_keeps_prefs:
  "(\<And>on started. cmd \<noteq> SetSharing on started) \<Longrightarrow> same_prefs (h_store H) (co_disk c) (co_disk (agent_do H cmd c))"
proof (induction cmd)
  case (Pair i)
  then show ?case
    by (auto simp: pair_def Let_def split: option.split prod.split sum.split) (metis fst_conv mutate_keeps_prefs)+
next
  case (Unpair i)
  then show ?case
    by (auto simp: unpair_def split: prod.split sum.split) (metis fst_conv mutate_keeps_prefs)+
next
  case (RenameMachine name)
  then show ?case
    by (auto simp: rename_this_machine_def agent_upsert_machine_def mutate_keeps_prefs split: option.split)
next
  case (SetSharing on started)
  then show ?case using SetSharing [of on started] by simp
next
  case (NetEvent ev)
  show ?case by (cases ev) (auto simp: adopt_keeps_prefs split: option.split)
qed (simp_all add: agent_upsert_machine_def rename_workspace_def update_settings_def mutate_keeps_prefs
    publish_keeps_prefs adopt_keeps_prefs merge_apply_keep_prefs quiet_disk)

lemma agent_run_keeps_prefs:
  "\<forall>(H, cmd) \<in> set tr. h_store H = st \<and> (\<forall>on started. cmd \<noteq> SetSharing on started) \<Longrightarrow>
     same_prefs st (co_disk c) (co_disk (agent_run tr c))"
proof (induction tr arbitrary: c)
  case (Cons e tr)
  obtain H cmd where e: "e = (H, cmd)" by fastforce
  have "same_prefs st (co_disk c) (co_disk (agent_do H cmd c))"
    using Cons.prems e agent_do_keeps_prefs [of cmd H c] by auto
  moreover have "same_prefs st (co_disk (agent_do H cmd c)) (co_disk (agent_run tr (agent_do H cmd c)))"
    using Cons.prems by (intro Cons.IH) auto
  ultimately show ?case by (simp add: agent_run_def e same_prefs_trans)
qed (simp add: agent_run_def)

lemma remember_sharing_switch [simp]: "co_sharing (remember_sharing H on c) = co_sharing c"
  by (simp add: remember_sharing_def Let_def)

lemma remember_sharing_reads:
  assumes "h_fault H = no_fault" and "reads_back (h_prefs_codec H) \<lparr>sharing = on\<rparr>"
  shows "sharing (load_prefs no_fault (h_prefs_codec H) (h_store H) (co_disk (remember_sharing H on c))) = on"
proof -
  let ?old = "load_prefs no_fault (h_prefs_codec H) (h_store H) (co_disk c)"
  show ?thesis
  proof (cases "sharing ?old = on")
    case True
    then show ?thesis using assms(1) by (simp add: remember_sharing_def Let_def)
  next
    case False
    obtain bs where "enc (h_prefs_codec H) \<lparr>sharing = on\<rparr> = Some bs" using assms(2) by (auto simp: reads_back_def)
    from write_atomic_no_fault [OF this, of "h_store H" PREFS_FILE "co_disk c"] obtain d' where
      w: "save_prefs no_fault (h_prefs_codec H) (h_store H) \<lparr>sharing = on\<rparr> (co_disk c) = (d', Inr ())"
      by (auto simp: save_prefs_def)
    have new: "?old\<lparr>sharing := on\<rparr> = \<lparr>sharing = on\<rparr>" by simp
    show ?thesis
      using False w saved_prefs_load [OF assms(2) w] assms(1) by (simp add: remember_sharing_def Let_def new)
  qed
qed

section \<open>Properties\<close>

text \<open>
  C39: A machine dropped on the canvas lands where it was dropped. With coordinates below
  \<open>2 ^ 28\<close>, moving a machine to a point puts the corner of everything it covers exactly there,
  whatever the arrangement of its screens; its size, its other data and every other machine stay
  as they were, and the window then shows it at that point.
\<close>

theorem move_machine_lands:
  assumes "core_inv H c" and "co_doc c = Some d" and "parse_uuid text = Some i"
    and "machine i d = Some r" and "mr_id r = i" and "mr_displays r \<noteq> []"
    and "\<forall>s \<in> set (mr_displays r). near (display_rect s)"
    and "within 268435456 (mr_position r)" and "within 268435456 (point_new x y)"
    and "move_machine H parse_uuid text x y c = (c', res)"
  shows "res = Inr () \<and> (\<exists>d' r' b b'. co_doc c' = Some d' \<and> machine i d' = Some r' \<and>
    bounds r = Some b \<and> bounds r' = Some b' \<and> rx b' = x \<and> ry b' = y \<and> rwidth b' = rwidth b \<and> rheight b' = rheight b \<and>
    r' = r\<lparr>mr_position := mr_position r'\<rparr> \<and> (\<forall>j. j \<noteq> i \<longrightarrow> machine j d' = machine j d) \<and>
    um_x (show_machine C self online r') = x \<and> um_y (show_machine C self online r') = y)"
proof -
  have ok: "bt_ok (machines d)" using core_invD(3) [OF assms(1,2)] by (simp add: readable_def)
  let ?r = "moved_to x y r"
  have same: "?r = r\<lparr>mr_position := mr_position ?r\<rparr>" by (simp add: moved_to_def Let_def)
  then have id: "mr_id ?r = i" using assms(5) by (metis machine_record.select_convs(1) machine_record.surjective machine_record.update_convs(5))
  note m = mutate_doc [OF assms(2), of H "\<lambda>origin. upsert_machine (h_now H) origin ?r"]
  have "res = Inr () \<and> co_doc c' = Some (fst (upsert_machine (h_now H) (id_machine_id (co_identity c)) ?r d))"
    using assms(2-4,10) m(1,2)
    by (auto simp: move_machine_def edit_machine_def with_id_def from_agent_def agent_upsert_machine_def
        split: prod.splits sum.splits)
  moreover note machine_upserted [OF ok, of _ "h_now H" "id_machine_id (co_identity c)" ?r]
  ultimately show ?thesis
    using moved_bounds [OF assms(6-9)] same by (auto simp: id show_machine_def)
qed

theorem move_machine_lands_witness:
  "\<exists>c. move_machine (sample_host 1) (\<lambda>_. Some 2) ''2'' (-1920) 40 (sample_core 1 sample_pair) = (c, Inr ()) \<and>
    (\<exists>d r. co_doc c = Some d \<and> machine 2 d = Some r \<and> um_x (show_machine toy_crypto 1 {} r) = -1920 \<and>
      um_y (show_machine toy_crypto 1 {} r) = 40)"
proof -
  obtain c res where m: "move_machine (sample_host 1) (\<lambda>_. Some 2) ''2'' (-1920) 40 (sample_core 1 sample_pair) = (c, res)"
    by fastforce
  have two: "machine 2 sample_pair = Some (sample_machine 2 1920)" by code_simp
  have "\<forall>s \<in> set (mr_displays (sample_machine 2 1920)). near (display_rect s)"
    and "within 268435456 (mr_position (sample_machine 2 1920))" and "within 268435456 (point_new (-1920) 40)"
    by (simp_all add: sample_machine_def sample_display_def near_def within_def display_rect_def rect_new_def)
  moreover have "mr_id (sample_machine 2 1920) = 2" "mr_displays (sample_machine 2 1920) \<noteq> []"
    by (simp_all add: sample_machine_def)
  moreover have "co_doc (sample_core 1 sample_pair) = Some sample_pair" by (simp add: sample_core_def)
  ultimately show ?thesis
    using move_machine_lands [OF sample_core_inv [OF sample_readable(2), of 1] _ _ two _ _ _ _ _ m, of toy_crypto 1 "{}"] m
    by auto
qed

lemma present_ids_distinct:
  "list_all (slot_wf l) ms \<Longrightarrow> distinct (map fst ms) \<Longrightarrow>
    distinct (map mr_id (List.map_filter (\<lambda>slot. present (slot_content slot)) (bt_values ms))) \<and>
    mr_id ` set (List.map_filter (\<lambda>slot. present (slot_content slot)) (bt_values ms)) \<subseteq> fst ` set ms"
proof (induction ms)
  case (Cons e ms)
  then show ?case
    by (cases "slot_content (snd e)") (auto simp: bt_values_def map_filter_simps slot_wf_def)
qed (simp add: bt_values_def map_filter_simps)

lemma machines_present_distinct: "doc_wf d \<Longrightarrow> distinct (map mr_id (machines_present d))"
  unfolding machines_present_def
  by (rule present_ids_distinct [THEN conjunct1, of "doc_lamport d"]) (auto simp: doc_wf_def bt_distinct)

text \<open>
  The window shows every machine of the workspace exactly once, in reading order, this machine
  always as online, and every other one as the agent has it.
\<close>

theorem window_shows_every_machine:
  assumes "doc_wf d"
  shows "set (map um_id (uw_machines (show_workspace C v d))) = {i. machine i d \<noteq> None} \<and>
    distinct (map um_id (uw_machines (show_workspace C v d))) \<and>
    sorted (map (\<lambda>m. (sint (um_y m), sint (um_x m))) (uw_machines (show_workspace C v d))) \<and>
    (\<forall>m \<in> set (uw_machines (show_workspace C v d)). um_online m \<longleftrightarrow>
      um_id m \<in> av_online v \<or> um_id m = id_machine_id (av_identity v))"
proof -
  let ?shown = "map (show_machine C (id_machine_id (av_identity v)) (av_online v)) (machines_present d)"
  have ids: "map um_id ?shown = map mr_id (machines_present d)" by (simp add: show_machine_def)
  have "mset (uw_machines (show_workspace C v d)) = mset ?shown" by (simp add: show_workspace_def Let_def)
  then have "mset (map um_id (uw_machines (show_workspace C v d))) = mset (map mr_id (machines_present d))"
    using ids by (metis mset_map)
  note same = this
  have "set (map um_id (uw_machines (show_workspace C v d))) = {i. machine i d \<noteq> None}"
    using mset_eq_setD [OF same] machines_present_ids [OF assms] by simp
  moreover have "distinct (map um_id (uw_machines (show_workspace C v d)))"
    using mset_eq_imp_distinct_iff [OF same] machines_present_distinct [OF assms] by simp
  moreover have "sorted (map (\<lambda>m. (sint (um_y m), sint (um_x m))) (uw_machines (show_workspace C v d)))"
    by (simp add: show_workspace_def Let_def)
  moreover have "\<forall>m \<in> set (uw_machines (show_workspace C v d)). um_online m \<longleftrightarrow>
      um_id m \<in> av_online v \<or> um_id m = id_machine_id (av_identity v)"
    by (auto simp: show_workspace_def Let_def show_machine_def)
  ultimately show ?thesis by blast
qed

text \<open>
  The login setting is written and sent to every machine before this one acts on it: when the
  system refuses, the workspace says the program starts at login and it does not. On the other
  machines nothing acts on it.
\<close>

theorem login_setting_can_be_false:
  assumes "co_doc c = Some d" and "us_offline_edge s = ''block''" and "lg_executable L = Inr exe"
    and "lg_set L (us_autostart s) exe = Some e" and "ui_update_settings H L s c = (c', asked, res)"
  shows "res = Inl (LoginFailed e) \<and> asked = [(us_autostart s, exe)] \<and>
    (\<exists>d'. co_doc c' = Some d' \<and> autostart (lww_value (settings d')) = us_autostart s)"
proof -
  let ?change = "\<lambda>origin. set_settings (h_now H) origin \<lparr>clipboard_sync = us_clipboard_sync s, offline_edge = Block,
      discovery_port = us_discovery_port s, transport_port = us_transport_port s,
      preferred_interfaces = preferred_interfaces (lww_value (settings d)), autostart = us_autostart s\<rparr>"
  obtain c1 r where m: "mutate H ?change c = (c1, r)" by fastforce
  with mutate_doc(1,2) [OF assms(1), of H ?change] assms show ?thesis
    by (auto simp: ui_update_settings_def update_settings_def Let_def edit_defs lww_new_def)
qed

end
