(* ===== verification/Address.thy ===== *)
theory Address
  imports Desktop
begin

text \<open>
  Addresses typed into the window: \<^verbatim>\<open>add_manual_peer\<close> and \<^verbatim>\<open>forget_manual_peer\<close> of
  \<^verbatim>\<open>crates/is-ui/src/main.rs\<close>, with what they use of \<^verbatim>\<open>std::net\<close>: reading and showing a socket address.

  The IPv4 form is written out. The IPv6 form, which a person has to put into brackets, is a
  pair of functions \<open>text6\<close>; what is asked of it is \<open>text6_ok\<close>: it reads what it
  shows, and nothing without the bracket.
\<close>

section \<open>Reading and showing\<close>

definition is_digit :: "char \<Rightarrow> bool" where
  "is_digit c \<longleftrightarrow> (48 :: nat) \<le> of_char c \<and> of_char c \<le> (57 :: nat)"

text \<open>
  The number at the front of a text, at most \<open>limit\<close> digits long if there is a limit, which is when a
  leading zero is not allowed either, and below \<open>bound\<close>.
\<close>

definition read_number :: "nat option \<Rightarrow> nat \<Rightarrow> string \<Rightarrow> (nat \<times> string) option" where
  "read_number limit bound s =
     (let ds = takeWhile is_digit s; rest = dropWhile is_digit s in
      if ds = [] then None
      else if (case limit of None \<Rightarrow> False | Some n \<Rightarrow> n < length ds \<or> 1 < length ds \<and> hd ds = CHR ''0'') then None
      else case digits_value ds 0 of
        None \<Rightarrow> None
      | Some n \<Rightarrow> if n < bound then Some (n, rest) else None)"

definition read_byte :: "string \<Rightarrow> (nat \<times> string) option" where
  "read_byte = read_number (Some 3) 256"

definition read_char :: "char \<Rightarrow> string \<Rightarrow> string option" where
  "read_char c s = (case s of x # xs \<Rightarrow> if x = c then Some xs else None | [] \<Rightarrow> None)"

definition v4_number :: "nat \<Rightarrow> nat \<Rightarrow> nat \<Rightarrow> nat \<Rightarrow> u32" where
  "v4_number a b c d = of_nat (((a * 256 + b) * 256 + c) * 256 + d)"

definition read_v4 :: "string \<Rightarrow> (u32 \<times> string) option" where
  "read_v4 s =
     Option.bind (read_byte s) (\<lambda>(a, s).
     Option.bind (Option.bind (read_char CHR ''.'' s) read_byte) (\<lambda>(b, s).
     Option.bind (Option.bind (read_char CHR ''.'' s) read_byte) (\<lambda>(c, s).
     Option.bind (Option.bind (read_char CHR ''.'' s) read_byte) (\<lambda>(d, s).
     Some (v4_number a b c d, s)))))"

definition read_socket_v4 :: "string \<Rightarrow> (socket_addr \<times> string) option" where
  "read_socket_v4 s =
     Option.bind (read_v4 s) (\<lambda>(ip, s).
     Option.bind (Option.bind (read_char CHR '':'' s) (read_number None 65536)) (\<lambda>(port, s).
     Some (\<lparr>sa_ip = V4 ip, sa_port = of_nat port\<rparr>, s)))"

record text6 =
  t6_read :: "string \<Rightarrow> socket_addr option"
  t6_show :: "128 word \<Rightarrow> u16 \<Rightarrow> string"

text \<open>\<^verbatim>\<open>SocketAddr::from_str\<close>: all of the text has to be read.\<close>

definition read_socket :: "text6 \<Rightarrow> string \<Rightarrow> socket_addr option" where
  "read_socket T s =
     (case read_socket_v4 s of
        Some (a, rest) \<Rightarrow> if rest = [] then Some a else None
      | None \<Rightarrow> t6_read T s)"

definition show_v4 :: "u32 \<Rightarrow> string" where
  "show_v4 ip =
     (let n = unat ip in
      decimal (n div 16777216) @ ''.'' @ decimal (n div 65536 mod 256) @ ''.'' @ decimal (n div 256 mod 256) @ ''.'' @
      decimal (n mod 256))"

definition show_socket :: "text6 \<Rightarrow> socket_addr \<Rightarrow> string" where
  "show_socket T a =
     (case sa_ip a of
        V4 ip \<Rightarrow> show_v4 ip @ '':'' @ decimal (unat (sa_port a))
      | V6 ip \<Rightarrow> t6_show T ip (sa_port a))"

section \<open>The two commands\<close>

definition typed_address :: "text6 \<Rightarrow> string \<Rightarrow> core \<Rightarrow> socket_addr option" where
  "typed_address T t c =
     (case read_socket T t of
        Some a \<Rightarrow> Some a
      | None \<Rightarrow> read_socket T (t @ '':'' @ decimal (unat (agent_discovery_port c))))"

definition ui_add_manual_peer :: "host \<Rightarrow> text6 \<Rightarrow> string \<Rightarrow> core \<Rightarrow> core \<times> (desktop_error + unit)" where
  "ui_add_manual_peer H T address c =
     (let t = trim address in
      if t = [] then (c, Inl EmptyAddress)
      else case typed_address T t c of
        None \<Rightarrow> (c, Inl (NotAnAddress t))
      | Some a \<Rightarrow> (add_manual_peer H a c, Inr ()))"

definition ui_forget_manual_peer :: "host \<Rightarrow> text6 \<Rightarrow> string \<Rightarrow> core \<Rightarrow> core \<times> (desktop_error + unit)" where
  "ui_forget_manual_peer H T address c =
     (case read_socket T address of
        Some a \<Rightarrow> (forget_manual_peer H a c, Inr ())
      | None \<Rightarrow> (c, Inr ()))"

text \<open>What the window lists.\<close>

definition shown_addresses :: "text6 \<Rightarrow> core \<Rightarrow> string list" where
  "shown_addresses T c = map (show_socket T) (co_manual_peers c)"

definition text6_ok :: "text6 \<Rightarrow> bool" where
  "text6_ok T \<longleftrightarrow> (\<forall>ip port.
     t6_read T (t6_show T ip port) = Some \<lparr>sa_ip = V6 ip, sa_port = port\<rparr> \<and>
     (\<exists>s. t6_show T ip port = CHR ''['' # s @ '']:'' @ decimal (unat port))) \<and>
   (\<forall>s. (\<forall>r. s \<noteq> CHR ''['' # r) \<longrightarrow> t6_read T s = None)"

section \<open>What is shown can be read\<close>

lemma decimal_digits: "c \<in> set (decimal n) \<Longrightarrow> is_digit c"
proof (induction n rule: decimal.induct)
  case (1 n)
  have "is_digit (char_of (48 + m))" if "m < 10" for m :: nat
    using that by (simp add: is_digit_def)
  then show ?case
    using 1 by (cases "n < 10") (auto simp: decimal.simps [of n] simp del: decimal.simps)
qed

lemma digits_read: "rest = [] \<or> \<not> is_digit (hd rest) \<Longrightarrow>
    takeWhile is_digit (decimal n @ rest) = decimal n \<and> dropWhile is_digit (decimal n @ rest) = rest"
  using decimal_digits by (cases rest) (auto simp: takeWhile_append dropWhile_append simp del: decimal.simps)

lemma decimal_leading: "1 < length (decimal n) \<Longrightarrow> hd (decimal n) \<noteq> CHR ''0''"
proof (induction n rule: decimal.induct)
  case (1 n)
  show ?case
  proof (cases "n < 10")
    case True
    then show ?thesis using 1(2) by (subst (asm) decimal.simps) simp
  next
    case False
    have first: "hd (decimal n) = hd (decimal (n div 10))"
      using False decimal_nonempty by (subst decimal.simps) (simp del: decimal.simps)
    show ?thesis
    proof (cases "n div 10 < 10")
      case True
      then have "decimal (n div 10) = [char_of (48 + n div 10)]" by (subst decimal.simps) simp
      moreover have "char_of (48 + n div 10) \<noteq> (CHR ''0'')"
      proof
        assume "char_of (48 + n div 10) = CHR ''0''"
        then have "of_char (char_of (48 + n div 10) :: char) = (of_char CHR ''0'' :: nat)" by simp
        then show False using True False by simp
      qed
      ultimately show ?thesis using first by simp
    next
      case big: False
      then have "1 < length (decimal (n div 10))"
        using decimal_nonempty [of "n div 10 div 10"] by (subst decimal.simps) (simp del: decimal.simps)
      then show ?thesis using 1(1) False first by simp
    qed
  qed
qed

lemma decimal_short: "n < 256 \<Longrightarrow> length (decimal n) \<le> 3"
  by (subst decimal.simps, subst decimal.simps, subst decimal.simps) (auto simp del: decimal.simps)

lemma read_number_decimal:
  assumes "n < bound" and "\<And>k. limit = Some k \<Longrightarrow> length (decimal n) \<le> k" and "rest = [] \<or> \<not> is_digit (hd rest)"
  shows "read_number limit bound (decimal n @ rest) = Some (n, rest)"
  using assms digits_read [OF assms(3), of n] decimal_leading [of n]
  by (auto simp: read_number_def Let_def digits_value_decimal decimal_nonempty split: option.split simp del: decimal.simps)

lemma read_byte_decimal:
  "n < 256 \<Longrightarrow> rest = [] \<or> \<not> is_digit (hd rest) \<Longrightarrow> read_byte (decimal n @ rest) = Some (n, rest)"
  unfolding read_byte_def using decimal_short by (intro read_number_decimal) auto

lemma four_bytes:
  "v4_number (n div 16777216) (n div 65536 mod 256) (n div 256 mod 256) (n mod 256) = of_nat n"
proof -
  have "n div 16777216 * 256 + n div 65536 mod 256 = n div 65536" "n div 65536 * 256 + n div 256 mod 256 = n div 256"
    using div_mult_mod_eq [of "n div 65536" 256] div_mult_mod_eq [of "n div 256" 256]
    by (simp_all add: div_mult2_eq [symmetric])
  then show ?thesis by (simp add: v4_number_def)
qed

lemma separators [simp]: "\<not> is_digit CHR ''.''" "\<not> is_digit CHR '':''" "\<not> is_digit CHR ''[''"
  by (simp_all add: is_digit_def)

lemma unat_bound: "unat (w :: 'a :: len word) < 2 ^ LENGTH('a)"
  by (rule unsigned_less)

lemma read_v4_shown:
  assumes "rest = [] \<or> \<not> is_digit (hd rest)"
  shows "read_v4 (show_v4 ip @ rest) = Some (ip, rest)"
proof -
  have "unat ip < 4294967296" using unat_bound [of ip] by simp
  then have "unat ip div 16777216 < 256" by (simp add: less_mult_imp_div_less)
  then show ?thesis
    using assms four_bytes [of "unat ip"]
    by (simp add: read_v4_def show_v4_def Let_def read_byte_decimal read_char_def del: decimal.simps)
qed

lemma decimal_not_space: "\<not> is_space (last (decimal n))" "\<not> is_space (hd (decimal n))"
proof -
  have "is_digit c \<Longrightarrow> \<not> is_space c" for c by (simp add: is_digit_def is_space_def Let_def)
  then show "\<not> is_space (last (decimal n))" "\<not> is_space (hd (decimal n))"
    using decimal_digits decimal_nonempty by (metis last_in_set, metis hd_in_set)
qed

lemma trim_ends: "s \<noteq> [] \<Longrightarrow> \<not> is_space (hd s) \<Longrightarrow> \<not> is_space (last s) \<Longrightarrow> trim s = s"
proof -
  have keep: "xs \<noteq> [] \<Longrightarrow> \<not> is_space (hd xs) \<Longrightarrow> dropWhile is_space xs = xs" for xs by (cases xs) auto
  assume "s \<noteq> []" "\<not> is_space (hd s)" "\<not> is_space (last s)"
  then show "trim s = s" using keep [of s] keep [of "rev s"] by (simp add: trim_def hd_rev)
qed

lemma text6_okD:
  assumes "text6_ok T"
  shows "t6_read T (t6_show T ip port) = Some \<lparr>sa_ip = V6 ip, sa_port = port\<rparr>"
    and "\<exists>s. t6_show T ip port = CHR ''['' # s @ '']:'' @ decimal (unat port)"
    and "s = [] \<or> hd s \<noteq> CHR ''['' \<Longrightarrow> t6_read T s = None"
proof -
  show "t6_read T (t6_show T ip port) = Some \<lparr>sa_ip = V6 ip, sa_port = port\<rparr>"
    and "\<exists>s. t6_show T ip port = CHR ''['' # s @ '']:'' @ decimal (unat port)"
    using assms unfolding text6_ok_def by blast+
  assume "s = [] \<or> hd s \<noteq> CHR ''[''"
  then have "\<forall>r. s \<noteq> CHR ''['' # r" by auto
  then show "t6_read T s = None" using assms unfolding text6_ok_def by blast
qed

lemma read_socket_shown:
  assumes "text6_ok T"
  shows "read_socket T (show_socket T a) = Some a"
proof (cases "sa_ip a")
  case (V4 ip)
  have "read_number None 65536 (decimal (unat (sa_port a))) = Some (unat (sa_port a), [])"
    using read_number_decimal [of "unat (sa_port a)" 65536 None "[]"] unat_bound [of "sa_port a"] by (simp del: decimal.simps)
  then show ?thesis
    using V4 by (simp add: read_socket_def read_socket_v4_def show_socket_def read_v4_shown read_char_def del: decimal.simps)
next
  case (V6 ip)
  obtain s where "t6_show T ip (sa_port a) = CHR ''['' # s" using text6_okD(2) [OF assms] by blast
  then have "read_socket_v4 (t6_show T ip (sa_port a)) = None"
    by (simp add: read_socket_v4_def read_v4_def read_byte_def read_number_def)
  then show ?thesis using V6 text6_okD(1) [OF assms] by (simp add: read_socket_def show_socket_def)
qed

lemma shown_trimmed:
  assumes "text6_ok T"
  shows "trim (show_socket T a) = show_socket T a" "show_socket T a \<noteq> []"
proof -
  have "show_socket T a \<noteq> [] \<and> \<not> is_space (hd (show_socket T a)) \<and> \<not> is_space (last (show_socket T a))"
  proof (cases "sa_ip a")
    case (V4 ip)
    then show ?thesis
      using decimal_not_space decimal_nonempty
      by (simp add: show_socket_def show_v4_def Let_def hd_append last_append del: decimal.simps)
  next
    case (V6 ip)
    obtain s where "t6_show T ip (sa_port a) = CHR ''['' # s @ '']:'' @ decimal (unat (sa_port a))"
      using text6_okD(2) [OF assms] by blast
    then show ?thesis
      using V6 decimal_not_space(1) decimal_nonempty
      by (simp add: show_socket_def last_append del: decimal.simps) (simp add: is_space_def)
  qed
  then show "trim (show_socket T a) = show_socket T a" "show_socket T a \<noteq> []" by (auto intro: trim_ends)
qed

lemma bare_v4_reads:
  assumes "text6_ok T"
  shows "typed_address T (show_v4 ip) c = Some \<lparr>sa_ip = V4 ip, sa_port = agent_discovery_port c\<rparr>"
proof -
  have "is_digit (hd (show_v4 ip))"
    using decimal_nonempty decimal_digits [OF hd_in_set] by (simp add: show_v4_def Let_def hd_append del: decimal.simps)
  then have "t6_read T (show_v4 ip) = None" by (intro text6_okD(3) [OF assms]) (auto simp: is_digit_def)
  then have "read_socket T (show_v4 ip) = None"
    using read_v4_shown [of "[]" ip] by (simp add: read_socket_def read_socket_v4_def read_char_def)
  moreover have "read_number None 65536 (decimal (unat p)) = Some (unat p, [])" for p :: u16
    using read_number_decimal [of "unat p" 65536 None "[]"] unat_bound [of p] by (simp del: decimal.simps)
  ultimately show ?thesis
    by (simp add: typed_address_def read_socket_def read_socket_v4_def read_v4_shown read_char_def del: decimal.simps)
qed

lemma trim_v4: "set before \<subseteq> Collect is_space \<Longrightarrow> set after \<subseteq> Collect is_space \<Longrightarrow>
    trim (before @ show_v4 ip @ after) = show_v4 ip \<and> show_v4 ip \<noteq> []"
proof -
  assume blank: "set before \<subseteq> Collect is_space" "set after \<subseteq> Collect is_space"
  have ends: "show_v4 ip \<noteq> []" "\<not> is_space (hd (show_v4 ip))" "\<not> is_space (last (show_v4 ip))"
    using decimal_not_space decimal_nonempty by (simp_all add: show_v4_def Let_def hd_append last_append del: decimal.simps)
  have skip: "dropWhile is_space (xs @ ys) = ys"
    if "set xs \<subseteq> Collect is_space" "ys \<noteq> []" "\<not> is_space (hd ys)" for xs ys
    using that by (cases ys) (auto simp: dropWhile_append)
  show ?thesis
    using skip [OF blank(1), of "show_v4 ip @ after"] skip [of "rev after" "rev (show_v4 ip)"] blank(2) ends
    by (simp add: trim_def hd_append hd_rev)
qed

lemma add_manual_peers:
  "co_manual_peers (add_manual_peer H a c) =
     (if a \<in> set (co_manual_peers c) then co_manual_peers c else co_manual_peers c @ [a])"
  "co_manual_peers (forget_manual_peer H a c) = filter (\<lambda>b. b \<noteq> a) (co_manual_peers c)"
  by (simp_all add: add_manual_peer_def forget_manual_peer_def Let_def)

lemma shown_distinct: "text6_ok T \<Longrightarrow> show_socket T a = show_socket T b \<longleftrightarrow> a = b"
  using read_socket_shown by (metis option.inject)

section \<open>Property\<close>


text \<open>An IPv6 text of the right shape.\<close>

definition plain_text6 :: text6 where
  "plain_text6 = \<lparr>t6_read = (\<lambda>s.
     Option.bind (Option.bind (read_char CHR ''['' s) (read_number None (2 ^ 128))) (\<lambda>(n, s).
     Option.bind (Option.bind (Option.bind (read_char CHR '']'' s) (read_char CHR '':'')) (read_number None 65536)) (\<lambda>(p, s).
     if s = [] then Some \<lparr>sa_ip = V6 (of_nat n), sa_port = of_nat p\<rparr> else None))),
   t6_show = (\<lambda>ip port. CHR ''['' # decimal (unat ip) @ '']:'' @ decimal (unat port))\<rparr>"

lemma plain_text6_ok: "text6_ok plain_text6"
proof -
  have "read_number None (2 ^ 128) (decimal (unat ip) @ CHR '']'' # s) = Some (unat ip, CHR '']'' # s)" for ip :: "128 word" and s
    using read_number_decimal [of "unat ip" "2 ^ 128" None "CHR '']'' # s"] unat_bound [of ip]
    by (simp add: is_digit_def del: decimal.simps)
  moreover have "read_number None 65536 (decimal (unat p)) = Some (unat p, [])" for p :: u16
    using read_number_decimal [of "unat p" 65536 None "[]"] unat_bound [of p] by (simp del: decimal.simps)
  moreover have "t6_read plain_text6 s = None" if "\<forall>r. s \<noteq> CHR ''['' # r" for s
    using that by (cases s) (auto simp: plain_text6_def read_char_def)
  ultimately show ?thesis
    unfolding text6_ok_def by (auto simp: plain_text6_def read_char_def simp del: decimal.simps)
qed


end
