(* ===== verification/Startup.thy ===== *)
theory Startup
  imports Node Desk Desktop
begin

text \<open>
  The application as it starts: \<^verbatim>\<open>main\<close> of \<^verbatim>\<open>crates/is-ui/src/main.rs\<close>, up to the window. It loads the
  agent, publishes this machine's screens, goes online and resumes sharing, on the components as the
  other theories have them: \<open>Agent\<close>, \<open>Node\<close>, and \<open>Desk\<close> with the hooks of Windows.

  What comes from outside is the record \<open>launch\<close>. \<open>la_meanwhile\<close> is what the user and the other
  machines do to the agent while the task that starts it up has gone online and not yet looked at the
  switch.
\<close>

section \<open>Starting\<close>

record launch =
  la_host :: host
  la_bind :: "u16 \<Rightarrow> bind_answer"
  la_early :: "(instant \<times> (machine_id \<Rightarrow> pub_key \<Rightarrow> bool) \<times> internal) list"
  la_meanwhile :: "(host \<times> agent_command) list"
  la_now :: u64
  la_world :: world
  la_hooks :: "string + hook_os"
  la_bridge :: "string option"
  la_pointer :: "(i32 \<times> i32) option"

text \<open>\<open>ap_network\<close> is the service, its actor and the events it has for the agent.\<close>

record application =
  ap_desk :: desk
  ap_network :: "(service \<times> actor \<times> receiver) option"

definition agent_online ::
  "(u16 \<Rightarrow> bind_answer) \<Rightarrow> (instant \<times> (machine_id \<Rightarrow> pub_key \<Rightarrow> bool) \<times> internal) list \<Rightarrow> core
     \<Rightarrow> (service \<times> actor \<times> receiver) option" where
  "agent_online bind early c =
     (case go_online_ports c of (discovery, transport) \<Rightarrow>
        (case go_online_on bind discovery transport early c of
           Inl _ \<Rightarrow> None
         | Inr n \<Rightarrow> Some (nd_service n, nd_actor n, nd_events n)))"

definition desktop_main :: "launch \<Rightarrow> disk \<Rightarrow> disk \<times> (agent_error + application)" where
  "desktop_main L d =
     (let H = (la_host L)\<lparr>h_net := False\<rparr> in
      case agent_load H d of
        (d, Inl e) \<Rightarrow> (d, Inl e)
      | (d, Inr c) \<Rightarrow>
          let c = fst (publish_local_facts H c);
              network = agent_online (la_bind L) (la_early L) c;
              c = agent_run (la_meanwhile L) c;
              H = H\<lparr>h_net := network \<noteq> None\<rparr>;
              k = quiet_desk c;
              k = (if sharing_was_on H (dk_core k)
                   then fst (switch_sharing H (la_now L) (la_world L) (la_hooks L) (la_bridge L) (la_pointer L) True k)
                   else k)
          in (co_disk (dk_core k), Inr \<lparr>ap_desk = k, ap_network = network\<rparr>))"

section \<open>What leaves sharing alone\<close>

fun of_sharing :: "agent_command \<Rightarrow> bool" where
  "of_sharing (SetSharing on started) = True"
| "of_sharing (NoteCursorOwner m) = True"
| "of_sharing (SetSink on) = True"
| "of_sharing _ = False"

definition sharing_state :: "core \<Rightarrow> bool \<times> (machine_id option) \<times> bool" where
  "sharing_state c = (co_sharing c, co_cursor_owner c, co_remote_input c = None)"

lemma mutate_sharing_state [simp]: "sharing_state (fst (mutate H change c)) = sharing_state c"
  by (simp add: sharing_state_def mutate_def persist_def Let_def request_def split: option.split prod.split)

lemma adopt_sharing_state [simp]: "sharing_state (fst (adopt_configuration_of H i key c)) = sharing_state c"
  by (simp add: sharing_state_def adopt_configuration_of_def agent_rescan_def Let_def request_def split: prod.split sum.split)

lemma rest_sharing_state [simp]:
  "sharing_state (request q c) = sharing_state c"
  "sharing_state (add_manual_peer H a c) = sharing_state c" "sharing_state (forget_manual_peer H a c) = sharing_state c"
  "sharing_state (fst (take_announced_owner c)) = sharing_state c" "sharing_state (core_on_cursor_owner i m c) = sharing_state c"
  "sharing_state (fst (core_merge H d c)) = sharing_state c" "sharing_state (fst (core_apply H u c)) = sharing_state c"
  by (auto simp: sharing_state_def request_def add_manual_peer_def forget_manual_peer_def take_announced_owner_def persist_def
      core_on_cursor_owner_def core_merge_def core_apply_def Let_def split: option.split prod.split sum.split)

lemma injected_sharing_state [simp]: "sharing_state (inject_all H es c) = sharing_state c"
  by (induction es arbitrary: c) (simp_all split: option.split)

lemma input_sharing_state [simp]: "sharing_state (core_on_input H i es c) = sharing_state c"
proof (cases "co_remote_input c")
  case (Some batches)
  then show ?thesis by (simp add: core_on_input_def sharing_state_def)
qed (simp add: core_on_input_def Let_def)

lemma published_sharing_state [simp]: "sharing_state (fst (publish_local_facts H c)) = sharing_state c"
  using mutate_sharing_state [of H _ c]
  by (simp add: publish_local_facts_def agent_upsert_machine_def Let_def split_beta split: option.split sum.split)

lemma paired_sharing_state [simp]: "sharing_state (fst (pair H i c)) = sharing_state c"
  "sharing_state (fst (unpair H i c)) = sharing_state c"
  "sharing_state (fst (rename_this_machine H name c)) = sharing_state c"
  using mutate_sharing_state [of H _ c]
  by (auto simp: pair_def unpair_def rename_this_machine_def agent_upsert_machine_def Let_def split_beta sharing_state_def request_def
      split: option.split sum.split)

lemma heard_sharing_state [simp]: "sharing_state (on_net_event H e c) = sharing_state c"
  by (cases e) (simp_all add: Let_def split: option.split, simp_all add: sharing_state_def request_def)

lemma others_leave_sharing: "\<not> of_sharing cmd \<Longrightarrow> sharing_state (agent_do H cmd c) = sharing_state c"
  by (cases cmd) (simp_all add: agent_upsert_machine_def rename_workspace_def update_settings_def)

lemma others_run:
  "\<forall>(H, cmd) \<in> set tr. h_store H = st \<and> \<not> of_sharing cmd \<Longrightarrow> sharing_state (agent_run tr c) = sharing_state c"
proof (induction tr arbitrary: c)
  case (Cons e tr)
  then show ?case using others_leave_sharing by (cases e) (simp add: agent_run_def)
qed (simp add: agent_run_def)

section \<open>What the switch does to a quiet machine\<close>

definition system_lets :: "launch \<Rightarrow> bool" where
  "system_lets L \<longleftrightarrow>
     (case snd (process_start (la_now L) (la_hooks L) idle_process) of Inl _ \<Rightarrow> False | Inr _ \<Rightarrow> la_bridge L = None)"

lemma switch_disk: "co_disk (dk_core (fst (switch_sharing H now w hooks bridge ptr on k))) = co_disk (remember_sharing H on (dk_core k))"
proof -
  obtain k' r where run: "switch_sharing H now w hooks bridge ptr on k = (k', r)" by fastforce
  have "co_disk (apart_from_sharing c) = co_disk c" for c by (simp add: apart_from_sharing_def)
  moreover have "co_disk (fst (set_sharing H on started c)) = co_disk (remember_sharing H on c)" for started c
    by (simp add: set_sharing_def note_cursor_owner_def request_def Let_def split: sum.split)
  ultimately show ?thesis using switch_refines_agent [OF run refl] run by (metis fst_conv)
qed

lemma switched_on:
  assumes "\<not> co_sharing c"
    and "k = fst (switch_sharing H (la_now L) (la_world L) (la_hooks L) (la_bridge L) (la_pointer L) True (quiet_desk c))"
  shows "(dk_router k \<noteq> None) = system_lets L \<and> co_sharing (dk_core k) = system_lets L"
proof -
  let ?k = "(quiet_desk c)\<lparr>dk_core := remember_sharing H True c\<rparr>"
  obtain p r where start: "process_start (la_now L) (la_hooks L) idle_process = (p, r)" by fastforce
  show ?thesis
    using assms start performed(1)
    by (auto simp: switch_sharing_def sharing_start_def system_lets_def quiet_desk_def Let_def split: sum.split option.split)
qed

section \<open>The application that came up\<close>

lemma loaded_sharing_state: "agent_load H d = (d', Inr c) \<Longrightarrow> co_disk c = d' \<and> sharing_state c = (False, None, True)"
  by (auto simp: agent_load_def sharing_state_def Let_def split: prod.splits sum.splits option.splits)

text \<open>Loading does not look at the network.\<close>

lemma agent_load_net: "agent_load (H\<lparr>h_net := b\<rparr>) d = agent_load H d"
proof -
  have name: "computer_name (H\<lparr>h_net := b\<rparr>) = computer_name H" by (simp add: computer_name_def cong: option.case_cong)
  have "local_record (H\<lparr>h_net := b\<rparr>) i = local_record H i" for i
    by (simp add: local_record_def local_displays_def name)
  then show ?thesis by (simp add: agent_load_def name Let_def split: prod.split sum.split option.split)
qed

lemma main_parts:
  assumes "desktop_main L d0 = (d, Inr app)"
    and "\<forall>(H, cmd) \<in> set (la_meanwhile L). h_store H = h_store (la_host L) \<and> \<not> of_sharing cmd"
  obtains c where "same_prefs (h_store (la_host L)) d0 (co_disk c)" and "sharing_state c = (False, None, True)"
    and "ap_desk app = (let H = (la_host L)\<lparr>h_net := ap_network app \<noteq> None\<rparr>; k = quiet_desk c
      in if sharing_was_on H c
         then fst (switch_sharing H (la_now L) (la_world L) (la_hooks L) (la_bridge L) (la_pointer L) True k) else k)"
    and "\<exists>c. ap_network app = agent_online (la_bind L) (la_early L) c"
proof -
  let ?H = "(la_host L)\<lparr>h_net := False\<rparr>"
  obtain d1 c1 where load: "agent_load ?H d0 = (d1, Inr c1)"
    using assms(1) by (auto simp: desktop_main_def Let_def split: prod.splits sum.splits)
  let ?p = "fst (publish_local_facts ?H c1)"
  let ?c = "agent_run (la_meanwhile L) ?p"
  let ?st = "h_store (la_host L)"
  have tr: "\<forall>(H, cmd) \<in> set (la_meanwhile L). h_store H = ?st \<and> (\<forall>on started. cmd \<noteq> SetSharing on started)"
    using assms(2) by fastforce
  have "same_prefs ?st d0 (co_disk c1)" using load_keeps_prefs [OF load] loaded_sharing_state [OF load] by simp
  moreover have "same_prefs ?st (co_disk c1) (co_disk ?p)" using publish_keeps_prefs [of ?H c1] by simp
  ultimately have "same_prefs ?st d0 (co_disk ?c)" using agent_run_keeps_prefs [OF tr] same_prefs_trans by metis
  moreover have "sharing_state ?c = (False, None, True)"
    using others_run [OF assms(2)] loaded_sharing_state [OF load] by simp
  moreover have "app = \<lparr>ap_desk = (let k = quiet_desk ?c; H = (la_host L)\<lparr>h_net := ap_network app \<noteq> None\<rparr> in if sharing_was_on H ?c
      then fst (switch_sharing H (la_now L) (la_world L) (la_hooks L) (la_bridge L) (la_pointer L) True k) else k),
      ap_network = agent_online (la_bind L) (la_early L) ?p\<rparr>"
    using assms(1) load by (auto simp: desktop_main_def Let_def quiet_desk_def)
  ultimately show thesis using that by (metis (lifting) application.select_convs)
qed

section \<open>Property\<close>

text \<open>
  C36: After a restart the application is as the user left it. However sharing was switched, whatever
  capture answered then and whatever the agent did until it stopped: the application started on the
  disk it left runs the routing loop and shows sharing as on exactly if it was on and
  the system lets the hooks in now; nothing is hooked otherwise; the choice stays on the disk, so a start at which
  the system refuses does not lose it; and the machine is online if any port can be had.
\<close>

theorem restart_resumes_sharing:
  assumes "k1 = fst (switch_sharing H now w hooks bridge ptr on k)" and "h_fault H = no_fault"
    and "reads_back (h_prefs_codec H) \<lparr>sharing = on\<rparr>"
    and "\<forall>(G, cmd) \<in> set tr. h_store G = h_store H \<and> (\<forall>on started. cmd \<noteq> SetSharing on started)"
    and "desktop_main L (co_disk (agent_run tr (dk_core k1))) = (d, Inr app)"
    and "h_store (la_host L) = h_store H" and "h_prefs_codec (la_host L) = h_prefs_codec H" and "h_fault (la_host L) = no_fault"
    and "\<forall>(G, cmd) \<in> set (la_meanwhile L). h_store G = h_store (la_host L) \<and> \<not> of_sharing cmd"
  shows "(dk_router (ap_desk app) \<noteq> None) = (on \<and> system_lets L) \<and>
    co_sharing (dk_core (ap_desk app)) = (on \<and> system_lets L) \<and> desk_inv (ap_desk app) \<and>
    sharing_was_on (la_host L) (dk_core (ap_desk app)) = on \<and>
    ((\<forall>port. \<exists>got. bind_transport (la_bind L) port = Inr got) \<longrightarrow> ap_network app \<noteq> None)"
proof -
  let ?H = "(la_host L)\<lparr>h_net := ap_network app \<noteq> None\<rparr>"
  let ?on = "\<lambda>d. sharing (load_prefs no_fault (h_prefs_codec H) (h_store H) d)"
  from main_parts [OF assms(5,9)] obtain c where
    disk: "same_prefs (h_store H) (co_disk (agent_run tr (dk_core k1))) (co_disk c)" and off: "sharing_state c = (False, None, True)"
    and app: "ap_desk app = (if sharing_was_on ?H c then fst (switch_sharing ?H (la_now L) (la_world L) (la_hooks L)
        (la_bridge L) (la_pointer L) True (quiet_desk c)) else quiet_desk c)"
    and net: "\<exists>c. ap_network app = agent_online (la_bind L) (la_early L) c"
    unfolding assms(6) Let_def by metis
  have "?on (co_disk (dk_core k1)) = on" using remember_sharing_reads [OF assms(2,3)] by (simp add: assms(1) switch_disk)
  then have on: "?on (co_disk c) = on"
    using same_prefs_load [OF agent_run_keeps_prefs [OF assms(4)]] same_prefs_load [OF disk] by simp
  then have found: "sharing_was_on ?H c = on" using assms(6-8) by (simp add: sharing_was_on_def)
  have quiet: "co_remote_input c = None" "co_cursor_owner c = None" "\<not> co_sharing c" using off by (simp_all add: sharing_state_def)
  have router: "(dk_router (ap_desk app) \<noteq> None) = (on \<and> system_lets L) \<and>
      co_sharing (dk_core (ap_desk app)) = (on \<and> system_lets L)"
    using switched_on [OF quiet(3) refl] quiet(3) found by (simp add: app quiet_desk_def)
  have "desk_reaches c (ap_desk app)"
    using found by (auto simp: app intro: desk_reaches.Quiet desk_reaches.Stepped [OF _ desk_step.Switched])
  then have inv: "desk_inv (ap_desk app)" by (rule desk_reaches_inv [OF _ quiet(1,2)])
  have "co_disk (dk_core (ap_desk app)) = co_disk c"
    using found on assms(6-8) by (simp add: app switch_disk remember_sharing_def Let_def quiet_desk_def)
  then have "sharing_was_on (la_host L) (dk_core (ap_desk app)) = on" using on assms(6-8) by (simp add: sharing_was_on_def)
  moreover have "(\<forall>port. \<exists>got. bind_transport (la_bind L) port = Inr got) \<longrightarrow> ap_network app \<noteq> None"
    using net by (auto simp: agent_online_def go_online_on_def service_start_def split: prod.split sum.split) (metis Inl_Inr_False)
  ultimately show ?thesis using router inv by blast
qed

definition sample_launch :: launch where
  "sample_launch = \<lparr>la_host = sample_host 1, la_bind = sample_bind, la_early = [], la_meanwhile = [(sample_host 1, RenameWorkspace ''desk'')],
     la_now = 90000, la_world = sample_world, la_hooks = Inr granted, la_bridge = None, la_pointer = Some (10, 10)\<rparr>"

definition sample_refused :: desk where
  "sample_refused = fst (switch_sharing (sample_host 1) 10000 sample_world (Inl ''no permission'') None None True
     (quiet_desk (sample_core 1 sample_doc)))"

theorem restart_resumes_sharing_witness:
  "\<exists>d app. desktop_main sample_launch (co_disk (agent_run sample_night (dk_core sample_refused))) = (d, Inr app) \<and>
    dk_router (ap_desk app) \<noteq> None \<and> co_sharing (dk_core (ap_desk app))"
proof -
  let ?H = "sample_host 1" and ?c = "agent_run sample_night (dk_core sample_refused)"
  let ?s = "set_sharing ?H True (Inl NoWorkspace) (sample_core 1 sample_doc)"
  have off: "\<not> co_sharing (sample_core 1 sample_doc)" and some: "co_doc (sample_core 1 sample_doc) = Some sample_doc"
    by (simp_all add: sample_core_def)
  have refused: "dk_core sample_refused = fst ?s" using off
    by (simp add: sample_refused_def switch_sharing_def set_sharing_def sharing_start_def process_start_def quiet_desk_def
        idle_process_def capture_start_def Let_def)
  have inv: "core_inv ?H (dk_core sample_refused)"
    unfolding refused by (rule set_sharing_inv [OF sample_core_inv [OF sample_readable(1)]])
  have doc: "co_doc (dk_core sample_refused) = Some sample_doc"
    using off some remember_sharing_fields [of ?H True "sample_core 1 sample_doc"] by (simp add: refused set_sharing_def Let_def)
  have healthy: "list_all (healthy ?H) sample_night" by (simp add: sample_night_def sample_host_works)
  have "co_doc ?c = Some sample_doc" using doc by (simp add: sample_night_def agent_run_def note_cursor_owner_def)
  from restart [OF sample_host_works agent_run_inv [OF inv healthy] this sample_host_reads_back]
  obtain d c2 where load: "agent_load ?H (co_disk ?c) = (d, Inr c2)" by blast
  then obtain d' app where main: "desktop_main sample_launch (co_disk ?c) = (d', Inr app)"
    by (simp add: desktop_main_def sample_launch_def agent_load_net Let_def)
  have prefs: "reads_back (h_prefs_codec ?H) \<lparr>sharing = True\<rparr>" and F: "h_fault ?H = no_fault"
    by (simp_all add: reads_back_def sample_host_def)
  have night: "\<forall>(G, cmd) \<in> set sample_night. h_store G = h_store ?H \<and> (\<forall>on started. cmd \<noteq> SetSharing on started)"
    by (simp add: sample_night_def)
  have L: "h_store (la_host sample_launch) = h_store ?H" "h_prefs_codec (la_host sample_launch) = h_prefs_codec ?H"
    "h_fault (la_host sample_launch) = no_fault"
    "\<forall>(G, cmd) \<in> set (la_meanwhile sample_launch). h_store G = h_store (la_host sample_launch) \<and> \<not> of_sharing cmd"
    using F by (simp_all add: sample_launch_def)
  have "system_lets sample_launch" by code_simp
  with restart_resumes_sharing [OF sample_refused_def F prefs night main L] main show ?thesis by auto
qed

end
