(* ===== verification/Autostart.thy ===== *)
theory Autostart
  imports Desktop
begin

text \<open>
  Starting with the computer (\<^verbatim>\<open>crates/is-agent/src/autostart.rs\<close>): the login entry on the three
  kinds of platform, and the switch of the window that writes it.

  On Windows the entry is a value of the user's \<^verbatim>\<open>Run\<close> key, and the crate \<^verbatim>\<open>winreg\<close> is a record
  of functions on a registry of any type, with its documented behaviour as \<open>registry_ok\<close>; on the
  others it is a file on the \<open>disk\<close> of \<open>Store\<close>. The locale \<open>login_entry\<close> is what the program
  relies on of either. What the system makes of an entry at login follows the documented format
  of each platform: \<open>login_program\<close>.
\<close>

section \<open>Platforms\<close>

record 'r registry =
  rg_open :: "bool \<Rightarrow> 'r \<Rightarrow> io_error_kind option"
  rg_get :: "string \<Rightarrow> 'r \<Rightarrow> io_error_kind + string"
  rg_set :: "string \<Rightarrow> string \<Rightarrow> 'r \<Rightarrow> 'r \<times> io_error_kind option"
  rg_delete :: "string \<Rightarrow> 'r \<Rightarrow> 'r \<times> io_error_kind option"

record 'r login_host =
  lh_platform :: platform
  lh_variables :: "string \<Rightarrow> string option"
  lh_fault :: fault
  lh_registry :: "'r registry"

record 'r login_state =
  ls_disk :: disk
  ls_registry :: 'r

definition ENTRY_NAME :: string where "ENTRY_NAME = ''InputShare''"

definition in_quotes :: "string \<Rightarrow> string" where
  "in_quotes s = CHR 0x22 # s @ [CHR 0x22]"

definition text_of_lines :: "string list \<Rightarrow> string" where
  "text_of_lines ls = concat (map (\<lambda>l. l @ [CHR 0x0A]) ls)"

subsection \<open>Windows\<close>

definition windows_is_enabled :: "'r registry \<Rightarrow> 'r \<Rightarrow> bool" where
  "windows_is_enabled W r =
     (case rg_open W False r of
        Some _ \<Rightarrow> False
      | None \<Rightarrow> (case rg_get W ENTRY_NAME r of Inl _ \<Rightarrow> False | Inr _ \<Rightarrow> True))"

definition windows_enable :: "'r registry \<Rightarrow> string \<Rightarrow> 'r \<Rightarrow> 'r \<times> io_error_kind option" where
  "windows_enable W exe r =
     (case rg_open W True r of Some k \<Rightarrow> (r, Some k) | None \<Rightarrow> rg_set W ENTRY_NAME (in_quotes exe) r)"

definition windows_disable :: "'r registry \<Rightarrow> 'r \<Rightarrow> 'r \<times> io_error_kind option" where
  "windows_disable W r =
     (case rg_open W True r of
        Some k \<Rightarrow> (r, Some k)
      | None \<Rightarrow>
          (case rg_delete W ENTRY_NAME r of
             (r, None) \<Rightarrow> (r, None)
           | (r, Some NotFound) \<Rightarrow> (r, None)
           | (r, Some k) \<Rightarrow> (r, Some k)))"

subsection \<open>Files\<close>

text \<open>\<^verbatim>\<open>Path::join\<close> of a relative path, \<^verbatim>\<open>Path::exists\<close>, \<^verbatim>\<open>create_dir_all\<close>, \<^verbatim>\<open>std::fs::write\<close>.\<close>

definition path_join :: "string \<Rightarrow> string \<Rightarrow> string" where
  "path_join base rest =
     (if base = [] then rest else if last base = CHR ''/'' then base @ rest else base @ ''/'' @ rest)"

definition path_exists :: "fault \<Rightarrow> string \<Rightarrow> disk \<Rightarrow> bool" where
  "path_exists F p d \<longleftrightarrow> fails F (FsRead p) = None \<and> d p \<noteq> None"

definition fs_create_dir :: "fault \<Rightarrow> string \<Rightarrow> unit fs" where
  "fs_create_dir F p d = (case fails F (FsCreateDir p) of Some k \<Rightarrow> (d, Inl (Io p k)) | None \<Rightarrow> (d, Inr ()))"

definition io_result :: "disk \<times> (core_error + unit) \<Rightarrow> disk \<times> io_error_kind option" where
  "io_result r =
     (case r of
        (d, Inr _) \<Rightarrow> (d, None)
      | (d, Inl (Io _ k)) \<Rightarrow> (d, Some k)
      | (d, Inl (PlainIo k)) \<Rightarrow> (d, Some k)
      | (d, Inl _) \<Rightarrow> (d, Some OtherIo))"

text \<open>What \<^verbatim>\<open>enable\<close> and \<^verbatim>\<open>disable\<close> do with the file at hand, the same on both kinds of system.\<close>

definition write_entry :: "fault \<Rightarrow> string \<Rightarrow> string \<Rightarrow> bytes \<Rightarrow> disk \<Rightarrow> disk \<times> io_error_kind option" where
  "write_entry F dir name bs d =
     io_result (fs_bind (fs_create_dir F dir) (\<lambda>_.
       fs_bind (fs_create F (path_join dir name)) (\<lambda>_. fs_write_all F (path_join dir name) bs)) d)"

definition remove_entry :: "fault \<Rightarrow> string \<Rightarrow> disk \<Rightarrow> disk \<times> io_error_kind option" where
  "remove_entry F p d =
     (case fs_remove F p d of
        (d, None) \<Rightarrow> (d, None)
      | (d, Some NotFound) \<Rightarrow> (d, None)
      | (d, Some k) \<Rightarrow> (d, Some k))"

subsection \<open>macOS\<close>

definition plist_dir :: "(string \<Rightarrow> string option) \<Rightarrow> io_error_kind + string" where
  "plist_dir env =
     (case env ''HOME'' of None \<Rightarrow> Inl NotFound | Some home \<Rightarrow> Inr (path_join home ''Library/LaunchAgents''))"

definition plist_name :: string where "plist_name = ''dev.inputshare.agent.plist''"

definition plist_head :: "string list" where
  "plist_head =
    [''<?xml version='' @ in_quotes ''1.0'' @ '' encoding='' @ in_quotes ''UTF-8'' @ ''?>'',
     ''<!DOCTYPE plist PUBLIC '' @ in_quotes ''-//Apple//DTD PLIST 1.0//EN'' @ '' '' @
       in_quotes ''http://www.apple.com/DTDs/PropertyList-1.0.dtd'' @ ''>'',
     ''<plist version='' @ in_quotes ''1.0'' @ ''>'',
     ''<dict>'',
     ''    <key>Label</key>'',
     ''    <string>dev.inputshare.agent</string>'',
     ''    <key>ProgramArguments</key>'',
     ''    <array>'']"

definition plist_tail :: "string list" where
  "plist_tail =
    [''    </array>'', ''    <key>RunAtLoad</key>'', ''    <true/>'', ''    <key>KeepAlive</key>'', ''    <true/>'',
     ''</dict>'', ''</plist>'']"

definition plist_text :: "string \<Rightarrow> string" where
  "plist_text exe = text_of_lines (plist_head @ [''        <string>'' @ exe @ ''</string>''] @ plist_tail)"

definition mac_is_enabled :: "(string \<Rightarrow> string option) \<Rightarrow> fault \<Rightarrow> disk \<Rightarrow> bool" where
  "mac_is_enabled env F d =
     (case plist_dir env of Inl _ \<Rightarrow> False | Inr dir \<Rightarrow> path_exists F (path_join dir plist_name) d)"

definition mac_enable :: "(string \<Rightarrow> string option) \<Rightarrow> fault \<Rightarrow> string \<Rightarrow> disk \<Rightarrow> disk \<times> io_error_kind option" where
  "mac_enable env F exe d =
     (case plist_dir env of
        Inl e \<Rightarrow> (d, Some e)
      | Inr dir \<Rightarrow> write_entry F dir plist_name (bytes_of (plist_text exe)) d)"

definition mac_disable :: "(string \<Rightarrow> string option) \<Rightarrow> fault \<Rightarrow> disk \<Rightarrow> disk \<times> io_error_kind option" where
  "mac_disable env F d =
     (case plist_dir env of Inl e \<Rightarrow> (d, Some e) | Inr dir \<Rightarrow> remove_entry F (path_join dir plist_name) d)"

subsection \<open>The other Unix systems\<close>

definition desktop_dir :: "(string \<Rightarrow> string option) \<Rightarrow> io_error_kind + string" where
  "desktop_dir env =
     (case (case env ''XDG_CONFIG_HOME'' of
              Some base \<Rightarrow> Some base
            | None \<Rightarrow> map_option (\<lambda>home. path_join home ''.config'') (env ''HOME'')) of
        None \<Rightarrow> Inl NotFound
      | Some base \<Rightarrow> Inr (path_join base ''autostart''))"

definition desktop_name :: string where "desktop_name = ''inputshare.desktop''"

definition desktop_text :: "string \<Rightarrow> string" where
  "desktop_text exe =
     text_of_lines [''[Desktop Entry]'', ''Type=Application'', ''Name='' @ ENTRY_NAME, ''Exec='' @ exe,
       ''X-GNOME-Autostart-enabled=true'']"

definition unix_is_enabled :: "(string \<Rightarrow> string option) \<Rightarrow> fault \<Rightarrow> disk \<Rightarrow> bool" where
  "unix_is_enabled env F d =
     (case desktop_dir env of Inl _ \<Rightarrow> False | Inr dir \<Rightarrow> path_exists F (path_join dir desktop_name) d)"

definition unix_enable :: "(string \<Rightarrow> string option) \<Rightarrow> fault \<Rightarrow> string \<Rightarrow> disk \<Rightarrow> disk \<times> io_error_kind option" where
  "unix_enable env F exe d =
     (case desktop_dir env of
        Inl e \<Rightarrow> (d, Some e)
      | Inr dir \<Rightarrow> write_entry F dir desktop_name (bytes_of (desktop_text exe)) d)"

definition unix_disable :: "(string \<Rightarrow> string option) \<Rightarrow> fault \<Rightarrow> disk \<Rightarrow> disk \<times> io_error_kind option" where
  "unix_disable env F d =
     (case desktop_dir env of Inl e \<Rightarrow> (d, Some e) | Inr dir \<Rightarrow> remove_entry F (path_join dir desktop_name) d)"

subsection \<open>Whichever it is\<close>

definition on_registry :: "('r \<Rightarrow> 'r \<times> 'e) \<Rightarrow> 'r login_state \<Rightarrow> 'r login_state \<times> 'e" where
  "on_registry f s = (case f (ls_registry s) of (r, e) \<Rightarrow> (s\<lparr>ls_registry := r\<rparr>, e))"

definition on_disk :: "(disk \<Rightarrow> disk \<times> 'e) \<Rightarrow> 'r login_state \<Rightarrow> 'r login_state \<times> 'e" where
  "on_disk f s = (case f (ls_disk s) of (d, e) \<Rightarrow> (s\<lparr>ls_disk := d\<rparr>, e))"

definition autostart_is_enabled :: "'r login_host \<Rightarrow> 'r login_state \<Rightarrow> bool" where
  "autostart_is_enabled H s =
     (case lh_platform H of
        Windows \<Rightarrow> windows_is_enabled (lh_registry H) (ls_registry s)
      | MacOs \<Rightarrow> mac_is_enabled (lh_variables H) (lh_fault H) (ls_disk s)
      | _ \<Rightarrow> unix_is_enabled (lh_variables H) (lh_fault H) (ls_disk s))"

definition autostart_set ::
  "'r login_host \<Rightarrow> bool \<Rightarrow> string \<Rightarrow> 'r login_state \<Rightarrow> 'r login_state \<times> io_error_kind option" where
  "autostart_set H enabled exe =
     (let env = lh_variables H; F = lh_fault H; W = lh_registry H in
      if enabled then
        (case lh_platform H of
           Windows \<Rightarrow> on_registry (windows_enable W exe)
         | MacOs \<Rightarrow> on_disk (mac_enable env F exe)
         | _ \<Rightarrow> on_disk (unix_enable env F exe))
      else
        (case lh_platform H of
           Windows \<Rightarrow> on_registry (windows_disable W)
         | MacOs \<Rightarrow> on_disk (mac_disable env F)
         | _ \<Rightarrow> on_disk (unix_disable env F)))"

section \<open>What the system makes of an entry\<close>

text \<open>
  The program each system starts for an entry, by the documented format of the entry: a Windows
  command line whose first argument may be in quotes, the first string of an array in a property
  list, and the \<^verbatim>\<open>Exec\<close> key of a desktop entry, whose words are separated by spaces.
\<close>

definition text_of :: "bytes \<Rightarrow> string" where
  "text_of bs = map (\<lambda>b. char_of (unat b)) bs"

lemma unat_of_char: "unat (of_char c :: u8) = of_char c"
proof -
  have "of_char c = (of_nat (of_char c) :: u8)" by (cases c) (simp add: of_char_def)
  then show ?thesis using nat_of_char_less_256 [of c] by (simp add: unat_of_nat)
qed

lemma text_of_bytes [simp]: "text_of (bytes_of s) = s"
  by (simp add: text_of_def bytes_of_def comp_def unat_of_char)

fun after :: "string \<Rightarrow> string \<Rightarrow> string option" where
  "after p [] = (if p = [] then Some [] else None)"
| "after p (c # cs) = (if take (length p) (c # cs) = p then Some (drop (length p) (c # cs)) else after p cs)"

definition first_argument :: "string \<Rightarrow> string" where
  "first_argument v =
     (case v of
        [] \<Rightarrow> []
      | c # rest \<Rightarrow> if c = CHR 0x22 then takeWhile (\<lambda>c. c \<noteq> CHR 0x22) rest else takeWhile (\<lambda>c. c \<noteq> CHR '' '') v)"

text \<open>Character data up to the next tag; none of the five references of XML is decoded, for none is written.\<close>

fun xml_text :: "string \<Rightarrow> string option" where
  "xml_text [] = None"
| "xml_text (c # cs) =
     (if c = CHR ''<'' then Some [] else if c = CHR ''&'' then None else map_option (\<lambda>t. c # t) (xml_text cs))"

definition plist_program :: "string \<Rightarrow> string option" where
  "plist_program t =
     Option.bind (Option.bind (after ''<array>'' t) (after ''<string>'')) xml_text"

definition exec_program :: "string \<Rightarrow> string option" where
  "exec_program t = map_option (takeWhile (\<lambda>c. c \<noteq> CHR '' '' \<and> c \<noteq> CHR 0x0A)) (after ''Exec='' t)"

definition read_entry :: "platform \<Rightarrow> string \<Rightarrow> string option" where
  "read_entry p v =
     (case p of Windows \<Rightarrow> Some (first_argument v) | MacOs \<Rightarrow> plist_program v | _ \<Rightarrow> exec_program v)"

text \<open>The directory, the file name and the text of the entry, where it is a file.\<close>

definition entry_file ::
  "'r login_host \<Rightarrow> io_error_kind + string \<times> string \<times> (string \<Rightarrow> string)" where
  "entry_file H =
     (case lh_platform H of
        MacOs \<Rightarrow> (case plist_dir (lh_variables H) of Inl e \<Rightarrow> Inl e | Inr dir \<Rightarrow> Inr (dir, plist_name, plist_text))
      | _ \<Rightarrow> (case desktop_dir (lh_variables H) of Inl e \<Rightarrow> Inl e | Inr dir \<Rightarrow> Inr (dir, desktop_name, desktop_text)))"

definition entry_path :: "'r login_host \<Rightarrow> string option" where
  "entry_path H =
     (if lh_platform H = Windows then None
      else case entry_file H of Inl _ \<Rightarrow> None | Inr (dir, name, _) \<Rightarrow> Some (path_join dir name))"

definition registry_value :: "'r registry \<Rightarrow> 'r \<Rightarrow> string option" where
  "registry_value W r = (case rg_get W ENTRY_NAME r of Inl _ \<Rightarrow> None | Inr v \<Rightarrow> Some v)"

definition entry_of :: "'r login_host \<Rightarrow> 'r login_state \<Rightarrow> string option" where
  "entry_of H s =
     (if lh_platform H = Windows then
        registry_value (lh_registry H) (ls_registry s)
      else Option.bind (entry_path H) (\<lambda>p. map_option text_of (ls_disk s p)))"

definition login_program :: "'r login_host \<Rightarrow> 'r login_state \<Rightarrow> string option" where
  "login_program H s = Option.bind (entry_of H s) (read_entry (lh_platform H))"

text \<open>Paths that stand for themselves in the format of the platform.\<close>

definition plain_path :: "platform \<Rightarrow> string \<Rightarrow> bool" where
  "plain_path p exe \<longleftrightarrow>
     (case p of
        Windows \<Rightarrow> CHR 0x22 \<notin> set exe
      | MacOs \<Rightarrow> set exe \<inter> {CHR ''<'', CHR ''&''} = {}
      | _ \<Rightarrow> set exe \<inter> ({CHR 0x09, CHR 0x0A, CHR '' '', CHR 0x22, CHR 0x27, CHR 0x5C} \<union> set ''<>~|&;$*?#()`%'') = {})"

lemma first_argument_quoted: "CHR 0x22 \<notin> set exe \<Longrightarrow> first_argument (in_quotes exe) = exe"
  by (auto simp: first_argument_def in_quotes_def takeWhile_append)

lemma xml_text_plain: "set exe \<inter> {CHR ''<'', CHR ''&''} = {} \<Longrightarrow> xml_text (exe @ CHR ''<'' # rest) = Some exe"
  by (induction exe) auto

lemma plist_program_written:
  assumes "set exe \<inter> {CHR ''<'', CHR ''&''} = {}"
  shows "plist_program (plist_text exe) = Some exe"
proof -
  have "after ''<array>'' (plist_text exe) =
      Some (CHR 0x0A # ''        <string>'' @ exe @ ''</string>'' @ [CHR 0x0A] @ text_of_lines plist_tail)"
    by (simp add: plist_text_def text_of_lines_def plist_head_def in_quotes_def)
  then show ?thesis using xml_text_plain [OF assms] by (simp add: plist_program_def)
qed

lemma exec_program_written:
  assumes "CHR '' '' \<notin> set exe" and "CHR 0x0A \<notin> set exe"
  shows "exec_program (desktop_text exe) = Some exe"
proof -
  have "after ''Exec='' (desktop_text exe) =
      Some (exe @ [CHR 0x0A] @ text_of_lines [''X-GNOME-Autostart-enabled=true''])"
    by (simp add: desktop_text_def text_of_lines_def ENTRY_NAME_def)
  moreover have "takeWhile (\<lambda>c. c \<noteq> CHR '' '' \<and> c \<noteq> CHR 0x0A) (exe @ [CHR 0x0A] @ rest) = exe" for rest
    using assms by (induction exe) auto
  ultimately show ?thesis by (simp add: exec_program_def)
qed

section \<open>The contract of a login entry\<close>

locale login_entry =
  fixes entry :: "'s \<Rightarrow> 'e option"
    and enabled readable :: "'s \<Rightarrow> bool"
    and written :: "string \<Rightarrow> 'e"
    and enable :: "string \<Rightarrow> 's \<Rightarrow> 's \<times> io_error_kind option"
    and disable :: "'s \<Rightarrow> 's \<times> io_error_kind option"
  assumes enabled_sound: "enabled s \<Longrightarrow> entry s \<noteq> None"
    and enabled_complete: "readable s \<Longrightarrow> entry s \<noteq> None \<Longrightarrow> enabled s"
    and enable_writes: "enable exe s = (s', None) \<Longrightarrow> entry s' = Some (written exe)"
    and disable_removes: "disable s = (s', None) \<Longrightarrow> entry s' = None"
begin

lemma switched:
  assumes "(if on then enable exe s else disable s) = (s', None)"
  shows "entry s' = (if on then Some (written exe) else None)"
  using assms enable_writes disable_removes by (cases on) auto

lemma shown:
  assumes "(if on then enable exe s else disable s) = (s', None)" and "readable s'"
  shows "enabled s' = on"
  using switched [OF assms(1)] enabled_sound [of s'] enabled_complete [OF assms(2)] by (cases on) auto

end

lemma write_entry_ok: "write_entry F dir name bs d = (d', None) \<Longrightarrow> d' = d(path_join dir name \<mapsto> bs)"
  by (auto simp: write_entry_def io_result_def fs_bind_def fs_create_dir_def fs_create_def fs_write_all_def
      split: option.splits sum.splits core_error.splits prod.splits)

lemma remove_entry_ok: "remove_entry F p d = (d', None) \<Longrightarrow> fails F (FsRemove p) \<noteq> Some NotFound \<Longrightarrow> d' p = None"
  by (auto simp: remove_entry_def fs_remove_def split: option.splits io_error_kind.splits if_splits)

text \<open>A file system that only says that a file is missing when it is.\<close>

definition honest :: "(fs_call \<Rightarrow> bool) \<Rightarrow> (fs_call \<Rightarrow> nat option) \<Rightarrow> fault" where
  "honest refuses tears = \<lparr>fails = (\<lambda>call. if refuses call then Some OtherIo else None), partial = tears\<rparr>"

lemma honest_fault: "(\<And>call. fails F call \<noteq> Some NotFound) \<Longrightarrow> F = honest (\<lambda>call. fails F call \<noteq> None) (partial F)"
  unfolding honest_def by (rule fault.equality) (auto intro!: ext, metis io_error_kind.exhaust)

interpretation file_entry: login_entry "\<lambda>d. d (path_join dir name)" "path_exists (honest refuses tears) (path_join dir name)"
  "\<lambda>d. \<not> refuses (FsRead (path_join dir name))" "\<lambda>exe. bytes_of (shape exe)"
  "\<lambda>exe. write_entry (honest refuses tears) dir name (bytes_of (shape exe))"
  "remove_entry (honest refuses tears) (path_join dir name)"
  for refuses :: "fs_call \<Rightarrow> bool" and tears :: "fs_call \<Rightarrow> nat option" and dir name :: string and shape :: "string \<Rightarrow> string"
  by unfold_locales
    (auto simp: path_exists_def honest_def dest: write_entry_ok remove_entry_ok split: if_splits)

text \<open>The documented behaviour of the registry.\<close>

definition registry_ok :: "'r registry \<Rightarrow> bool" where
  "registry_ok W \<longleftrightarrow>
     (\<forall>n v r r'. rg_set W n v r = (r', None) \<longrightarrow> rg_get W n r' = Inr v) \<and>
     (\<forall>n r r'. rg_delete W n r = (r', None) \<longrightarrow> rg_get W n r' = Inl NotFound) \<and>
     (\<forall>n r r'. rg_delete W n r = (r', Some NotFound) \<longrightarrow> rg_get W n r' = Inl NotFound)"

lemma registry_entry:
  assumes "registry_ok W"
  shows "login_entry (registry_value W) (windows_is_enabled W)
    (\<lambda>r. rg_open W False r = None) in_quotes (windows_enable W) (windows_disable W)"
  using assms unfolding registry_ok_def
  by unfold_locales
    (fastforce simp: registry_value_def windows_is_enabled_def windows_enable_def windows_disable_def
      split: option.splits sum.splits prod.splits io_error_kind.splits)+

section \<open>The entry of a host\<close>

definition entry_text :: "'r login_host \<Rightarrow> string \<Rightarrow> string" where
  "entry_text H = (case lh_platform H of Windows \<Rightarrow> in_quotes | MacOs \<Rightarrow> plist_text | _ \<Rightarrow> desktop_text)"

definition login_readable :: "'r login_host \<Rightarrow> 'r login_state \<Rightarrow> bool" where
  "login_readable H s \<longleftrightarrow>
     (if lh_platform H = Windows then rg_open (lh_registry H) False (ls_registry s) = None
      else \<forall>p. entry_path H = Some p \<longrightarrow> fails (lh_fault H) (FsRead p) = None)"

definition login_host_ok :: "'r login_host \<Rightarrow> bool" where
  "login_host_ok H \<longleftrightarrow> registry_ok (lh_registry H) \<and> (\<forall>call. fails (lh_fault H) call \<noteq> Some NotFound)"

lemma entry_file_text:
  "lh_platform H \<noteq> Windows \<Longrightarrow> entry_file H = Inr (dir, name, shape) \<Longrightarrow> shape = entry_text H"
  by (auto simp: entry_file_def entry_text_def split: platform.splits sum.splits)

lemmas autostart_defs = autostart_set_def autostart_is_enabled_def on_registry_def on_disk_def mac_is_enabled_def
  mac_enable_def mac_disable_def unix_is_enabled_def unix_enable_def unix_disable_def

lemma set_windows:
  assumes "lh_platform H = Windows"
  shows "autostart_set H True exe = on_registry (windows_enable (lh_registry H) exe)"
    and "autostart_set H False exe = on_registry (windows_disable (lh_registry H))"
    and "autostart_is_enabled H s = windows_is_enabled (lh_registry H) (ls_registry s)"
  using assms by (simp_all add: autostart_set_def autostart_is_enabled_def Let_def)

lemma set_no_file:
  assumes "lh_platform H \<noteq> Windows" and "entry_file H = Inl e"
  shows "autostart_set H on exe s = (s, Some e)" and "\<not> autostart_is_enabled H s"
  using assms by (auto simp: autostart_defs entry_file_def Let_def split: platform.splits sum.splits)

lemma set_file:
  assumes "lh_platform H \<noteq> Windows" and "entry_file H = Inr (dir, name, shape)"
  shows "autostart_set H True exe = on_disk (write_entry (lh_fault H) dir name (bytes_of (shape exe)))"
    and "autostart_set H False exe = on_disk (remove_entry (lh_fault H) (path_join dir name))"
    and "autostart_is_enabled H s = path_exists (lh_fault H) (path_join dir name) (ls_disk s)"
  using assms
  by (auto simp: autostart_defs entry_file_def Let_def fun_eq_iff split: platform.splits sum.splits prod.splits)

lemma host_login:
  assumes "login_host_ok H"
  shows "login_entry (entry_of H) (autostart_is_enabled H) (login_readable H) (entry_text H)
    (autostart_set H True) (autostart_set H False unused)"
proof (cases "lh_platform H = Windows")
  case True
  then have shape: "entry_text H = in_quotes" by (simp add: entry_text_def)
  have reg: "registry_ok (lh_registry H)" using assms by (simp add: login_host_ok_def)
  note laws = registry_entry [OF reg]
  have eqs: "entry_of H = (\<lambda>s. registry_value (lh_registry H) (ls_registry s))"
    "login_readable H = (\<lambda>s. rg_open (lh_registry H) False (ls_registry s) = None)"
    using True by (simp_all add: fun_eq_iff entry_of_def login_readable_def)
  show ?thesis
    unfolding shape eqs
    by unfold_locales
      (auto simp: set_windows [OF True] on_registry_def split: prod.splits
        dest: login_entry.enabled_sound [OF laws] login_entry.enable_writes [OF laws] login_entry.disable_removes [OF laws]
        intro: login_entry.enabled_complete [OF laws])
next
  case False
  show ?thesis
  proof (cases "entry_file H")
    case (Inl e)
    with False show ?thesis
      by unfold_locales (simp_all add: entry_of_def entry_path_def set_no_file [OF False Inl])
  next
    case (Inr found)
    obtain dir name where found: "entry_file H = Inr (dir, name, entry_text H)"
      using entry_file_text [OF False] Inr by (cases found) auto
    obtain refuses tears where F: "lh_fault H = honest refuses tears"
      using honest_fault [of "lh_fault H"] assms by (auto simp: login_host_ok_def)
    have eqs: "entry_of H = (\<lambda>s. map_option text_of (ls_disk s (path_join dir name)))"
      "login_readable H = (\<lambda>_. \<not> refuses (FsRead (path_join dir name)))"
      using False found by (simp_all add: fun_eq_iff entry_of_def entry_path_def login_readable_def F) (simp add: honest_def)
    show ?thesis
      unfolding eqs
      by unfold_locales
        (auto simp: set_file [OF False found] on_disk_def F split: prod.splits
          dest: file_entry.enabled_sound file_entry.enable_writes file_entry.disable_removes
          intro: file_entry.enabled_complete)
  qed
qed

lemma other_files_kept:
  assumes "autostart_set H on exe s = (s', e)" and "entry_path H \<noteq> Some p"
  shows "ls_disk s' p = ls_disk s p"
proof (cases "lh_platform H = Windows")
  case True
  then show ?thesis using assms(1) by (cases on) (auto simp: set_windows on_registry_def split: prod.splits)
next
  case False
  then show ?thesis
    using assms
    by (cases "entry_file H"; cases on)
      (auto simp: set_no_file set_file on_disk_def entry_path_def write_entry_def remove_entry_def io_result_def fs_bind_def
        fs_create_dir_def fs_create_def fs_write_all_def fs_remove_def torn_def
        split: if_splits prod.splits sum.splits option.splits core_error.splits io_error_kind.splits)
qed

lemma read_text_written:
  "plain_path (lh_platform H) exe \<Longrightarrow> read_entry (lh_platform H) (entry_text H exe) = Some exe"
  by (cases "lh_platform H")
    (auto simp: plain_path_def read_entry_def entry_text_def first_argument_quoted plist_program_written
      intro!: exec_program_written)

section \<open>The switch in the window\<close>

text \<open>
  \<^verbatim>\<open>update_settings\<close> of the window with the login entry of its host: what it asks of the system is
  what \<open>autostart_set\<close> does. The entry is outside the agent's own directory, so it has a disk of
  its own here.
\<close>

definition host_login_calls ::
  "'r login_host \<Rightarrow> (io_error_kind \<Rightarrow> string) \<Rightarrow> string + string \<Rightarrow> 'r login_state \<Rightarrow> login" where
  "host_login_calls LH show_io exe s =
     \<lparr>lg_executable = exe, lg_set = (\<lambda>on e. map_option show_io (snd (autostart_set LH on e s)))\<rparr>"

definition window_settings ::
  "host \<Rightarrow> 'r login_host \<Rightarrow> (io_error_kind \<Rightarrow> string) \<Rightarrow> string + string \<Rightarrow> ui_settings \<Rightarrow> core \<Rightarrow> 'r login_state
     \<Rightarrow> core \<times> 'r login_state \<times> (desktop_error + unit)" where
  "window_settings H LH show_io exe u c s =
     (case ui_update_settings H (host_login_calls LH show_io exe s) u c of
        (c, asked, res) \<Rightarrow> (c, fold (\<lambda>(on, e) s. fst (autostart_set LH on e s)) asked s, res))"

lemma settings_shared:
  assumes "update_settings H u c = (c', Inr x)"
  shows "\<exists>d'. co_doc c' = Some d' \<and> lww_value (settings d') = u"
proof (cases "co_doc c")
  case None
  then show ?thesis using assms by (simp add: update_settings_def mutate_def)
next
  case (Some d)
  from mutate_doc(1) [OF this, of H "\<lambda>origin. set_settings (h_now H) origin u"] assms show ?thesis
    by (simp add: update_settings_def edit_defs Let_def lww_new_def)
qed

lemma window_settings_done:
  assumes "window_settings H LH show_io (Inr exe) u c s = (c', s', Inr ())"
  shows "autostart_set LH (us_autostart u) exe s = (s', None)"
    and "\<exists>d'. co_doc c' = Some d' \<and> autostart (lww_value (settings d')) = us_autostart u"
  using assms
  by (auto simp: window_settings_def ui_update_settings_def host_login_calls_def Let_def
      split: prod.splits option.splits sum.splits if_splits dest!: settings_shared)
    (simp_all add: prod_eq_iff)

section \<open>Properties\<close>


text \<open>A registry that is a map, and a Mac on which it is not used.\<close>

definition map_registry :: "(string \<Rightarrow> string option) registry" where
  "map_registry = \<lparr>rg_open = (\<lambda>_ _. None),
     rg_get = (\<lambda>n r. case r n of None \<Rightarrow> Inl NotFound | Some v \<Rightarrow> Inr v),
     rg_set = (\<lambda>n v r. (r(n \<mapsto> v), None)),
     rg_delete = (\<lambda>n r. if r n = None then (r, Some NotFound) else (r(n := None), None))\<rparr>"

definition sample_mac :: "(string \<Rightarrow> string option) login_host" where
  "sample_mac = \<lparr>lh_platform = MacOs, lh_variables = [''HOME'' \<mapsto> ''/Users/a''], lh_fault = no_fault,
     lh_registry = map_registry\<rparr>"

definition login_on :: ui_settings where
  "login_on = \<lparr>us_clipboard_sync = True, us_offline_edge = ''block'', us_discovery_port = 1, us_transport_port = 2,
     us_autostart = True\<rparr>"

lemma map_registry_ok: "registry_ok map_registry"
  by (auto simp: registry_ok_def map_registry_def split: option.splits if_splits)


text \<open>Where it does not: a path with a space on Linux, and one with an ampersand on macOS.\<close>

theorem exec_line_stops_at_space:
  assumes "CHR '' '' \<notin> set w" and "CHR 0x0A \<notin> set w"
  shows "exec_program (desktop_text (w @ CHR '' '' # rest)) = Some w"
proof -
  have "after ''Exec='' (desktop_text (w @ CHR '' '' # rest)) =
      Some (w @ CHR '' '' # rest @ [CHR 0x0A] @ text_of_lines [''X-GNOME-Autostart-enabled=true''])"
    by (simp add: desktop_text_def text_of_lines_def ENTRY_NAME_def)
  moreover have "takeWhile (\<lambda>c. c \<noteq> CHR '' '' \<and> c \<noteq> CHR 0x0A) (w @ CHR '' '' # l) = w" for l
    using assms by (induction w) auto
  ultimately show ?thesis by (simp add: exec_program_def)
qed

text \<open>An empty \<^verbatim>\<open>XDG_CONFIG_HOME\<close> counts as set, and the entry goes below the current directory.\<close>

theorem empty_config_home_is_relative:
  "env ''XDG_CONFIG_HOME'' = Some [] \<Longrightarrow> desktop_dir env = Inr ''autostart''"
  by (simp add: desktop_dir_def path_join_def)

text \<open>
  A write that fails after the file was created leaves an entry that says nothing, and the
  window reads it as on.
\<close>

theorem failed_entry_reads_as_on:
  assumes "lh_platform LH \<noteq> Windows" and "entry_file LH = Inr (dir, name, shape)" and "p = path_join dir name"
    and "lh_fault LH = honest (\<lambda>call. call = FsWrite p) Map.empty"
  shows "\<exists>s'. autostart_set LH True exe s = (s', Some OtherIo) \<and> autostart_is_enabled LH s' \<and> ls_disk s' p = Some []"
  using assms
  by (simp add: set_file on_disk_def write_entry_def io_result_def fs_bind_def
      fs_create_dir_def fs_create_def fs_write_all_def honest_def path_exists_def torn_def)

text \<open>Turning the entry off fails where it was never on, if the user has no \<^verbatim>\<open>Run\<close> key yet.\<close>

theorem disable_needs_run_key:
  assumes "lh_platform LH = Windows" and "rg_open (lh_registry LH) True (ls_registry s) = Some NotFound"
  shows "autostart_set LH False exe s = (s, Some NotFound)"
  using assms by (simp add: set_windows on_registry_def windows_disable_def)

end
