(* ===== verification/Command_Line.thy ===== *)
theory Command_Line
  imports Agent
begin

text \<open>
  The command line (\<^verbatim>\<open>crates/is-cli/src/main.rs\<close>): it creates, extends, shows and routes against
  the configuration the agent uses, through the same store.

  A command is an action on the disk that prints lines and ends with a value, an error or a
  panic. The process it runs in is the record \<open>cli_env\<close>: the \<open>host\<close> of the agent's model, the
  directory the crate \<^verbatim>\<open>directories\<close> answers, the directory for temporary files, the identities
  \<^verbatim>\<open>Identity::generate\<close> will draw, and how identifiers and errors are shown. All readings of the
  clock in one run are the same. Strings are UTF-8.
\<close>

section \<open>Commands\<close>

datatype line = Printed string | Complained string

datatype cli_failure = CliError core_error | Panicked string

type_synonym 'a cli = "disk \<Rightarrow> disk \<times> line list \<times> (cli_failure + 'a)"

definition cli_return :: "'a \<Rightarrow> 'a cli" where
  "cli_return x d = (d, [], Inr x)"

definition cli_bind :: "'a cli \<Rightarrow> ('a \<Rightarrow> 'b cli) \<Rightarrow> 'b cli" where
  "cli_bind m k d =
     (case m d of
        (d, ls, Inl e) \<Rightarrow> (d, ls, Inl e)
      | (d, ls, Inr x) \<Rightarrow> (case k x d of (d, ls', r) \<Rightarrow> (d, ls @ ls', r)))"

definition print_lines :: "string list \<Rightarrow> unit cli" where
  "print_lines ls d = (d, map Printed ls, Inr ())"

definition cli_fs :: "'a fs \<Rightarrow> 'a cli" where
  "cli_fs m d = (case m d of (d, Inl e) \<Rightarrow> (d, [], Inl (CliError e)) | (d, Inr x) \<Rightarrow> (d, [], Inr x))"

record cli_env =
  ce_host :: host
  ce_project_dir :: "string option"
  ce_temp_dir :: string
  ce_demo_exists :: bool
  ce_peer :: identity
  ce_second_peer :: identity
  ce_show_id :: "128 word \<Rightarrow> string"
  ce_show_error :: "core_error \<Rightarrow> string"

section \<open>Reading numbers\<close>

text \<open>\<^verbatim>\<open>str::parse::<i32>\<close>: an optional sign, at least one digit, and no overflow.\<close>

definition parse_i32 :: "string \<Rightarrow> i32 option" where
  "parse_i32 s =
     (let negative = (s \<noteq> [] \<and> hd s = CHR ''-'');
          digits = (if s \<noteq> [] \<and> hd s \<in> {CHR ''-'', CHR ''+''} then tl s else s)
      in if digits = [] then None
         else case digits_value digits 0 of
           None \<Rightarrow> None
         | Some n \<Rightarrow>
             if negative then (if n \<le> 2147483648 then Some (- of_nat n) else None)
             else if n < 2147483648 then Some (of_nat n) else None)"

section \<open>Showing\<close>

definition show_i32 :: "i32 \<Rightarrow> string" where
  "show_i32 x = signed_decimal (sint x)"

definition show_point :: "i32 \<Rightarrow> i32 \<Rightarrow> string" where
  "show_point x y = ''('' @ show_i32 x @ '', '' @ show_i32 y @ '')''"

text \<open>\<^verbatim>\<open>{:<n}\<close> pads to a number of characters; in UTF-8 these are the bytes that begin one.\<close>

definition padded :: "nat \<Rightarrow> string \<Rightarrow> string" where
  "padded n s = s @ replicate (n - length (filter (\<lambda>c. of_char c < (128 :: nat) \<or> 192 \<le> (of_char c :: nat)) s)) CHR '' ''"

definition long_dash :: string where "long_dash = map char_of [0xE2 :: nat, 0x80, 0x94]"
definition filled_circle :: string where "filled_circle = map char_of [0xE2 :: nat, 0x97, 0x8F]"
definition open_circle :: string where "open_circle = map char_of [0xE2 :: nat, 0x97, 0x8B]"

definition topology_line :: "machine_id set \<Rightarrow> machine_id \<Rightarrow> machine_record \<Rightarrow> string" where
  "topology_line online self m =
     (let (glyph, status) = (if mr_id m \<in> online then (filled_circle, ''online'') else (open_circle, ''offline''));
          here = (if mr_id m = self then ''  (this machine)'' else '''');
          covered = (case bounds m of
              Some b \<Rightarrow> ''x '' @ show_i32 (rx b) @ ''..'' @ show_i32 (max_x b) @ '', y '' @ show_i32 (ry b) @ ''..'' @ show_i32 (max_y b)
            | None \<Rightarrow> ''no displays reported'')
      in ''   '' @ glyph @ '' '' @ padded 14 (mr_display_name m) @ '' '' @ padded 8 status @ '' '' @ covered @ here)"

definition print_topology :: "workspace_doc \<Rightarrow> machine_id set \<Rightarrow> machine_id \<Rightarrow> string list" where
  "print_topology d online self =
     map (topology_line online self) (sort_key (\<lambda>m. (sint (py (mr_position m)), sint (px (mr_position m)))) (machines_present d))"

definition name_of :: "(128 word \<Rightarrow> string) \<Rightarrow> workspace_doc \<Rightarrow> machine_id \<Rightarrow> string" where
  "name_of show_id d i = (case machine i d of Some m \<Rightarrow> mr_display_name m | None \<Rightarrow> show_id i)"

definition describe_route ::
  "(128 word \<Rightarrow> string) \<Rightarrow> workspace_doc \<Rightarrow> machine_id set \<Rightarrow> machine_id \<Rightarrow> point \<Rightarrow> string" where
  "describe_route show_id d online origin target =
     ''   cursor to '' @ show_point (px target) (py target) @
     (case resolve_cursor d online origin target of
        Stay p \<Rightarrow> '' -> stays on '' @ name_of show_id d origin @ '' at '' @ show_point (px p) (py p)
      | Move i p \<Rightarrow> '' -> hands off to '' @ name_of show_id d i @ '' at '' @ show_point (px p) (py p))"

section \<open>The commands\<close>

definition usage_text :: "string list" where
  "usage_text = [''inputshare <command>'', '''',
     ''  demo                 walk the workspace through create, reboot and an offline peer'',
     ''  status               show this machine and the stored workspace'',
     ''  init <name>          create a workspace with this machine as its first member'',
     ''  add <name> <x> <y>   add a machine at a position, in workspace pixels'',
     ''  route <x> <y>        resolve a cursor move from this machine to a point'', '''',
     ''Config lives in the platform config directory, or INPUTSHARE_CONFIG_DIR if set.'']"

definition usage :: "string \<Rightarrow> unit cli" where
  "usage problem d =
     (d, map Complained ((if problem = [] then [] else [problem, '''']) @ usage_text), Inr ())"

definition placeholder_display :: display_info where
  "placeholder_display = \<lparr>di_id = ''display-0'', di_name = ''Primary (placeholder)'', di_x = 0, di_y = 0,
     di_width = 1920, di_height = 1080, di_scale = 0x3F800000, di_primary = True\<rparr>"

definition cli_record ::
  "u64 \<Rightarrow> machine_id \<Rightarrow> string \<Rightarrow> point \<Rightarrow> pub_key \<Rightarrow> platform \<Rightarrow> machine_record" where
  "cli_record now i name position key p = \<lparr>mr_id = i, mr_display_name = name, mr_platform = p,
     mr_public_key = key, mr_position = position, mr_displays = [placeholder_display],
     mr_input = \<lparr>provides_keyboard = True, provides_mouse = True\<rparr>, mr_paired_at_ms = now\<rparr>"

definition local_name :: "host \<Rightarrow> string" where
  "local_name H =
     (case (case h_variables H ''COMPUTERNAME'' of Some n \<Rightarrow> Some n | None \<Rightarrow> h_variables H ''HOSTNAME'') of
        Some n \<Rightarrow> n
      | None \<Rightarrow> ''This machine'')"

text \<open>How every command but \<^verbatim>\<open>demo\<close> and \<^verbatim>\<open>usage\<close> begins: the store and the identity.\<close>

definition cli_store :: "cli_env \<Rightarrow> store cli" where
  "cli_store E = cli_fs (\<lambda>d. (d, store_open (h_fault (ce_host E)) (h_variables (ce_host E)) (ce_project_dir E)))"

definition cli_identity :: "cli_env \<Rightarrow> store \<Rightarrow> identity cli" where
  "cli_identity E st = cli_fs (load_or_create_identity (h_fault (ce_host E)) (h_identity_codec (ce_host E))
     (h_new_identity (ce_host E)) st)"

definition cli_workspace :: "cli_env \<Rightarrow> store \<Rightarrow> workspace_doc option cli" where
  "cli_workspace E st = cli_fs (\<lambda>d. (d, load_workspace (h_fault (ce_host E)) (h_doc_codec (ce_host E)) st d))"

definition cli_save :: "cli_env \<Rightarrow> store \<Rightarrow> workspace_doc \<Rightarrow> unit cli" where
  "cli_save E st doc = cli_fs (save_workspace (h_fault (ce_host E)) (h_doc_codec (ce_host E)) st doc)"

definition quoted :: "string \<Rightarrow> string" where
  "quoted s = CHR 0x22 # s @ [CHR 0x22]"

definition cli_init :: "cli_env \<Rightarrow> string \<Rightarrow> unit cli" where
  "cli_init E name =
     (let H = ce_host E in
      cli_bind (cli_store E) (\<lambda>st.
      cli_bind (cli_identity E st) (\<lambda>self.
      cli_bind (cli_workspace E st) (\<lambda>stored.
      case stored of
        Some existing \<Rightarrow>
          print_lines [''already in workspace '' @ quoted (lww_value (doc_name existing)) @ '' ('' @
            ce_show_id E (doc_workspace_id existing) @ ''). Nothing to do.'']
      | None \<Rightarrow>
          let doc = create (h_now H) (h_new_workspace H) name
                (cli_record (h_now H) (id_machine_id self) (local_name H) (point_new 0 0)
                  (public_key (h_crypto H) self) (h_platform H))
          in cli_bind (cli_save E st doc) (\<lambda>_.
             print_lines [''created workspace '' @ quoted (lww_value (doc_name doc)) @ '' ('' @
                 ce_show_id E (doc_workspace_id doc) @ '')'',
               ''stored in '' @ store_dir st])))))"

definition no_workspace_line :: string where
  "no_workspace_line = ''no workspace yet '' @ long_dash @ '' run `inputshare init <name>` first''"

definition cli_add :: "cli_env \<Rightarrow> string \<Rightarrow> point \<Rightarrow> unit cli" where
  "cli_add E name position =
     (let H = ce_host E in
      cli_bind (cli_store E) (\<lambda>st.
      cli_bind (cli_identity E st) (\<lambda>self.
      cli_bind (cli_workspace E st) (\<lambda>stored.
      case stored of
        None \<Rightarrow> print_lines [no_workspace_line]
      | Some doc \<Rightarrow>
          let peer = ce_peer E;
              r = cli_record (h_now H) (id_machine_id peer) name position (public_key (h_crypto H) peer) OtherPlatform
          in cli_bind (cli_save E st (fst (upsert_machine (h_now H) (id_machine_id self) r doc))) (\<lambda>_.
             print_lines [''added '' @ quoted name @ '' at '' @ show_point (px position) (py position)])))))"

definition cli_status :: "cli_env \<Rightarrow> unit cli" where
  "cli_status E =
     cli_bind (cli_store E) (\<lambda>st.
     cli_bind (cli_identity E st) (\<lambda>self.
     cli_bind (print_lines [''machine   '' @ ce_show_id E (id_machine_id self),
       ''key       '' @ fingerprint (h_crypto (ce_host E)) (public_key (h_crypto (ce_host E)) self),
       ''config    '' @ store_dir st]) (\<lambda>_.
     cli_bind (cli_workspace E st) (\<lambda>stored.
     case stored of
       None \<Rightarrow> print_lines ['''', ''not in a workspace yet '' @ long_dash @ '' run `inputshare init <name>`'']
     | Some doc \<Rightarrow>
         print_lines (['''', ''workspace '' @ quoted (lww_value (doc_name doc)) @ '' ('' @
             ce_show_id E (doc_workspace_id doc) @ ''), revision '' @ decimal (unat (doc_lamport doc))] @
           print_topology doc {id_machine_id self} (id_machine_id self) @
           ['''', ''Peers show offline because discovery is not implemented yet.''])))))"

definition cli_route :: "cli_env \<Rightarrow> point \<Rightarrow> unit cli" where
  "cli_route E target =
     cli_bind (cli_store E) (\<lambda>st.
     cli_bind (cli_identity E st) (\<lambda>self.
     cli_bind (cli_workspace E st) (\<lambda>stored.
     case stored of
       None \<Rightarrow> print_lines [no_workspace_line]
     | Some doc \<Rightarrow> print_lines [describe_route (ce_show_id E) doc {id_machine_id self} (id_machine_id self) target])))"

section \<open>The demonstration\<close>

text \<open>\<^verbatim>\<open>remove_dir_all\<close>: nothing below the directory is left.\<close>

definition remove_dir :: "fault \<Rightarrow> string \<Rightarrow> unit fs" where
  "remove_dir F dir d =
     (case fails F (FsRemove dir) of
        Some k \<Rightarrow> (d, Inl (Io dir k))
      | None \<Rightarrow> (\<lambda>p. if take (length dir + 1) p = dir @ ''/'' then None else d p, Inr ()))"

definition show_bool :: "bool \<Rightarrow> string" where
  "show_bool b = (if b then ''true'' else ''false'')"

text \<open>The three machines of the demonstration.\<close>

definition demo_pc1 :: "cli_env \<Rightarrow> identity \<Rightarrow> machine_record" where
  "demo_pc1 E self = (let H = ce_host E in
     cli_record (h_now H) (id_machine_id self) ''PC1'' (point_new 0 0) (public_key (h_crypto H) self) (h_platform H))"

definition demo_mac :: "cli_env \<Rightarrow> machine_record" where
  "demo_mac E = (let H = ce_host E in
     cli_record (h_now H) (id_machine_id (ce_peer E)) ''Mac'' (point_new (- 1920) 0) (public_key (h_crypto H) (ce_peer E)) MacOs)"

definition demo_pc2 :: "cli_env \<Rightarrow> machine_record" where
  "demo_pc2 E = (let H = ce_host E in
     cli_record (h_now H) (id_machine_id (ce_second_peer E)) ''PC2'' (point_new 0 (- 1080)) (public_key (h_crypto H) (ce_second_peer E)) Windows)"

definition demo_doc :: "cli_env \<Rightarrow> identity \<Rightarrow> workspace_doc" where
  "demo_doc E self =
     (let H = ce_host E; pc1 = demo_pc1 E self;
          doc = create (h_now H) (h_new_workspace H) ''My Desk'' pc1;
          doc = fst (upsert_machine (h_now H) (mr_id pc1) (demo_mac E) doc)
      in fst (upsert_machine (h_now H) (mr_id pc1) (demo_pc2 E) doc))"

text \<open>Steps 4 to 6: routing with PC2 off, on, and off again with the other behaviour at edges.\<close>

definition demo_routing :: "cli_env \<Rightarrow> machine_id \<Rightarrow> workspace_doc \<Rightarrow> workspace_doc \<Rightarrow> string list" where
  "demo_routing E self doc skipping =
     (let show_id = ce_show_id E; mac = mr_id (demo_mac E); pc2 = mr_id (demo_pc2 E);
          without_pc2 = {self, mac}; everyone = {self, mac, pc2}
      in ['''', ''4. PC2 powered off''] @ print_topology doc without_pc2 self @
         [''   routing from PC1:'',
          describe_route show_id doc without_pc2 self (point_new 800 (- 10)),
          describe_route show_id doc without_pc2 self (point_new (- 5) 400),
          '''', ''5. PC2 back online''] @ print_topology doc everyone self @
         [''   routing from PC1:'',
          describe_route show_id doc everyone self (point_new 800 (- 10)),
          '''', ''6. same edge with offline_edge = skip_over'',
          describe_route show_id skipping without_pc2 self (point_new 800 (- 10)),
          ''   (nothing is configured beyond PC2, so it still stops)''])"

text \<open>Steps 7 and 8: the Mac is moved and saved, a stale copy is merged, and the pointer has to go somewhere.\<close>

definition demo_conflict ::
  "cli_env \<Rightarrow> store \<Rightarrow> machine_id \<Rightarrow> workspace_doc \<Rightarrow> workspace_doc \<Rightarrow> unit cli" where
  "demo_conflict E st self stale doc =
     (let mac = mr_id (demo_mac E); pc2 = mr_id (demo_pc2 E) in
      cli_bind (cli_save E st doc) (\<lambda>_.
      cli_bind (print_lines ['''',
        ''7. Mac moved from left-of-PC1 to below-PC1, revision '' @ decimal (unat (doc_lamport doc))]) (\<lambda>_.
      case merge_doc doc stale of
        Inl e \<Rightarrow> (\<lambda>d. (d, [], Inl (CliError e)))
      | Inr (doc, changed) \<Rightarrow>
          (case machine mac doc of
             None \<Rightarrow> (\<lambda>d. (d, [], Inl (Panicked ''the Mac is still a member'')))
           | Some mac_now \<Rightarrow>
               print_lines [
                 ''   PC2 reconnects with revision '' @ decimal (unat (doc_lamport stale)),
                 ''   stale copy changed anything: '' @ show_bool changed,
                 ''   Mac position stays '' @ show_point (px (mr_position mac_now)) (py (mr_position mac_now)),
                 '''', ''8. cursor ownership'',
                 ''   PC2 held the cursor and went offline -> '' @
                   (case Option.bind (fallback_owner doc {self, mac} pc2) (\<lambda>i. machine i doc) of
                      Some m \<Rightarrow> mr_display_name m | None \<Rightarrow> ''nobody online''),
                 '''', ''Done. Discovery, transport and input capture are not built yet.'']))))"

definition demo_dir :: "cli_env \<Rightarrow> string" where
  "demo_dir E = ce_temp_dir E @ ''/inputshare-demo''"

definition cli_demo :: "cli_env \<Rightarrow> unit cli" where
  "cli_demo E =
     (let H = ce_host E; now = h_now H; F = h_fault H in
      cli_bind (if ce_demo_exists E then cli_fs (remove_dir F (demo_dir E)) else cli_return ()) (\<lambda>_.
      cli_bind (cli_fs (\<lambda>d. (d, store_at F (demo_dir E)))) (\<lambda>st.
      cli_bind (print_lines [''InputShare demo'', ''config '' @ store_dir st, '''']) (\<lambda>_.
      cli_bind (cli_identity E st) (\<lambda>self.
      cli_bind (cli_identity E st) (\<lambda>again.
      cli_bind (print_lines [''1. machine identity'', ''   id          '' @ ce_show_id E (id_machine_id self),
        ''   key         '' @ fingerprint (h_crypto H) (public_key (h_crypto H) self),
        ''   stable      '' @ show_bool (id_machine_id self = id_machine_id again), '''']) (\<lambda>_.
      let me = id_machine_id self; doc = demo_doc E self; mac = mr_id (demo_mac E); pc2 = mr_id (demo_pc2 E) in
      cli_bind (cli_save E st doc) (\<lambda>_.
      cli_bind (print_lines ((''2. workspace '' @ quoted (lww_value (doc_name doc)) @ '' at revision '' @
          decimal (unat (doc_lamport doc))) # print_topology doc {me, mac, pc2} me)) (\<lambda>_.
      cli_bind (cli_fs (\<lambda>d. (d, store_at F (demo_dir E)))) (\<lambda>rebooted.
      cli_bind (cli_workspace E rebooted) (\<lambda>stored.
      case stored of
        None \<Rightarrow> (\<lambda>d. (d, [], Inl (Panicked ''the workspace was persisted'')))
      | Some loaded \<Rightarrow>
          let skipping = fst (set_settings now me (workspace_settings_default\<lparr>offline_edge := SkipOver\<rparr>) loaded);
              stale = fst (set_settings now me workspace_settings_default skipping);
              moved = (demo_mac E)\<lparr>mr_position := point_new 0 1080\<rparr>
          in cli_bind (print_lines (['''', ''3. after a reboot (reloaded from disk)'',
               ''   workspace   '' @ quoted (lww_value (doc_name loaded)) @ '' ('' @ ce_show_id E (doc_workspace_id loaded) @ '')'',
               ''   revision    '' @ decimal (unat (doc_lamport loaded)),
               ''   machines    '' @ decimal (length (machines_present loaded))] @
               demo_routing E me loaded skipping)) (\<lambda>_.
             demo_conflict E st me stale (fst (upsert_machine now me moved stale))))))))))))))"

section \<open>The entry point\<close>

definition cli_command :: "cli_env \<Rightarrow> string list \<Rightarrow> unit cli" where
  "cli_command E args =
     (let command = (case args of [] \<Rightarrow> ''demo'' | c # _ \<Rightarrow> c) in
      if command = ''demo'' then cli_demo E
      else if command = ''status'' then cli_status E
      else if command = ''init'' then
        (case args of _ # name # _ \<Rightarrow> cli_init E name | _ \<Rightarrow> usage ''init needs a workspace name'')
      else if command = ''add'' then
        (case args of
           _ # name # x # y # _ \<Rightarrow>
             (case (parse_i32 x, parse_i32 y) of
                (Some x, Some y) \<Rightarrow> cli_add E name (point_new x y)
              | _ \<Rightarrow> usage ''add needs integer x and y'')
         | _ \<Rightarrow> usage ''add needs a name, an x and a y'')
      else if command = ''route'' then
        (case args of
           _ # x # y # _ \<Rightarrow>
             (case (parse_i32 x, parse_i32 y) of
                (Some x, Some y) \<Rightarrow> cli_route E (point_new x y)
              | _ \<Rightarrow> usage ''route needs integer x and y'')
         | _ \<Rightarrow> usage ''route needs an x and a y'')
      else if command \<in> {''help'', ''--help'', ''-h''} then usage ''''
      else usage (''unknown command: '' @ command))"

datatype exit_code = ExitSuccess | ExitFailure | ExitPanic

definition cli_main :: "cli_env \<Rightarrow> string list \<Rightarrow> disk \<Rightarrow> disk \<times> line list \<times> exit_code" where
  "cli_main E args d =
     (case cli_command E args d of
        (d, ls, Inr _) \<Rightarrow> (d, ls, ExitSuccess)
      | (d, ls, Inl (CliError e)) \<Rightarrow> (d, ls @ [Complained (''error: '' @ ce_show_error E e)], ExitFailure)
      | (d, ls, Inl (Panicked _)) \<Rightarrow> (d, ls, ExitPanic))"

section \<open>Numbers\<close>

lemma decimal_first: "hd (decimal n) \<notin> {CHR ''-'', CHR ''+''}"
proof (induction n rule: decimal.induct)
  case (1 n)
  show ?case
  proof (cases "n < 10")
    case True
    have "char_of (48 + n) \<noteq> c" if "of_char c < (48 :: nat)" for c :: char
      using that True by (auto dest: arg_cong [of _ _ "of_char :: char \<Rightarrow> nat"])
    with True show ?thesis by (subst decimal.simps) simp
  next
    case False
    then show ?thesis using 1 decimal_nonempty by (subst decimal.simps) (simp del: decimal.simps)
  qed
qed

text \<open>A coordinate that is shown can be typed in again.\<close>

lemma parse_shown: "parse_i32 (show_i32 x) = Some x"
proof -
  have bounds: "- 2147483648 \<le> sint x" "sint x < 2147483648"
    using sint_greater_eq [of x] sint_lt [of x] by simp_all
  show ?thesis
  proof (cases "sint x < 0")
    case True
    then have "- of_nat (nat (- sint x)) = x" by (simp add: of_nat_nat)
    with True bounds show ?thesis
      by (simp add: show_i32_def parse_i32_def signed_decimal_def Let_def digits_value_decimal decimal_nonempty
          nat_le_iff del: decimal.simps)
  next
    case False
    then have "of_nat (nat (sint x)) = x" by simp
    with False bounds decimal_first [of "nat (sint x)"] show ?thesis
      by (simp add: show_i32_def parse_i32_def signed_decimal_def Let_def digits_value_decimal decimal_nonempty
          nat_less_iff del: decimal.simps)
  qed
qed

section \<open>What a command does to the configuration\<close>

definition works :: "cli_env \<Rightarrow> bool" where
  "works E \<longleftrightarrow> h_fault (ce_host E) = no_fault \<and>
     store_open no_fault (h_variables (ce_host E)) (ce_project_dir E) = Inr (h_store (ce_host E))"

definition configured :: "cli_env \<Rightarrow> identity \<Rightarrow> workspace_doc \<Rightarrow> disk \<Rightarrow> bool" where
  "configured E i doc d \<longleftrightarrow>
     read_with_fallback no_fault (h_identity_codec (ce_host E)) (h_store (ce_host E)) IDENTITY_FILE d = Inr (Some i) \<and>
     load_workspace no_fault (h_doc_codec (ce_host E)) (h_store (ce_host E)) d = Inr (Some doc)"

text \<open>The abstract effect of a command on a configuration: only a well-formed \<^verbatim>\<open>add\<close> has one.\<close>

definition founding :: "cli_env \<Rightarrow> identity \<Rightarrow> string \<Rightarrow> workspace_doc" where
  "founding E i name = (let H = ce_host E in create (h_now H) (h_new_workspace H) name
     (cli_record (h_now H) (id_machine_id i) (local_name H) (point_new 0 0) (public_key (h_crypto H) i) (h_platform H)))"

definition added :: "cli_env \<Rightarrow> identity \<Rightarrow> string \<Rightarrow> point \<Rightarrow> workspace_doc \<Rightarrow> workspace_doc" where
  "added E i name p doc = (let H = ce_host E in fst (upsert_machine (h_now H) (id_machine_id i)
     (cli_record (h_now H) (id_machine_id (ce_peer E)) name p (public_key (h_crypto H) (ce_peer E)) OtherPlatform) doc))"

definition effect :: "identity \<Rightarrow> cli_env \<times> string list \<Rightarrow> workspace_doc \<Rightarrow> workspace_doc" where
  "effect i run doc =
     (case run of
        (E, [_]) \<Rightarrow> doc
      | (E, c # name # x # y # _) \<Rightarrow>
          if c = ''add'' then
            (case (parse_i32 x, parse_i32 y) of (Some x, Some y) \<Rightarrow> added E i name (point_new x y) doc | _ \<Rightarrow> doc)
          else doc
      | _ \<Rightarrow> doc)"

definition cli_runs :: "(cli_env \<times> string list) list \<Rightarrow> disk \<Rightarrow> disk" where
  "cli_runs runs d = fold (\<lambda>(E, args) d. fst (cli_main E args d)) runs d"

lemmas cli_defs = cli_bind_def cli_return_def print_lines_def cli_fs_def cli_store_def cli_identity_def
  cli_workspace_def cli_save_def

lemma works_simps:
  "works E \<Longrightarrow> cli_store E d = (d, [], Inr (h_store (ce_host E)))"
  "works E \<Longrightarrow> h_fault (ce_host E) = no_fault"
  by (simp_all add: works_def cli_defs)

lemma configured_simps:
  assumes "works E" and "configured E i doc d"
  shows "cli_identity E (h_store (ce_host E)) d = (d, [], Inr i)"
    "cli_workspace E (h_store (ce_host E)) d = (d, [], Inr (Some doc))"
  using assms by (simp_all add: configured_def works_def cli_defs load_or_create_identity_def)

lemma save_configured:
  assumes "works E" and "read_with_fallback no_fault (h_identity_codec (ce_host E)) (h_store (ce_host E)) IDENTITY_FILE d = Inr (Some i)"
    and "reads_back (h_doc_codec (ce_host E)) doc" and "schema_version doc \<le> SCHEMA_VERSION"
  shows "\<exists>d'. cli_save E (h_store (ce_host E)) doc d = (d', [], Inr ()) \<and> configured E i doc d'"
proof -
  let ?H = "ce_host E"
  obtain b where b: "enc (h_doc_codec ?H) doc = Some b" using assms(3) by (auto simp: reads_back_def)
  obtain d' where w: "write_atomic no_fault (h_doc_codec ?H) (h_store ?H) WORKSPACE_FILE doc d = (d', Inr ())"
    using write_atomic_no_fault [OF b] by blast
  have "read_json F c (file_path (h_store ?H) n) d' = read_json F c (file_path (h_store ?H) n) d"
    if "n \<in> {IDENTITY_FILE, IDENTITY_FILE @ ''.bak''}" for n F and c :: "identity codec"
    using write_atomic_frame [OF w, of "file_path (h_store ?H) n"] that
    by (intro read_json_same) (auto simp: IDENTITY_FILE_def WORKSPACE_FILE_def)
  then have "read_with_fallback no_fault (h_identity_codec ?H) (h_store ?H) IDENTITY_FILE d' = Inr (Some i)"
    using assms(2) by (simp add: read_with_fallback_def split: sum.splits)
  then show ?thesis
    using w read_after_write [OF assms(3) w] assms(1,4)
    by (simp add: configured_def cli_save_def cli_fs_def save_workspace_def works_def load_workspace_def)
qed

lemma added_schema [simp]: "schema_version (added E i name p doc) = schema_version doc"
  by (simp add: added_def Let_def upsert_machine_def tick_def split_def)

lemma configured_schema: "configured E i doc d \<Longrightarrow> schema_version doc \<le> SCHEMA_VERSION"
  by (auto simp: configured_def load_workspace_def split: sum.splits option.splits if_splits)

lemma command_effect:
  assumes "works E" and "configured E i doc d" and "args \<noteq> []" and "hd args \<noteq> ''demo''"
    and "reads_back (h_doc_codec (ce_host E)) (effect i (E, args) doc)"
  shows "\<exists>d' ls. cli_main E args d = (d', ls, ExitSuccess) \<and> configured E i (effect i (E, args) doc) d'"
proof -
  note simps = works_simps(1) [OF assms(1)] configured_simps [OF assms(1,2)]
  have usage: "\<exists>ls. usage p d = (d, ls, Inr ())" for p by (simp add: usage_def)
  have same: ?thesis if "\<exists>ls. cli_command E args d = (d, ls, Inr ())" and "effect i (E, args) doc = doc"
    using that assms(2) by (auto simp: cli_main_def)
  obtain c rest where args: "args = c # rest" using assms(3) by (cases args) auto
  show ?thesis
  proof (cases "c = ''add''")
    case False
    have "effect i (E, args) doc = doc"
      using False by (auto simp: effect_def args split: list.split)
    moreover have "\<exists>ls. cli_init E name d = (d, ls, Inr ())" for name
      using simps by (simp add: cli_init_def Let_def cli_bind_def print_lines_def)
    moreover have "\<exists>ls. cli_status E d = (d, ls, Inr ())"
      using simps by (simp add: cli_status_def cli_bind_def print_lines_def)
    moreover have "\<exists>ls. cli_route E p d = (d, ls, Inr ())" for p
      using simps by (simp add: cli_route_def cli_bind_def print_lines_def)
    ultimately show ?thesis
      using False usage assms(4) by (intro same) (simp_all add: cli_command_def Let_def args split: list.split option.split)
  next
    case add: True
    show ?thesis
    proof (cases "\<exists>name x y px py more. rest = name # x # y # more \<and> parse_i32 x = Some px \<and> parse_i32 y = Some py")
      case False
      then have "effect i (E, args) doc = doc"
        by (auto simp: effect_def args add split: list.split option.split)
      moreover have "\<exists>ls. cli_command E args d = (d, ls, Inr ())"
        using False usage by (auto simp: cli_command_def Let_def args add split: list.split option.split)
      ultimately show ?thesis by (intro same)
    next
      case True
      then obtain name x y px py more where rest: "rest = name # x # y # more" "parse_i32 x = Some px" "parse_i32 y = Some py"
        by blast
      let ?doc = "added E i name (point_new px py) doc"
      have effect: "effect i (E, args) doc = ?doc" using rest by (simp add: effect_def args add)
      have "read_with_fallback no_fault (h_identity_codec (ce_host E)) (h_store (ce_host E)) IDENTITY_FILE d = Inr (Some i)"
        using assms(2) by (simp add: configured_def)
      from save_configured [OF assms(1) this assms(5)] configured_schema [OF assms(2)]
      obtain d' where "cli_save E (h_store (ce_host E)) ?doc d = (d', [], Inr ())" "configured E i ?doc d'"
        unfolding effect by auto
      then have "cli_add E name (point_new px py) d = (d', [Printed (''added '' @ quoted name @ '' at '' @ show_point px py)], Inr ())"
        using simps by (simp add: cli_add_def Let_def cli_bind_def print_lines_def added_def)
      then have "cli_main E args d = (d', [Printed (''added '' @ quoted name @ '' at '' @ show_point px py)], ExitSuccess)"
        using rest by (simp add: cli_main_def cli_command_def args add)
      with \<open>configured E i ?doc d'\<close> show ?thesis unfolding effect by blast
    qed
  qed
qed

lemma runs_effect:
  assumes "configured E i doc d"
    and "\<forall>(E', args) \<in> set runs. works E' \<and> ce_host E' = (ce_host E)\<lparr>h_now := h_now (ce_host E')\<rparr> \<and>
      args \<noteq> [] \<and> hd args \<noteq> ''demo''"
    and "\<forall>k \<le> length runs. reads_back (h_doc_codec (ce_host E)) (fold (effect i) (take k runs) doc)"
  shows "configured E i (fold (effect i) runs doc) (cli_runs runs d)"
  using assms
proof (induction runs arbitrary: doc d)
  case (Cons run runs)
  obtain E' args where run: "run = (E', args)" by fastforce
  have one: "works E'" "args \<noteq> []" "hd args \<noteq> ''demo''" and host: "ce_host E' = (ce_host E)\<lparr>h_now := h_now (ce_host E')\<rparr>"
    using Cons.prems(2) run by auto
  have codec: "h_doc_codec (ce_host E') = h_doc_codec (ce_host E)"
    "h_identity_codec (ce_host E') = h_identity_codec (ce_host E)" "h_store (ce_host E') = h_store (ce_host E)"
    by (subst host; simp)+
  then have same: "configured E' j e x = configured E j e x" for j e x by (simp add: configured_def)
  have stored: "reads_back (h_doc_codec (ce_host E)) (fold (effect i) (take k runs) (effect i run doc))" if "k \<le> length runs" for k
    using Cons.prems(3) [rule_format, of "Suc k"] that by simp
  have "reads_back (h_doc_codec (ce_host E')) (effect i (E', args) doc)"
    using stored [of 0] by (simp add: codec run)
  from command_effect [OF one(1) _ one(2,3) this] Cons.prems(1) same
  obtain d' ls where "cli_main E' args d = (d', ls, ExitSuccess)" "configured E i (effect i run doc) d'"
    unfolding run by blast
  then show ?case
    using Cons.IH [of "effect i run doc" d'] Cons.prems(2) stored by (simp add: cli_runs_def run)
qed (simp add: cli_runs_def)

lemma configured_loads:
  assumes "configured E i doc d" and "works E"
  shows "\<exists>c. agent_load (ce_host E) d = (d, Inr c) \<and> co_identity c = i \<and> co_doc c = Some doc"
  using assms by (simp add: configured_def works_def agent_load_def Let_def load_or_create_identity_def)

lemma founding_schema: "schema_version (founding E i name) = SCHEMA_VERSION"
  by (simp add: founding_def create_def Let_def)

lemma init_configures:
  assumes "works E" and "d (file_path (h_store (ce_host E)) IDENTITY_FILE) = None"
    and "d (file_path (h_store (ce_host E)) WORKSPACE_FILE) = None"
    and "reads_back (h_identity_codec (ce_host E)) (h_new_identity (ce_host E))"
    and "reads_back (h_doc_codec (ce_host E)) (founding E (h_new_identity (ce_host E)) name)"
  shows "\<exists>d' ls. cli_main E (''init'' # name # rest) d = (d', ls, ExitSuccess) \<and>
    configured E (h_new_identity (ce_host E)) (founding E (h_new_identity (ce_host E)) name) d'"
proof -
  let ?H = "ce_host E" and ?i = "h_new_identity (ce_host E)"
  let ?doc = "founding E ?i name"
  obtain b where b: "enc (h_identity_codec ?H) ?i = Some b" using assms(4) by (auto simp: reads_back_def)
  obtain d1 where w: "write_atomic no_fault (h_identity_codec ?H) (h_store ?H) IDENTITY_FILE ?i d = (d1, Inr ())"
    using write_atomic_no_fault [OF b] by blast
  have none: "read_with_fallback no_fault (h_identity_codec ?H) (h_store ?H) IDENTITY_FILE d = Inr None"
    using assms(2) by (simp add: read_with_fallback_def read_json_def no_fault_def)
  have made: "cli_identity E (h_store ?H) d = (d1, [], Inr ?i)"
    using w none assms(1) by (simp add: cli_defs works_def load_or_create_identity_def fs_bind_def fs_return_def)
  have read: "read_with_fallback no_fault (h_identity_codec ?H) (h_store ?H) IDENTITY_FILE d1 = Inr (Some ?i)"
    by (rule read_after_write [OF assms(4) w])
  have "d1 (file_path (h_store ?H) WORKSPACE_FILE) = None"
    using write_atomic_frame [OF w, of "file_path (h_store ?H) WORKSPACE_FILE"] assms(3)
    by (simp add: IDENTITY_FILE_def WORKSPACE_FILE_def)
  then have empty: "cli_workspace E (h_store ?H) d1 = (d1, [], Inr None)"
    using assms(1) by (simp add: cli_defs works_def load_workspace_def read_with_fallback_def read_json_def no_fault_def)
  obtain d2 where saved: "cli_save E (h_store ?H) ?doc d1 = (d2, [], Inr ())" "configured E ?i ?doc d2"
    using save_configured [OF assms(1) read assms(5)] by (auto simp: founding_schema)
  have "\<exists>ls. cli_init E name d = (d2, ls, Inr ())"
    using made empty saved(1) works_simps(1) [OF assms(1)]
    by (simp add: cli_init_def Let_def cli_bind_def print_lines_def founding_def)
  with saved(2) show ?thesis by (auto simp: cli_main_def cli_command_def)
qed

section \<open>Properties\<close>

text \<open>
  C27: The command line and the agent share one configuration. On a machine without one, \<^verbatim>\<open>init\<close>
  founds it, under a new identity; whatever commands follow (other than the demonstration, which
  has its own directory), each ends with success, and the agent that is started afterwards runs
  under that identity with the founding document changed by exactly the well-formed \<^verbatim>\<open>add\<close>s.
\<close>

theorem cli_and_agent_share_configuration:
  assumes "works E" and "d (file_path (h_store (ce_host E)) IDENTITY_FILE) = None"
    and "d (file_path (h_store (ce_host E)) WORKSPACE_FILE) = None"
    and "i = h_new_identity (ce_host E)" and "reads_back (h_identity_codec (ce_host E)) i"
    and "\<forall>(E', args) \<in> set runs. works E' \<and> ce_host E' = (ce_host E)\<lparr>h_now := h_now (ce_host E')\<rparr> \<and>
      args \<noteq> [] \<and> hd args \<noteq> ''demo''"
    and "\<forall>k \<le> length runs. reads_back (h_doc_codec (ce_host E)) (fold (effect i) (take k runs) (founding E i name))"
  shows "\<exists>d1 ls c. cli_main E (''init'' # name # rest) d = (d1, ls, ExitSuccess) \<and>
    agent_load (ce_host E) (cli_runs runs d1) = (cli_runs runs d1, Inr c) \<and> co_identity c = i \<and>
    co_doc c = Some (fold (effect i) runs (founding E i name))"
proof -
  have "reads_back (h_doc_codec (ce_host E)) (founding E i name)"
    using assms(7) [rule_format, of 0] by simp
  then obtain d1 ls where init: "cli_main E (''init'' # name # rest) d = (d1, ls, ExitSuccess)"
    and start: "configured E i (founding E i name) d1"
    using init_configures [OF assms(1-3)] assms(4,5) by blast
  from configured_loads [OF runs_effect [OF start assms(6,7)] assms(1)] init show ?thesis by blast
qed

text \<open>A machine on which two documents can be stored: the founding one and the one with \<^verbatim>\<open>mac\<close> added.\<close>

definition plain_env :: "workspace_doc codec \<Rightarrow> u64 \<Rightarrow> cli_env" where
  "plain_env codec now = \<lparr>ce_host = (sample_host 1)\<lparr>h_now := now, h_doc_codec := codec, h_variables := (\<lambda>_. None)\<rparr>,
     ce_project_dir = Some (store_dir sample_store), ce_temp_dir = ''/tmp'', ce_demo_exists = True,
     ce_peer = generate 2 0 [4], ce_second_peer = generate 3 0 [5], ce_show_id = (\<lambda>_. ''id''),
     ce_show_error = (\<lambda>_. ''error'')\<rparr>"

definition founded_desk :: workspace_doc where
  "founded_desk = founding (plain_env sample_doc_codec 5) (generate 1 0 [3]) ''desk''"

definition extended_desk :: workspace_doc where
  "extended_desk = added (plain_env sample_doc_codec 9) (generate 1 0 [3]) ''mac'' (point_new 5 (- 7)) founded_desk"

definition two_docs_codec :: "workspace_doc codec" where
  "two_docs_codec = \<lparr>enc = (\<lambda>d. Some [ucast (doc_lamport d)]),
     dec = (\<lambda>b. Some (if b = [1] then founded_desk else extended_desk))\<rparr>"

definition sample_env :: "u64 \<Rightarrow> cli_env" where
  "sample_env = plain_env two_docs_codec"

lemma sample_env_fields:
  "h_store (ce_host (sample_env n)) = sample_store" "h_new_identity (ce_host (sample_env n)) = generate 1 0 [3]"
  "ce_host (sample_env m) = (ce_host (sample_env n))\<lparr>h_now := h_now (ce_host (sample_env m))\<rparr>"
  "h_doc_codec (ce_host (sample_env n)) = two_docs_codec"
  by (simp_all add: sample_env_def plain_env_def sample_host_def)

lemma sample_env_works: "works (sample_env n)"
  by (simp add: works_def sample_env_def plain_env_def sample_host_def store_open_def config_dir_def store_at_def
      no_fault_def sample_store_def)

lemma sample_env_identity: "reads_back (h_identity_codec (ce_host (sample_env n))) (generate 1 0 [3])"
  by (simp add: reads_back_def sample_env_def plain_env_def sample_host_def)

lemma two_docs_read_back: "reads_back two_docs_codec founded_desk" "reads_back two_docs_codec extended_desk"
  by (simp_all add: reads_back_def two_docs_codec_def founded_desk_def founding_def create_def Let_def
      extended_desk_def added_def edit_defs)

lemma sample_env_desks:
  "founding (sample_env 5) (generate 1 0 [3]) ''desk'' = founded_desk"
  "added (sample_env 9) (generate 1 0 [3]) ''mac'' (point_new 5 (- 7)) founded_desk = extended_desk"
  by (simp_all add: founded_desk_def extended_desk_def founding_def added_def Let_def sample_env_def plain_env_def local_name_def)

theorem cli_and_agent_share_configuration_witness:
  "\<exists>d1 ls c. cli_main (sample_env 5) [''init'', ''desk''] Map.empty = (d1, ls, ExitSuccess) \<and>
    agent_load (ce_host (sample_env 5)) (cli_runs [(sample_env 9, [''add'', ''mac'', ''5'', ''-7''])] d1) =
      (cli_runs [(sample_env 9, [''add'', ''mac'', ''5'', ''-7''])] d1, Inr c) \<and> co_doc c = Some extended_desk"
proof -
  let ?runs = "[(sample_env 9, [''add'', ''mac'', ''5'', ''-7''])]" and ?i = "generate 1 0 [3]"
  have parsed: "parse_i32 ''5'' = Some 5" "parse_i32 ''-7'' = Some (- 7)" by (simp_all add: parse_i32_def)
  have sum: "fold (effect ?i) ?runs founded_desk = extended_desk"
    by (simp add: effect_def parsed sample_env_desks)
  have same: "\<forall>(E', args) \<in> set ?runs. works E' \<and>
      ce_host E' = (ce_host (sample_env 5))\<lparr>h_now := h_now (ce_host E')\<rparr> \<and> args \<noteq> [] \<and> hd args \<noteq> ''demo''"
    using sample_env_works sample_env_fields(3) [of 9 5] by simp
  have stored: "\<forall>k \<le> length ?runs. reads_back (h_doc_codec (ce_host (sample_env 5)))
      (fold (effect ?i) (take k ?runs) (founding (sample_env 5) ?i ''desk''))"
    using two_docs_read_back sum by (auto simp: sample_env_fields sample_env_desks le_Suc_eq)
  from cli_and_agent_share_configuration [OF sample_env_works _ _ sample_env_fields(2) [symmetric] sample_env_identity same stored, of Map.empty "[]"]
  show ?thesis unfolding sample_env_desks sum by auto
qed

end
