(* ===== verification/Demo.thy ===== *)
theory Demo
  imports Command_Line
begin

text \<open>
  The demonstration of the command line (\<^verbatim>\<open>demo\<close> in \<^verbatim>\<open>crates/is-cli/src/main.rs\<close>, defined in
  \<open>Command_Line\<close>): what it prints is true whatever identifiers it draws. Routing is decided by the
  lemmas of \<open>Layout\<close>, the merge of the stale copy by those of \<open>Workspace\<close>.
\<close>

section \<open>The demonstration, run\<close>

lemma cli_record_fields [simp]:
  "mr_id (cli_record now i name p key pl) = i" "mr_display_name (cli_record now i name p key pl) = name"
  "mr_position (cli_record now i name p key pl) = p"
  by (simp_all add: cli_record_def)

lemma saturating_add_zero: "i32_saturating_add 0 x = x"
proof -
  have "sint (i32_saturating_add 0 x) = sint x"
    using sint_i32_lower [of x] sint_i32_upper [of x] by (simp add: i32_simps)
  then show ?thesis by (rule signed_word_eqI)
qed

lemma cli_record_bounds: "bounds (cli_record now i name p key pl) = Some (rect_new (px p) (py p) 1920 1080)"
  by (simp add: bounds_def placed_displays_def cli_record_def placeholder_display_def display_rect_def
      translate_def rect_new_def saturating_add_zero)

text \<open>What steps 2 to 6 rely on: PC1 in the middle, the Mac left of it, PC2 above it.\<close>

definition desk :: "cli_env \<Rightarrow> identity \<Rightarrow> workspace_doc \<Rightarrow> bool" where
  "desk E self e \<longleftrightarrow> doc_wf e \<and> distinct [id_machine_id self, mr_id (demo_mac E), mr_id (demo_pc2 E)] \<and>
     (\<forall>i. machine i e =
       (if i = id_machine_id self then Some (demo_pc1 E self)
        else if i = mr_id (demo_mac E) then Some (demo_mac E)
        else if i = mr_id (demo_pc2 E) then Some (demo_pc2 E) else None))"

lemma demo_bounds:
  "bounds (demo_pc1 E self) = Some (rect_new 0 0 1920 1080)"
  "bounds (demo_mac E) = Some (rect_new (- 1920) 0 1920 1080)"
  "bounds (demo_pc2 E) = Some (rect_new 0 (- 1080) 1920 1080)"
  by (simp_all add: demo_pc1_def demo_mac_def demo_pc2_def Let_def cli_record_bounds)

lemma desk_ray:
  assumes "desk E self e" and "on_ray e (id_machine_id self) exit dir c"
  shows "(cand_machine c = mr_id (demo_mac E) \<and> cand_bounds c = rect_new (- 1920) 0 1920 1080 \<or>
      cand_machine c = mr_id (demo_pc2 E) \<and> cand_bounds c = rect_new 0 (- 1080) 1920 1080) \<and>
    ray_distance dir exit (cand_bounds c) = Some (cand_distance c)"
proof -
  obtain r where r: "cand_machine c \<noteq> id_machine_id self" "machine (cand_machine c) e = Some r"
    "bounds r = Some (cand_bounds c)" and dist: "ray_distance dir exit (cand_bounds c) = Some (cand_distance c)"
    using assms(2) by (auto simp only: on_ray_def)
  have "machine (cand_machine c) e = (if cand_machine c = id_machine_id self then Some (demo_pc1 E self)
        else if cand_machine c = mr_id (demo_mac E) then Some (demo_mac E)
        else if cand_machine c = mr_id (demo_pc2 E) then Some (demo_pc2 E) else None)"
    using assms(1) unfolding desk_def by blast
  with r have "cand_machine c = mr_id (demo_mac E) \<and> r = demo_mac E \<or> cand_machine c = mr_id (demo_pc2 E) \<and> r = demo_pc2 E"
    by (auto split: if_split_asm)
  with r(3) dist show ?thesis by (auto simp only: demo_bounds option.inject)
qed

lemma pick_nobody:
  assumes "doc_wf e" and "\<And>c. on_ray e current exit dir c \<Longrightarrow> cand_machine c \<notin> online"
  shows "pick_candidate edge online (candidates_along e current exit dir) = None"
proof (cases "pick_candidate edge online (candidates_along e current exit dir)")
  case (Some c)
  have a: "c \<in> set (candidates_along e current exit dir)" "cand_machine c \<in> online"
    using pick_candidate_Some [OF Some candidates_sorted] by blast+
  have "on_ray e current exit dir c" using a(1) set_candidates [OF assms(1)] by blast
  from assms(2) [OF this] a(2) show ?thesis by (rule notE)
qed

lemma up_from_pc1:
  "\<not> contains (rect_new 0 0 1920 1080) (point_new 800 (- 10))"
  "clamp (rect_new 0 0 1920 1080) (point_new 800 (- 10)) = point_new 800 0"
  "direction_of (point_new 800 0) (point_new 800 (- 10)) = Some Up"
  "ray_distance Up (point_new 800 0) (rect_new (- 1920) 0 1920 1080) = None"
  "ray_distance Up (point_new 800 0) (rect_new 0 (- 1080) 1920 1080) = Some 0"
  "entry_point (rect_new 0 (- 1080) 1920 1080) (point_new 800 0) Up = point_new 800 (- 1)"
proof -
  show "\<not> contains (rect_new 0 0 1920 1080) (point_new 800 (- 10))" by code_simp
  show "clamp (rect_new 0 0 1920 1080) (point_new 800 (- 10)) = point_new 800 0" by code_simp
  show "direction_of (point_new 800 0) (point_new 800 (- 10)) = Some Up" by code_simp
  show "ray_distance Up (point_new 800 0) (rect_new (- 1920) 0 1920 1080) = None" by code_simp
  show "ray_distance Up (point_new 800 0) (rect_new 0 (- 1080) 1920 1080) = Some 0" by code_simp
  show "entry_point (rect_new 0 (- 1080) 1920 1080) (point_new 800 0) Up = point_new 800 (- 1)" by code_simp
qed

lemma left_from_pc1:
  "\<not> contains (rect_new 0 0 1920 1080) (point_new (- 5) 400)"
  "clamp (rect_new 0 0 1920 1080) (point_new (- 5) 400) = point_new 0 400"
  "direction_of (point_new 0 400) (point_new (- 5) 400) = Some Left"
  "ray_distance Left (point_new 0 400) (rect_new (- 1920) 0 1920 1080) = Some 0"
  "ray_distance Left (point_new 0 400) (rect_new 0 (- 1080) 1920 1080) = None"
  "entry_point (rect_new (- 1920) 0 1920 1080) (point_new 0 400) Left = point_new (- 1) 400"
proof -
  show "\<not> contains (rect_new 0 0 1920 1080) (point_new (- 5) 400)" by code_simp
  show "clamp (rect_new 0 0 1920 1080) (point_new (- 5) 400) = point_new 0 400" by code_simp
  show "direction_of (point_new 0 400) (point_new (- 5) 400) = Some Left" by code_simp
  show "ray_distance Left (point_new 0 400) (rect_new (- 1920) 0 1920 1080) = Some 0" by code_simp
  show "ray_distance Left (point_new 0 400) (rect_new 0 (- 1080) 1920 1080) = None" by code_simp
  show "entry_point (rect_new (- 1920) 0 1920 1080) (point_new 0 400) Left = point_new (- 1) 400" by code_simp
qed

lemma desk_routes:
  assumes "desk E self e"
  shows "resolve_cursor e {id_machine_id self, mr_id (demo_mac E)} (id_machine_id self) (point_new 800 (- 10)) =
      Stay (point_new 800 0)"
    and "resolve_cursor e {id_machine_id self, mr_id (demo_mac E)} (id_machine_id self) (point_new (- 5) 400) =
      Move (mr_id (demo_mac E)) (point_new (- 1) 400)"
    and "resolve_cursor e {id_machine_id self, mr_id (demo_mac E), mr_id (demo_pc2 E)} (id_machine_id self) (point_new 800 (- 10)) =
      Move (mr_id (demo_pc2 E)) (point_new 800 (- 1))"
proof -
  let ?me = "id_machine_id self" and ?box = "rect_new 0 0 1920 1080"
  have wf: "doc_wf e" and b: "Option.bind (machine ?me e) bounds = Some ?box"
    and ids: "?me \<noteq> mr_id (demo_mac E)" "?me \<noteq> mr_id (demo_pc2 E)" "mr_id (demo_mac E) \<noteq> mr_id (demo_pc2 E)"
    and members: "machine (mr_id (demo_mac E)) e = Some (demo_mac E)" "machine (mr_id (demo_pc2 E)) e = Some (demo_pc2 E)"
    using assms by (auto simp: desk_def demo_bounds)
  have above: "cand_machine c = mr_id (demo_pc2 E) \<and> cand_bounds c = rect_new 0 (- 1080) 1920 1080 \<and> cand_distance c = 0"
    if "on_ray e ?me (point_new 800 0) Up c" for c
    using desk_ray [OF assms that] up_from_pc1(4,5) by (auto simp del: ray_distance.simps)
  have left: "cand_machine c = mr_id (demo_mac E) \<and> cand_bounds c = rect_new (- 1920) 0 1920 1080 \<and> cand_distance c = 0"
    if "on_ray e ?me (point_new 0 400) Left c" for c
    using desk_ray [OF assms that] left_from_pc1(4,5) by (auto simp del: ray_distance.simps)
  have "pick_candidate (offline_edge (lww_value (settings e))) {?me, mr_id (demo_mac E)}
      (candidates_along e ?me (point_new 800 0) Up) = None"
  proof (rule pick_nobody [OF wf])
    fix c assume "on_ray e ?me (point_new 800 0) Up c"
    from above [OF this] ids show "cand_machine c \<notin> {?me, mr_id (demo_mac E)}" by auto
  qed
  moreover have "direction_of (clamp (rect_new 0 0 1920 1080) (point_new 800 (- 10))) (point_new 800 (- 10)) = Some Up"
    unfolding up_from_pc1(2) by (rule up_from_pc1(3))
  note up = this
  ultimately show "resolve_cursor e {?me, mr_id (demo_mac E)} ?me (point_new 800 (- 10)) = Stay (point_new 800 0)"
    unfolding resolve_outside [OF b up_from_pc1(1) up] unfolding up_from_pc1(2) by (simp only: option.case)
  let ?pc2 = "\<lparr>cand_machine = mr_id (demo_pc2 E), cand_bounds = rect_new 0 (- 1080) 1920 1080, cand_distance = 0\<rparr>"
  let ?mac = "\<lparr>cand_machine = mr_id (demo_mac E), cand_bounds = rect_new (- 1920) 0 1920 1080, cand_distance = 0\<rparr>"
  have "on_ray e ?me (point_new 800 0) Up ?pc2"
    using ids members up_from_pc1(5) by (simp add: on_ray_def demo_bounds del: ray_distance.simps)
  then have on: "on_ray e ?me (clamp (rect_new 0 0 1920 1080) (point_new 800 (- 10))) Up ?pc2"
    unfolding up_from_pc1(2) .
  have only: "c = ?pc2" if "on_ray e ?me (clamp (rect_new 0 0 1920 1080) (point_new 800 (- 10))) Up c" for c
    using above [OF that [unfolded up_from_pc1(2)]] by (intro candidate.equality) simp_all
  have "cand_machine ?pc2 \<in> {?me, mr_id (demo_mac E), mr_id (demo_pc2 E)}" by (simp only: candidate.select_convs insert_iff simp_thms)
  from resolve_only [OF wf b up_from_pc1(1) up on this only]
  show "resolve_cursor e {?me, mr_id (demo_mac E), mr_id (demo_pc2 E)} ?me (point_new 800 (- 10)) =
      Move (mr_id (demo_pc2 E)) (point_new 800 (- 1))"
    by (simp only: up_from_pc1(2,6) candidate.select_convs)
  have left': "direction_of (clamp (rect_new 0 0 1920 1080) (point_new (- 5) 400)) (point_new (- 5) 400) = Some Left"
    unfolding left_from_pc1(2) by (rule left_from_pc1(3))
  have "on_ray e ?me (point_new 0 400) Left ?mac"
    using ids members left_from_pc1(4) by (simp add: on_ray_def demo_bounds del: ray_distance.simps)
  then have on: "on_ray e ?me (clamp (rect_new 0 0 1920 1080) (point_new (- 5) 400)) Left ?mac"
    unfolding left_from_pc1(2) .
  have only: "c = ?mac" if "on_ray e ?me (clamp (rect_new 0 0 1920 1080) (point_new (- 5) 400)) Left c" for c
    using left [OF that [unfolded left_from_pc1(2)]] by (intro candidate.equality) simp_all
  have "cand_machine ?mac \<in> {?me, mr_id (demo_mac E)}" by (simp only: candidate.select_convs insert_iff simp_thms)
  from resolve_only [OF wf b left_from_pc1(1) left' on this only]
  show "resolve_cursor e {?me, mr_id (demo_mac E)} ?me (point_new (- 5) 400) =
      Move (mr_id (demo_mac E)) (point_new (- 1) 400)"
    by (simp only: left_from_pc1(2,6) candidate.select_convs)
qed

text \<open>A copy from before an edit has nothing to tell the edited document.\<close>

lemma stale_copy_absorbed:
  assumes "doc_wf d" and "doc_lamport d \<noteq> - 1" and "d' = fst (upsert_machine now origin r d)"
  shows "merge_doc d' d = Inr (d', False)"
proof -
  have d': "doc_workspace_id d' = doc_workspace_id d" "doc_name d' = doc_name d" "settings d' = settings d"
    "doc_lamport d' = doc_lamport d + 1" "schema_version d' = schema_version d"
    "machines d' = bt_insert (mr_id r) \<lparr>slot_stamp = stamp_new now (doc_lamport d + 1) origin, slot_content = Present r\<rparr> (machines d)"
    using assms(3) by (simp_all add: edit_defs Let_def)
  have ok: "bt_ok (machines d)" "bt_ok (machines d')" using doc_wf_ok [OF assms(1)] by (simp_all add: d' bt_ok_insert)
  obtain c where m: "merge_doc d' d = Inr (doc_join d' d, c)" using merge_doc_same_workspace [OF d'(1)] by blast
  have same: "fst (lww_merge x x) = x" for x :: "'a lww" by (simp add: lww_merge_def)
  have get: "bt_get (machines (doc_join d' d)) i = bt_get (machines d') i" for i
  proof (cases "i = mr_id r")
    case True
    then show ?thesis
      using doc_join_machines(2) [OF d'(1) ok(2,1)] slot_older [OF assms(1,2), of i _ now origin]
      by (auto simp: d' bt_get_insert [OF ok(1)] join_opt_slot_pick slot_advance_def split: option.splits dest: less_asym)
  next
    case False
    then show ?thesis
      using doc_join_machines(2) [OF d'(1) ok(2,1)]
      by (simp add: d' bt_get_insert [OF ok(1)] join_opt_slot_pick slot_advance_irrefl)
  qed
  have "machines (doc_join d' d) = machines d'"
    using get doc_join_machines(1) [OF d'(1) ok(2,1)] ok(2) by (intro bt_ext) auto
  then have join: "doc_join d' d = d'"
    using u64_next [OF assms(2)] doc_join_fields [OF d'(1) assms(1)]
    by (intro workspace_doc.equality) (simp_all add: d' same)
  have "\<not> c" using merge_flag_iff [OF ok(2) m] by (simp add: join)
  with m join show ?thesis by simp
qed

section \<open>The documents of the demonstration\<close>

lemma upsert_wf: "doc_wf d \<Longrightarrow> doc_lamport d \<noteq> - 1 \<Longrightarrow> doc_wf (fst (upsert_machine now origin r d))"
  using local_edit_wf [of d now origin "UpsertMachine r"] by simp

lemma set_settings_wf: "doc_wf d \<Longrightarrow> doc_lamport d \<noteq> - 1 \<Longrightarrow> doc_wf (fst (set_settings now origin s d))"
  using local_edit_wf [of d now origin "SetSettings s"] by simp

lemma edit_clock:
  "doc_lamport (fst (upsert_machine now origin r d)) = doc_lamport d + 1"
  "doc_lamport (fst (set_settings now origin s d)) = doc_lamport d + 1"
  "machine i (fst (set_settings now origin s d)) = machine i d"
  by (simp_all add: edit_defs Let_def machine_def)

lemma created_machine:
  "machine i (create now w name r) = (if i = mr_id r then Some r else None)"
  "doc_lamport (create now w name r) = 1"
  by (simp_all add: create_def Let_def machine_def bt_get_def bt_empty_def)

lemma demo_doc_desk:
  assumes "distinct [id_machine_id self, mr_id (demo_mac E), mr_id (demo_pc2 E)]"
  shows "desk E self (demo_doc E self)" and "doc_lamport (demo_doc E self) = 3"
proof -
  let ?H = "ce_host E"
  let ?d0 = "create (h_now ?H) (h_new_workspace ?H) ''My Desk'' (demo_pc1 E self)"
  let ?d1 = "fst (upsert_machine (h_now ?H) (id_machine_id self) (demo_mac E) ?d0)"
  let ?d2 = "fst (upsert_machine (h_now ?H) (id_machine_id self) (demo_pc2 E) ?d1)"
  have pc1: "mr_id (demo_pc1 E self) = id_machine_id self" by (simp add: demo_pc1_def Let_def)
  then have eq: "demo_doc E self = ?d2" by (simp add: demo_doc_def Let_def)
  have wf0: "doc_wf ?d0" by (rule doc_wf_create)
  have wf1: "doc_wf ?d1" by (rule upsert_wf [OF wf0]) (simp add: created_machine)
  have wf2: "doc_wf ?d2" by (rule upsert_wf [OF wf1]) (simp add: created_machine edit_clock)
  have "machine i ?d2 = (if i = mr_id (demo_pc2 E) then Some (demo_pc2 E)
      else if i = mr_id (demo_mac E) then Some (demo_mac E)
      else if i = id_machine_id self then Some (demo_pc1 E self) else None)" for i
    by (simp only: machine_upserted [OF doc_wf_ok [OF wf1]] machine_upserted [OF doc_wf_ok [OF wf0]] created_machine pc1)
  with assms wf2 show "desk E self (demo_doc E self)" by (auto simp: desk_def eq)
  show "doc_lamport (demo_doc E self) = 3" by (simp add: eq created_machine edit_clock)
qed

lemma desk_settings:
  "desk E self e \<Longrightarrow> doc_lamport e \<noteq> - 1 \<Longrightarrow> desk E self (fst (set_settings now origin s e))"
  by (simp add: desk_def set_settings_wf edit_clock)

section \<open>Its files\<close>

lemma cli_fresh_identity:
  assumes "h_fault (ce_host E) = no_fault" and "d (file_path st IDENTITY_FILE) = None"
    and "reads_back (h_identity_codec (ce_host E)) (h_new_identity (ce_host E))"
  obtains d' where "cli_identity E st d = (d', [], Inr (h_new_identity (ce_host E)))"
    and "cli_identity E st d' = (d', [], Inr (h_new_identity (ce_host E)))"
proof -
  let ?c = "h_identity_codec (ce_host E)" and ?i = "h_new_identity (ce_host E)"
  obtain b where b: "enc ?c ?i = Some b" using assms(3) by (auto simp: reads_back_def)
  obtain d' where w: "write_atomic no_fault ?c st IDENTITY_FILE ?i d = (d', Inr ())"
    using write_atomic_no_fault [OF b] by blast
  have "read_with_fallback no_fault ?c st IDENTITY_FILE d = Inr None"
    using assms(2) by (simp add: read_with_fallback_def read_json_def no_fault_def)
  then have "cli_identity E st d = (d', [], Inr ?i)"
    using w assms(1) by (simp add: cli_defs load_or_create_identity_def fs_bind_def fs_return_def)
  moreover have "cli_identity E st d' = (d', [], Inr ?i)"
    using read_after_write [OF assms(3) w] assms(1) by (simp add: cli_defs load_or_create_identity_def)
  ultimately show ?thesis by (rule that)
qed

lemma cli_saved:
  assumes "h_fault (ce_host E) = no_fault" and "enc (h_doc_codec (ce_host E)) doc = Some b"
  obtains d' where "cli_save E st doc d = (d', [], Inr ())"
    and "dec (h_doc_codec (ce_host E)) b = Some doc \<Longrightarrow> schema_version doc \<le> SCHEMA_VERSION \<Longrightarrow>
      cli_workspace E st d' = (d', [], Inr (Some doc))"
proof -
  let ?c = "h_doc_codec (ce_host E)"
  obtain d' where w: "write_atomic no_fault ?c st WORKSPACE_FILE doc d = (d', Inr ())"
    using write_atomic_no_fault [OF assms(2)] by blast
  have "cli_save E st doc d = (d', [], Inr ())"
    using w assms(1) by (simp add: cli_save_def cli_fs_def save_workspace_def)
  moreover have "cli_workspace E st d' = (d', [], Inr (Some doc))"
    if "dec ?c b = Some doc" and "schema_version doc \<le> SCHEMA_VERSION"
  proof -
    have "reads_back ?c doc" using assms(2) that(1) by (auto simp: reads_back_def)
    from read_after_write [OF this w] that(2) assms(1) show ?thesis
      by (simp add: cli_workspace_def cli_fs_def load_workspace_def)
  qed
  ultimately show ?thesis by (rule that)
qed

section \<open>Its last steps\<close>

lemma bind_step: "m d = (d', ls, Inr x) \<Longrightarrow> cli_bind m k d = (case k x d' of (d'', ls', r) \<Rightarrow> (d'', ls @ ls', r))"
  by (simp add: cli_bind_def)

lemma print_bind: "cli_bind (print_lines ls) k d = (case k () d of (d', ls', r) \<Rightarrow> (d', map Printed ls @ ls', r))"
  by (simp add: cli_bind_def print_lines_def)

lemma conflict_lines:
  assumes "desk E self stale" and "doc_lamport stale \<noteq> - 1" and "h_fault (ce_host E) = no_fault"
    and "moved = fst (upsert_machine now (id_machine_id self) ((demo_mac E)\<lparr>mr_position := point_new 0 1080\<rparr>) stale)"
    and "enc (h_doc_codec (ce_host E)) moved \<noteq> None"
  shows "\<exists>d' ls n. demo_conflict E st (id_machine_id self) stale moved d = (d', ls, Inr ()) \<and> n \<in> {''PC1'', ''Mac''} \<and>
    {Printed ''   stale copy changed anything: false'', Printed (''   Mac position stays '' @ show_point 0 1080),
     Printed (''   PC2 held the cursor and went offline -> '' @ n)} \<subseteq> set ls"
proof -
  let ?mac = "mr_id (demo_mac E)" and ?pc2 = "mr_id (demo_pc2 E)" and ?me = "id_machine_id self"
  let ?moved = "(demo_mac E)\<lparr>mr_position := point_new 0 1080\<rparr>"
  have wf: "doc_wf stale" and ids: "?me \<noteq> ?mac" "?me \<noteq> ?pc2" "?mac \<noteq> ?pc2"
    using assms(1) by (simp_all add: desk_def)
  have wf': "doc_wf moved" unfolding assms(4) by (rule upsert_wf [OF wf assms(2)])
  have merged: "merge_doc moved stale = Inr (moved, False)"
    by (rule stale_copy_absorbed [OF wf assms(2,4)])
  have members: "machine i moved = (if i = ?mac then Some ?moved else machine i stale)" for i
    by (simp add: assms(4) machine_upserted [OF doc_wf_ok [OF wf]])
  obtain b where b: "enc (h_doc_codec (ce_host E)) moved = Some b" using assms(5) by blast
  obtain d' where saved: "cli_save E st moved d = (d', [], Inr ())"
    using cli_saved [OF assms(3) b] by blast
  obtain i where i: "fallback_owner moved {?me, ?mac} ?pc2 = Some i" "i = ?me \<or> i = ?mac"
    using fallback_Some [OF wf', of "{?me, ?mac}" ?pc2] fallback_None [OF wf', of "{?me, ?mac}" ?pc2] members [of ?mac]
    by (cases "fallback_owner moved {?me, ?mac} ?pc2") auto
  have "\<exists>m. machine i moved = Some m \<and> mr_display_name m \<in> {''PC1'', ''Mac''}"
    using i(2) members [of i] assms(1) ids
    by (auto simp: desk_def demo_pc1_def demo_mac_def Let_def)
  then obtain m where m: "machine i moved = Some m" "mr_display_name m \<in> {''PC1'', ''Mac''}" by blast
  have mac: "machine ?mac moved = Some ?moved" using members by simp
  have "\<exists>ls. demo_conflict E st ?me stale moved d = (d', ls, Inr ()) \<and>
    {Printed ''   stale copy changed anything: false'', Printed (''   Mac position stays '' @ show_point 0 1080),
     Printed (''   PC2 held the cursor and went offline -> '' @ mr_display_name m)} \<subseteq> set ls"
    by (simp add: demo_conflict_def Let_def cli_bind_def saved print_lines_def merged mac i(1) m(1) show_bool_def)
  with m(2) show ?thesis by blast
qed

lemma demo_routing_lines:
  assumes "desk E self doc"
  shows "{''   cursor to '' @ show_point 800 (- 10) @ '' -> stays on PC1 at '' @ show_point 800 0,
      ''   cursor to '' @ show_point (- 5) 400 @ '' -> hands off to Mac at '' @ show_point (- 1) 400,
      ''   cursor to '' @ show_point 800 (- 10) @ '' -> hands off to PC2 at '' @ show_point 800 (- 1)}
      \<subseteq> set (demo_routing E (id_machine_id self) doc skipping)"
proof -
  have names: "name_of f doc (id_machine_id self) = ''PC1''" "name_of f doc (mr_id (demo_mac E)) = ''Mac''"
    "name_of f doc (mr_id (demo_pc2 E)) = ''PC2''" for f
    using assms by (auto simp: desk_def name_of_def demo_pc1_def demo_mac_def demo_pc2_def Let_def)
  show ?thesis by (simp add: demo_routing_def Let_def describe_route_def desk_routes [OF assms] names)
qed

text \<open>The output of a whole run: what comes before the routing, the routing, the last steps.\<close>

definition demo_fits :: "cli_env \<Rightarrow> identity \<Rightarrow> bool" where
  "demo_fits E self \<longleftrightarrow>
     h_fault (ce_host E) = no_fault \<and> ce_demo_exists E \<and> self = h_new_identity (ce_host E) \<and>
     distinct [id_machine_id self, id_machine_id (ce_peer E), id_machine_id (ce_second_peer E)] \<and>
     reads_back (h_identity_codec (ce_host E)) self \<and> reads_back (h_doc_codec (ce_host E)) (demo_doc E self) \<and>
     (\<forall>d. enc (h_doc_codec (ce_host E)) d \<noteq> None)"

lemma demo_fits_ids: "demo_fits E self \<Longrightarrow> distinct [id_machine_id self, mr_id (demo_mac E), mr_id (demo_pc2 E)]"
  unfolding demo_fits_def demo_mac_def demo_pc2_def Let_def cli_record_fields by (elim conjE)

lemmas demo_fits_desk = demo_doc_desk [OF demo_fits_ids]

lemma demo_last_steps:
  assumes "demo_fits E self"
    and "skipping = fst (set_settings now (id_machine_id self) s (demo_doc E self))"
    and "stale = fst (set_settings now (id_machine_id self) s' skipping)"
    and "moved = fst (upsert_machine now (id_machine_id self) ((demo_mac E)\<lparr>mr_position := point_new 0 1080\<rparr>) stale)"
  shows "\<exists>d' ls n. demo_conflict E st (id_machine_id self) stale moved d = (d', ls, Inr ()) \<and> n \<in> {''PC1'', ''Mac''} \<and>
    {Printed ''   stale copy changed anything: false'', Printed (''   Mac position stays '' @ show_point 0 1080),
     Printed (''   PC2 held the cursor and went offline -> '' @ n)} \<subseteq> set ls"
proof (rule conflict_lines [OF _ _ _ assms(4)])
  have clock: "doc_lamport (demo_doc E self) = 3"
    by (rule demo_fits_desk(2) [OF assms(1)])
  have "desk E self skipping"
    unfolding assms(2) by (rule desk_settings [OF demo_fits_desk(1) [OF assms(1)]]) (simp add: clock)
  then show "desk E self stale" unfolding assms(3) by (rule desk_settings) (simp add: assms(2) clock edit_clock)
  show "doc_lamport stale \<noteq> - 1" by (simp add: assms(2,3) clock edit_clock)
qed (use assms(1) in \<open>simp_all only: demo_fits_def simp_thms\<close>)

lemma demo_first_steps:
  assumes "demo_fits E self" and "st = \<lparr>store_dir = demo_dir E\<rparr>"
  obtains d0 d1 d2 where "remove_dir no_fault (demo_dir E) d = (d0, Inr ())"
    and "cli_identity E st d0 = (d1, [], Inr self)" and "cli_identity E st d1 = (d1, [], Inr self)"
    and "cli_save E st (demo_doc E self) d1 = (d2, [], Inr ())"
    and "cli_workspace E st d2 = (d2, [], Inr (Some (demo_doc E self)))"
proof -
  let ?H = "ce_host E" and ?doc = "demo_doc E self"
  have env: "h_fault ?H = no_fault" "self = h_new_identity ?H" "reads_back (h_identity_codec ?H) self"
    "reads_back (h_doc_codec ?H) ?doc"
    using assms(1) unfolding demo_fits_def by blast+
  define d0 where "d0 = fst (remove_dir no_fault (demo_dir E) d)"
  have cleared: "d0 (file_path st IDENTITY_FILE) = None" and removed: "remove_dir no_fault (demo_dir E) d = (d0, Inr ())"
    by (simp_all add: d0_def remove_dir_def no_fault_def file_path_def assms(2))
  obtain d1 where id: "cli_identity E st d0 = (d1, [], Inr self)" "cli_identity E st d1 = (d1, [], Inr self)"
    using cli_fresh_identity [where E = E and st = st and d = d0, OF env(1) cleared env(3) [unfolded env(2)]] env(2) by auto
  obtain b where b: "enc (h_doc_codec ?H) ?doc = Some b" "dec (h_doc_codec ?H) b = Some ?doc"
    using env(4) by (auto simp: reads_back_def)
  have "schema_version ?doc \<le> SCHEMA_VERSION"
    by (simp add: demo_doc_def Let_def edit_defs create_def)
  then obtain d2 where saved: "cli_save E st ?doc d1 = (d2, [], Inr ())" "cli_workspace E st d2 = (d2, [], Inr (Some ?doc))"
    using cli_saved [OF env(1) b(1), of st d1] b(2) by blast
  from removed id saved show ?thesis by (rule that)
qed

lemma demo_output:
  assumes fits: "demo_fits E self"
  shows "\<exists>d' before skipping ls n. cli_demo E d =
      (d', map Printed before @ map Printed (demo_routing E (id_machine_id self) (demo_doc E self) skipping) @ ls, Inr ()) \<and>
    ''   stable      true'' \<in> set before \<and> n \<in> {''PC1'', ''Mac''} \<and>
    {Printed ''   stale copy changed anything: false'', Printed (''   Mac position stays '' @ show_point 0 1080),
     Printed (''   PC2 held the cursor and went offline -> '' @ n)} \<subseteq> set ls"
proof -
  let ?H = "ce_host E" and ?st = "\<lparr>store_dir = demo_dir E\<rparr>" and ?me = "id_machine_id self"
  let ?doc = "demo_doc E self"
  let ?skip = "fst (set_settings (h_now ?H) ?me (workspace_settings_default\<lparr>offline_edge := SkipOver\<rparr>) ?doc)"
  let ?stale = "fst (set_settings (h_now ?H) ?me workspace_settings_default ?skip)"
  let ?moved = "fst (upsert_machine (h_now ?H) ?me ((demo_mac E)\<lparr>mr_position := point_new 0 1080\<rparr>) ?stale)"
  obtain d0 d1 d2 where steps: "remove_dir no_fault (demo_dir E) d = (d0, Inr ())"
    "cli_identity E ?st d0 = (d1, [], Inr self)" "cli_identity E ?st d1 = (d1, [], Inr self)"
    "cli_save E ?st ?doc d1 = (d2, [], Inr ())" "cli_workspace E ?st d2 = (d2, [], Inr (Some ?doc))"
    by (rule demo_first_steps [OF fits refl, of d])
  from demo_last_steps [OF fits refl refl refl, where now = "h_now ?H" and s = "workspace_settings_default\<lparr>offline_edge := SkipOver\<rparr>"
      and s' = workspace_settings_default and st = ?st and d = d2]
  obtain d3 ls n where conflict: "demo_conflict E ?st ?me ?stale ?moved d2 = (d3, ls, Inr ())" "n \<in> {''PC1'', ''Mac''}"
    "{Printed ''   stale copy changed anything: false'', Printed (''   Mac position stays '' @ show_point 0 1080),
     Printed (''   PC2 held the cursor and went offline -> '' @ n)} \<subseteq> set ls" by blast
  let ?identity = "[''1. machine identity'', ''   id          '' @ ce_show_id E ?me,
        ''   key         '' @ fingerprint (h_crypto ?H) (public_key (h_crypto ?H) self), ''   stable      '' @ ''true'', '''']"
  let ?before = "[''InputShare demo'', ''config '' @ store_dir ?st, ''''] @ ?identity @
      ((''2. workspace '' @ quoted (lww_value (doc_name ?doc)) @ '' at revision '' @ decimal (unat (doc_lamport ?doc))) #
      print_topology ?doc {?me, mr_id (demo_mac E), mr_id (demo_pc2 E)} ?me) @
      ['''', ''3. after a reboot (reloaded from disk)'',
      ''   workspace   '' @ quoted (lww_value (doc_name ?doc)) @ '' ('' @ ce_show_id E (doc_workspace_id ?doc) @ '')'',
      ''   revision    '' @ decimal (unat (doc_lamport ?doc)),
      ''   machines    '' @ decimal (length (machines_present ?doc))]"
  have env: "h_fault ?H = no_fault" "ce_demo_exists E" using fits by (simp_all add: demo_fits_def)
  have store: "cli_fs (\<lambda>d. (d, store_at no_fault (demo_dir E))) x = (x, [], Inr ?st)"
    and cleaned: "cli_fs (remove_dir no_fault (demo_dir E)) d = (d0, [], Inr ())" for x
    by (simp_all add: cli_fs_def store_at_def no_fault_def [symmetric] steps(1)) (simp add: no_fault_def)
  have run: "cli_demo E d = (d3, map Printed ?before @ map Printed (demo_routing E ?me ?doc ?skip) @ ls, Inr ())"
    by (simp only: cli_demo_def Let_def env if_True bind_step [where m = "cli_fs (remove_dir no_fault (demo_dir E))" and d = d, OF cleaned]
        bind_step [where m = "cli_fs (\<lambda>d. (d, store_at no_fault (demo_dir E)))" and d = x for x, OF store]
        bind_step [where m = "cli_identity E ?st" and d = d0, OF steps(2)] bind_step [where m = "cli_identity E ?st" and d = d1, OF steps(3)]
        bind_step [where m = "cli_save E ?st ?doc" and d = d1, OF steps(4)]
        bind_step [where m = "cli_workspace E ?st" and d = d2, OF steps(5)] print_bind conflict(1) prod.case option.case
        append_Nil show_bool_def simp_thms map_append append_assoc)
  have "''   stable      true'' \<in> set ?identity" by (simp only: list.set insert_iff append.simps simp_thms)
  then have "''   stable      true'' \<in> set ?before" unfolding set_append by (intro UnI2 UnI1)
  with run conflict(2,3) show ?thesis by blast
qed

section \<open>What the demonstration shows\<close>

text \<open>
  The demonstration shows what it claims, whatever identifiers the three machines draw. It ends with
  success, and among its lines: the identity is stable; with
  PC2 off the pointer that leaves PC1 upwards stays at the edge, and with PC2 on it crosses; leftwards it crosses to the Mac; the stale copy that is merged at the end
  changes nothing, so the Mac stays where it was moved; and the pointer PC2 had goes to PC1 or
  the Mac.
\<close>

theorem demo_shows_what_it_claims:
  assumes "h_fault (ce_host E) = no_fault" and "ce_demo_exists E" and "self = h_new_identity (ce_host E)"
    and "distinct [id_machine_id self, id_machine_id (ce_peer E), id_machine_id (ce_second_peer E)]"
    and "reads_back (h_identity_codec (ce_host E)) self" and "reads_back (h_doc_codec (ce_host E)) (demo_doc E self)"
    and "\<forall>d. enc (h_doc_codec (ce_host E)) d \<noteq> None"
  shows "\<exists>d' ls n. cli_main E [''demo''] d = (d', ls, ExitSuccess) \<and> n \<in> {''PC1'', ''Mac''} \<and>
    Printed ''   stable      true'' \<in> set ls \<and>
    Printed (''   cursor to '' @ show_point 800 (- 10) @ '' -> stays on PC1 at '' @ show_point 800 0) \<in> set ls \<and>
    Printed (''   cursor to '' @ show_point (- 5) 400 @ '' -> hands off to Mac at '' @ show_point (- 1) 400) \<in> set ls \<and>
    Printed (''   cursor to '' @ show_point 800 (- 10) @ '' -> hands off to PC2 at '' @ show_point 800 (- 1)) \<in> set ls \<and>
    Printed ''   stale copy changed anything: false'' \<in> set ls \<and>
    Printed (''   Mac position stays '' @ show_point 0 1080) \<in> set ls \<and>
    Printed (''   PC2 held the cursor and went offline -> '' @ n) \<in> set ls"
proof -
  have "demo_fits E self" unfolding demo_fits_def using assms by (intro conjI)
  note desk = demo_fits_desk(1) [OF this] and run = demo_output [OF this, of d]
  from run obtain d' before skipping ls n where run: "cli_demo E d =
      (d', map Printed before @ map Printed (demo_routing E (id_machine_id self) (demo_doc E self) skipping) @ ls, Inr ())"
    and found: "''   stable      true'' \<in> set before" "n \<in> {''PC1'', ''Mac''}"
    "{Printed ''   stale copy changed anything: false'', Printed (''   Mac position stays '' @ show_point 0 1080),
     Printed (''   PC2 held the cursor and went offline -> '' @ n)} \<subseteq> set ls" by blast
  define lines where
    "lines = map Printed before @ map Printed (demo_routing E (id_machine_id self) (demo_doc E self) skipping) @ ls"
  have "cli_command E [''demo''] = cli_demo E" by (simp add: cli_command_def)
  with run have main: "cli_main E [''demo''] d = (d', lines, ExitSuccess)"
    by (simp only: cli_main_def lines_def prod.case sum.case)
  have printed: "set lines = Printed ` set before \<union>
      (Printed ` set (demo_routing E (id_machine_id self) (demo_doc E self) skipping) \<union> set ls)"
    by (simp only: lines_def set_append set_map)
  have routes: "Printed ` {''   cursor to '' @ show_point 800 (- 10) @ '' -> stays on PC1 at '' @ show_point 800 0,
      ''   cursor to '' @ show_point (- 5) 400 @ '' -> hands off to Mac at '' @ show_point (- 1) 400,
      ''   cursor to '' @ show_point 800 (- 10) @ '' -> hands off to PC2 at '' @ show_point 800 (- 1)} \<subseteq> set lines"
    unfolding printed using demo_routing_lines [OF desk, of skipping] by blast
  have stable: "Printed ''   stable      true'' \<in> set lines" unfolding printed using found(1) by (intro UnI1 imageI)
  have "set ls \<subseteq> set lines" unfolding printed by blast
  note ends = order_trans [OF found(3) this, unfolded insert_subset] and routes = routes [unfolded image_insert insert_subset]
  show ?thesis
    using main found(2) stable routes [THEN conjunct1] routes [THEN conjunct2, THEN conjunct1]
      routes [THEN conjunct2, THEN conjunct2, THEN conjunct1] ends [THEN conjunct1] ends [THEN conjunct2, THEN conjunct1]
      ends [THEN conjunct2, THEN conjunct2, THEN conjunct1]
    by (intro exI conjI) assumption+
qed

end
