(* ===== verification/Netcheck.thy ===== *)
theory Netcheck
  imports Address Listener Command_Line
begin

text \<open>
  The program that says out loud what discovery is doing
  (\<^verbatim>\<open>crates/is-net/examples/netcheck.rs\<close>): it lists the cards, announces itself on them, listens for thirty seconds
  and gives a verdict. It is built on the announcer and the listener of \<open>Discovery\<close> and \<open>Listener\<close>.

  The record \<open>netcheck_env\<close> is what it meets: the cards, the answer to a connection (\<^verbatim>\<open>None\<close> is no answer in five
  seconds, \<open>Inl\<close> the error's text), and what happens to the listening task before the deadline. A line
  break inside a text starts a new line of output.
\<close>

section \<open>The program\<close>

definition NETCHECK_PORT :: u16 where "NETCHECK_PORT = 47451"
definition TRANSPORT_PORT :: u16 where "TRANSPORT_PORT = 47452"

record netcheck_env =
  ne_self :: identity
  ne_crypto :: crypto
  ne_cards :: "raw_interface list option"
  ne_text6 :: text6
  ne_show_id :: "128 word \<Rightarrow> string"
  ne_connect :: "socket_addr \<Rightarrow> (string + unit) option"
  ne_codec :: "announcement codec"
  ne_events :: "listener_event list"
  ne_macos :: bool

definition ellipsis :: string where "ellipsis = map char_of [0xE2 :: nat, 0x80, 0xA6]"

definition interface_line :: "interface \<Rightarrow> string" where
  "interface_line i =
     (let note = (if if_self_assigned i then ''  (self-assigned '' @ long_dash @ '' this adapter never got an address from a router)''
            else '''');
          broadcast = (case if_broadcast i of Some b \<Rightarrow> '', broadcast '' @ show_v4 b | None \<Rightarrow> '''')
      in ''  '' @ padded 38 (if_name i) @ '' '' @ show_v4 (if_address i) @ broadcast @ note)"

definition probe_transport :: "netcheck_env \<Rightarrow> ip_addr \<Rightarrow> line list" where
  "probe_transport E ip =
     (let target = \<lparr>sa_ip = ip, sa_port = TRANSPORT_PORT\<rparr>;
          asking = ''  connecting to '' @ show_socket (ne_text6 E) target @ '' (the port pairing uses)'' @ ellipsis @ '' ''
      in map Printed
           (case ne_connect E target of
              Some (Inr _) \<Rightarrow> [asking @ ''open. Pairing can reach this machine.'']
            | Some (Inl error) \<Rightarrow>
                [asking @ ''refused: '' @ error,
                 ''    The machine answered, so the network is fine and nothing is'',
                 ''    listening: InputShare is probably not running over there.'']
            | None \<Rightarrow>
                [asking @ ''no answer after 5s.'',
                 ''    Something is dropping the connection rather than refusing it,'',
                 ''    which is what a firewall looks like. On macOS the first'',
                 ''    incoming connection needs approval, and an app that was denied'',
                 ''    once is denied silently afterwards.'']))"

definition netcheck_target :: "netcheck_env \<Rightarrow> string \<Rightarrow> socket_addr option" where
  "netcheck_target E argument =
     (case read_socket (ne_text6 E) argument of
        Some a \<Rightarrow> Some a
      | None \<Rightarrow> read_socket (ne_text6 E) (argument @ '':'' @ decimal (unat NETCHECK_PORT)))"

fun netcheck_targets :: "netcheck_env \<Rightarrow> string list \<Rightarrow> line list \<times> socket_addr list" where
  "netcheck_targets E [] = ([], [])"
| "netcheck_targets E (argument # rest) =
     (case netcheck_targets E rest of (ls, manual) \<Rightarrow>
        (case netcheck_target E argument of
           None \<Rightarrow> (Complained (''not an address: '' @ argument) # ls, manual)
         | Some target \<Rightarrow>
             (Printed (''Also asking '' @ show_socket (ne_text6 E) target @ '' directly.'') # probe_transport E (sa_ip target) @ ls,
              target # manual)))"

definition netcheck_announcement :: "netcheck_env \<Rightarrow> announcement" where
  "netcheck_announcement E = \<lparr>an_protocol = 1, an_machine_id = id_machine_id (ne_self E),
     an_identity_key = public_key (ne_crypto E) (ne_self E), an_display_name = ''netcheck probe'', an_workspace_id = None,
     an_transport_port = 0, an_probe = False, an_invitations = []\<rparr>"

fun join_ids :: "string list \<Rightarrow> string" where
  "join_ids [] = ''''"
| "join_ids [s] = s"
| "join_ids (s # ss) = s @ '', '' @ join_ids ss"

definition peer_line :: "netcheck_env \<Rightarrow> sighting \<Rightarrow> string" where
  "peer_line E s =
     (let an = sg_announcement s;
          invites = (if an_invitations an = [] then ''no invitations''
            else ''inviting '' @ join_ids (map (ne_show_id E) (an_invitations an)))
      in ''  [peer]  '' @ an_display_name an @ '' at '' @ show_socket (ne_text6 E) (sg_from s) @ '' '' @ long_dash @ '' machine '' @
         ne_show_id E (an_machine_id an) @ '' '' @ long_dash @ '' '' @ invites)"

text \<open>The loop, over the sightings that come before the deadline: what it prints, \<^verbatim>\<open>seen_self\<close> and \<^verbatim>\<open>seen_others\<close>.\<close>

fun netcheck_loop :: "netcheck_env \<Rightarrow> sighting list \<Rightarrow> bool \<Rightarrow> i32 \<Rightarrow> line list \<times> bool \<times> i32" where
  "netcheck_loop E [] seen_self seen_others = ([], seen_self, seen_others)"
| "netcheck_loop E (s # ss) seen_self seen_others =
     (if an_machine_id (sg_announcement s) = id_machine_id (ne_self E)
      then (case netcheck_loop E ss True seen_others of (ls, r) \<Rightarrow>
        ((if seen_self then [] else [Printed (''  [self]  our own announcement came back from '' @ show_socket (ne_text6 E) (sg_from s))])
           @ ls, r))
      else (case netcheck_loop E ss seen_self (seen_others + 1) of (ls, r) \<Rightarrow> (Printed (peer_line E s) # ls, r)))"

definition never_heard_self :: "line list" where
  "never_heard_self = map Printed
     [''We never heard our own announcement. Multicast is not working on'',
      ''this machine at all '' @ long_dash @ '' check whether a firewall is blocking UDP '' @ decimal (unat NETCHECK_PORT) @ ''.'']"

definition nobody_heard :: "bool \<Rightarrow> line list" where
  "nobody_heard macos = map Printed
     ([''No other machine was heard.'',
       ''  - Is the other machine running this too, at the same time?'',
       ''  - Are both on the same network? Compare the addresses listed above.'',
       ''  - Guest or public Wi-Fi often isolates clients from each other.'',
       ''  - Pass the other machine's address as an argument to reach it directly.''] @
      (if macos then
        [''  - On macOS 15 and later, every application needs permission to'',
         ''    talk to the local network, and is refused in silence until it'',
         ''    has it. Check System Settings > Privacy & Security > Local'',
         ''    Network. This probe and the app are asked for separately.'']
       else []))"

definition netcheck_verdict :: "bool \<Rightarrow> bool \<Rightarrow> i32 \<Rightarrow> line list" where
  "netcheck_verdict macos seen_self seen_others =
     (if seen_self then [] else never_heard_self) @
     (if seen_others = 0 then nobody_heard macos
      else [Printed (''Heard '' @ show_i32 seen_others @ '' announcement(s) from other machines. Discovery works.'')])"

definition netcheck_heard :: "netcheck_env \<Rightarrow> sighting list" where
  "netcheck_heard E = snd (listener_run (ne_codec E) NETCHECK_PORT (ne_events E) (Waiting, []))"

definition netcheck_opening :: "netcheck_env \<Rightarrow> string list \<Rightarrow> line list" where
  "netcheck_opening E args =
     (let cards = interfaces (ne_cards E) in
      [Printed '''', Printed ''Interfaces discovery will use:''] @ map (\<lambda>i. Printed (interface_line i)) cards @
      [Printed '''', Printed (''Announcing on all '' @ decimal (length cards) @ '' of them, every 2 seconds.'')] @
      fst (netcheck_targets E args) @ [Printed '''', Printed ''Listening. Announcements will appear below.'', Printed ''''])"

definition netcheck_main :: "netcheck_env \<Rightarrow> string list \<Rightarrow> line list" where
  "netcheck_main E args =
     Printed (''this probe is machine '' @ ne_show_id E (id_machine_id (ne_self E))) #
     (if interfaces (ne_cards E) = [] then [Printed '''', Printed ''No usable IPv4 interface. Nothing can be discovered.'']
      else
        let (seen, seen_self, seen_others) = netcheck_loop E (netcheck_heard E) False 0
        in netcheck_opening E args @ seen @ [Printed '''', Printed ''--- after 30 seconds ---''] @
           netcheck_verdict (ne_macos E) seen_self seen_others)"

text \<open>What it sends: the announcer of \<open>Discovery\<close> with the addresses it was given.\<close>

definition netcheck_round :: "netcheck_env \<Rightarrow> string list \<Rightarrow> (ipv4 \<Rightarrow> bool) \<Rightarrow> interface list \<Rightarrow> announcer \<Rightarrow> announcer \<times> datagram list" where
  "netcheck_round E args can_bind current a =
     announce_round (ne_codec E) NETCHECK_PORT can_bind current (snd (netcheck_targets E args)) (netcheck_announcement E) a"

section \<open>The verdict\<close>

definition others_heard :: "netcheck_env \<Rightarrow> sighting list" where
  "others_heard E = filter (\<lambda>s. an_machine_id (sg_announcement s) \<noteq> id_machine_id (ne_self E)) (netcheck_heard E)"

lemma netcheck_loop_counts:
  "snd (netcheck_loop E ss b n) =
     (b \<or> (\<exists>s \<in> set ss. an_machine_id (sg_announcement s) = id_machine_id (ne_self E)),
      n + of_nat (length (filter (\<lambda>s. an_machine_id (sg_announcement s) \<noteq> id_machine_id (ne_self E)) ss)))"
  by (induction ss arbitrary: b n) (auto simp: split_beta add_ac)

lemma netcheck_loop_prints:
  "s \<in> set ss \<Longrightarrow> an_machine_id (sg_announcement s) \<noteq> id_machine_id (ne_self E) \<Longrightarrow>
     Printed (peer_line E s) \<in> set (fst (netcheck_loop E ss b n))"
  by (induction ss arbitrary: b n) (auto simp: split_beta)

lemma netcheck_says:
  assumes "interfaces (ne_cards E) \<noteq> []" and "length (others_heard E) < 2 ^ 32"
  shows "\<exists>before. netcheck_main E args = before @
      (if \<exists>s \<in> set (netcheck_heard E). an_machine_id (sg_announcement s) = id_machine_id (ne_self E) then [] else never_heard_self) @
      (if others_heard E = [] then nobody_heard (ne_macos E)
       else [Printed (''Heard '' @ show_i32 (of_nat (length (others_heard E))) @ '' announcement(s) from other machines. Discovery works.'')]) \<and>
    (\<forall>s \<in> set (others_heard E). Printed (peer_line E s) \<in> set before)"
proof -
  obtain seen b n where loop: "netcheck_loop E (netcheck_heard E) False 0 = (seen, b, n)" by (metis prod_cases3)
  have b: "b \<longleftrightarrow> (\<exists>s \<in> set (netcheck_heard E). an_machine_id (sg_announcement s) = id_machine_id (ne_self E))"
    and n: "n = of_nat (length (others_heard E))"
    using netcheck_loop_counts [of E "netcheck_heard E" False 0] loop by (simp_all add: others_heard_def)
  have zero: "n = 0 \<longleftrightarrow> others_heard E = []"
  proof -
    have "unat n = length (others_heard E)" using assms(2) by (simp add: n unat_of_nat take_bit_nat_eq_self)
    then show ?thesis by (metis length_0_conv unat_eq_zero)
  qed
  have lines: "\<forall>s \<in> set (others_heard E). Printed (peer_line E s) \<in> set seen"
    using netcheck_loop_prints [of _ "netcheck_heard E" E False 0] loop by (auto simp: others_heard_def)
  let ?before = "Printed (''this probe is machine '' @ ne_show_id E (id_machine_id (ne_self E))) #
    netcheck_opening E args @ seen @ [Printed '''', Printed ''--- after 30 seconds ---'']"
  have main: "netcheck_main E args = ?before @ netcheck_verdict (ne_macos E) b n"
    using assms(1) loop by (simp add: netcheck_main_def)
  have "\<forall>s \<in> set (others_heard E). Printed (peer_line E s) \<in> set ?before" using lines by simp
  moreover have "netcheck_verdict (ne_macos E) b n =
      (if \<exists>s \<in> set (netcheck_heard E). an_machine_id (sg_announcement s) = id_machine_id (ne_self E) then [] else never_heard_self) @
      (if others_heard E = [] then nobody_heard (ne_macos E)
       else [Printed (''Heard '' @ show_i32 n @ '' announcement(s) from other machines. Discovery works.'')])"
    unfolding netcheck_verdict_def zero b ..
  ultimately show ?thesis unfolding main n by blast
qed

section \<open>Two of them\<close>

lemma listener_step_grows: "\<exists>ss. snd (listener_step J port e task) = snd task @ ss"
  by (induction J port e task rule: listener_step.induct) (auto split: sum.split prod.split)

lemma listener_run_grows: "\<exists>ss. snd (listener_run J port es task) = snd task @ ss"
proof (induction es arbitrary: task)
  case (Cons e es)
  obtain ss where "snd (listener_step J port e task) = snd task @ ss" using listener_step_grows by blast
  then show ?case using Cons [of "listener_step J port e task"] by (auto simp: listener_run_def)
qed (simp add: listener_run_def)

definition readable_announcement :: "announcement codec \<Rightarrow> announcement \<Rightarrow> bool" where
  "readable_announcement J an \<longleftrightarrow> (\<forall>b. enc J an = Some b \<longrightarrow> dec J b = Some an \<and> length b \<le> 8192)"

lemma round_payload:
  assumes "announce_round J port can_bind current manual an a = (a', ds)" and "d \<in> set ds"
  shows "enc J an = Some (dg_payload d) \<or> enc J (probing an) = Some (dg_payload d)"
proof (cases "enc J an")
  case None
  then show ?thesis using assms by (simp add: announce_round_def Let_def)
next
  case (Some payload)
  show ?thesis
    using announce_round_eq [OF assms(1) Some] assms(2) Some send_unicast_by
    by (fastforce simp: announced_def send_by_def probing_def split: option.splits)
qed

lemma round_heard:
  assumes "announce_round J port can_bind current manual an a = (a', ds)" and "d \<in> set ds" and "is_current an"
    and "readable_announcement J an" and "readable_announcement J (probing an)"
  shows "\<exists>s. heard J (dg_payload d) source = Some s \<and> an_machine_id (sg_announcement s) = an_machine_id an \<and> sg_from s = source"
proof -
  have "heard J (dg_payload d) source = Some \<lparr>sg_announcement = x, sg_from = source\<rparr>"
    if "enc J x = Some (dg_payload d)" "readable_announcement J x" "is_current x" for x
    using that heard_own [OF that(1), of source] by (simp add: readable_announcement_def)
  then show ?thesis using round_payload [OF assms(1,2)] assms(3-5) by (metis probing_fields(1,3) sighting.select_convs)
qed

text \<open>
  Two of these programs at once: whatever one sends in a round, once it reaches the socket of
  the other before its deadline, the other names it and ends by saying that discovery works.
\<close>

theorem probes_find_each_other:
  assumes "netcheck_round E' args' can_bind current a = (a', ds)" and "d \<in> set ds" and "ne_codec E' = ne_codec E"
    and "readable_announcement (ne_codec E) (netcheck_announcement E')"
    and "readable_announcement (ne_codec E) (probing (netcheck_announcement E'))"
    and "ne_events E = before @ Arrives at d source True # after"
    and "listener_run (ne_codec E) NETCHECK_PORT before (Waiting, []) = (On on s, seen)" and "reaches_socket at d s"
    and "id_machine_id (ne_self E') \<noteq> id_machine_id (ne_self E)"
    and "interfaces (ne_cards E) \<noteq> []" and "length (others_heard E) < 2 ^ 32"
  shows "(\<exists>x. an_machine_id (sg_announcement x) = id_machine_id (ne_self E') \<and> sg_from x = source \<and>
      Printed (peer_line E x) \<in> set (netcheck_main E args)) \<and>
    last (netcheck_main E args) =
      Printed (''Heard '' @ show_i32 (of_nat (length (others_heard E))) @ '' announcement(s) from other machines. Discovery works.'')"
proof -
  have current: "is_current (netcheck_announcement E')"
    and self: "an_machine_id (netcheck_announcement E') = id_machine_id (ne_self E')"
    by (simp_all add: netcheck_announcement_def is_current_def PROTOCOL_VERSION_def)
  obtain x where x: "heard (ne_codec E) (dg_payload d) source = Some x"
    "an_machine_id (sg_announcement x) = id_machine_id (ne_self E')" "sg_from x = source"
    using round_heard [OF assms(1) [unfolded netcheck_round_def assms(3)] assms(2) current assms(4,5)] self by metis
  let ?task = "listener_step (ne_codec E) NETCHECK_PORT (Arrives at d source True) (On on s, seen)"
  have "snd ?task = seen @ [x]" using assms(8) x(1) by simp
  moreover obtain ss where "snd (listener_run (ne_codec E) NETCHECK_PORT after ?task) = snd ?task @ ss"
    using listener_run_grows by blast
  moreover have "netcheck_heard E = snd (listener_run (ne_codec E) NETCHECK_PORT after ?task)"
    using assms(7) by (simp add: netcheck_heard_def assms(6) listener_run_def)
  ultimately have "x \<in> set (others_heard E)" using x(2) assms(9) by (simp add: others_heard_def)
  then show ?thesis using netcheck_says [OF assms(10,11), of args] x(2,3) by (auto split: if_splits)
qed

text \<open>
  What goes wrong: every error of the connection is called an answer of the other machine, although
  an address no route leads to is an error too, and nothing answered.
\<close>

theorem every_error_is_called_an_answer:
  assumes "ne_connect E \<lparr>sa_ip = ip, sa_port = TRANSPORT_PORT\<rparr> = Some (Inl error)"
  shows "Printed ''    The machine answered, so the network is fine and nothing is'' \<in> set (probe_transport E ip)"
  using assms by (simp add: probe_transport_def)

end
