(* ===== verification/Platform.thy ===== *)
theory Platform
  imports Desk Mac_Capture Displays Command_Line
begin

text \<open>
  What the rest of the program asks of a platform (\<^verbatim>\<open>crates/is-input/src/lib.rs\<close>, \<^verbatim>\<open>inject.rs\<close>, \<^verbatim>\<open>capture.rs\<close>), as a
  locale with its three instances: Windows, macOS and the others (\<^verbatim>\<open>platform/other.rs\<close>, and what
  \<^verbatim>\<open>platform/windows.rs\<close> has besides \<open>Capture\<close> and \<open>Hook_Thread\<close>). On top of it the two programs that probe
  the capture (\<^verbatim>\<open>crates/is-input/examples\<close>).
\<close>

section \<open>The cursor and the clock on Windows\<close>

definition now_ms :: "nat option \<Rightarrow> u64" where
  "now_ms since_epoch = (case since_epoch of Some ms \<Rightarrow> of_nat ms | None \<Rightarrow> 0)"

definition windows_held :: "(u16 \<Rightarrow> 16 word) \<Rightarrow> u16 \<Rightarrow> bool" where
  "windows_held key_state vk \<longleftrightarrow> key_state vk AND 0x8000 \<noteq> 0"

definition windows_cursor_position :: "(i32 \<times> i32) option \<Rightarrow> input_error + i32 \<times> i32" where
  "windows_cursor_position answer = (case answer of None \<Rightarrow> Inl (Os ''GetCursorPos failed'') | Some p \<Rightarrow> Inr p)"

definition windows_set_cursor_position :: "bool \<Rightarrow> i32 \<Rightarrow> i32 \<Rightarrow> capture_state \<Rightarrow> capture_state \<times> (input_error + unit)" where
  "windows_set_cursor_position ok x y s =
     (if \<not> ok then (s, Inl (Os ''SetCursorPos failed'')) else (s\<lparr>have_last := True\<rparr>, Inr ()))"

section \<open>The other platforms\<close>

text \<open>\<^verbatim>\<open>Capture\<close> has no fields there, and no system calls it.\<close>

definition other_inject :: "input_event \<Rightarrow> input_error + unit" where
  "other_inject e = Inl (Unsupported ''input injection'')"

definition other_cursor_position :: "input_error + i32 \<times> i32" where
  "other_cursor_position = Inl (Unsupported ''reading the cursor position'')"

definition other_set_cursor_position :: "i32 \<Rightarrow> i32 \<Rightarrow> unit \<Rightarrow> unit \<times> (input_error + unit)" where
  "other_set_cursor_position x y s = (s, Inl (Unsupported ''moving the cursor''))"

definition other_capture_start :: "unit \<Rightarrow> unit \<times> (input_error + unit)" where
  "other_capture_start s = (s, Inl (Unsupported ''input capture''))"

definition other_set_suppressing :: "u64 \<Rightarrow> bool \<Rightarrow> unit \<Rightarrow> unit" where
  "other_set_suppressing now on s = s"

definition other_is_suppressing :: "unit \<Rightarrow> bool" where
  "other_is_suppressing s = False"

definition other_heartbeat :: "u64 \<Rightarrow> unit \<Rightarrow> unit" where
  "other_heartbeat now s = s"

section \<open>What every platform promises\<close>

fun all_calls :: "('e \<Rightarrow> 's \<Rightarrow> 's \<times> verdict) \<Rightarrow> 'e list \<Rightarrow> 's \<Rightarrow> 's \<times> verdict list" where
  "all_calls step [] s = (s, [])"
| "all_calls step (e # es) s = (let (s, v) = step e s; (s, vs) = all_calls step es s in (s, v # vs))"

text \<open>
  \<open>step\<close> is a call by the system, \<open>ask\<close> is \<^verbatim>\<open>set_suppressing\<close>, \<open>beat\<close> is \<^verbatim>\<open>heartbeat\<close>, \<open>close\<close> the end of the
  capture.
\<close>

locale input_capture =
  fixes step :: "'e \<Rightarrow> 's \<Rightarrow> 's \<times> verdict"
    and suppresses :: "'s \<Rightarrow> bool"
    and ask :: "u64 \<Rightarrow> bool \<Rightarrow> 's \<Rightarrow> 's"
    and beat :: "u64 \<Rightarrow> 's \<Rightarrow> 's"
    and close :: "'s \<Rightarrow> 's"
  assumes passes: "\<not> suppresses s \<Longrightarrow> \<not> suppresses (fst (step e s)) \<and> snd (step e s) = Pass"
    and asked: "suppresses (ask now b s) \<Longrightarrow> b"
    and beaten: "suppresses (beat now s) = suppresses s"
    and closed: "\<not> suppresses (close s)"
begin

lemma observes: "\<not> suppresses s \<Longrightarrow> \<not> suppresses (fst (all_calls step es s)) \<and> set (snd (all_calls step es s)) \<subseteq> {Pass}"
proof (induction es arbitrary: s)
  case (Cons e es)
  from passes [OF Cons.prems, of e] Cons.IH [of "fst (step e s)"] show ?case by (simp add: split_def Let_def)
qed simp

lemma released_observes: "set (snd (all_calls step es (ask now False s))) \<subseteq> {Pass}"
  using observes asked by blast

lemma beating_observes: "\<not> suppresses s \<Longrightarrow> set (snd (all_calls step es (beat now s))) \<subseteq> {Pass}"
  using observes beaten by blast

lemma closed_observes: "set (snd (all_calls step es (close s))) \<subseteq> {Pass}"
  using observes closed by blast

end

interpretation windows: input_capture os_step suppressing set_suppressing heartbeat capture_drop
proof
  show "\<not> suppressing (fst (os_step e s)) \<and> snd (os_step e s) = Pass" if "\<not> suppressing s" for e s
    by (rule released_step [OF that])
qed (auto simp: set_suppressing_def heartbeat_def capture_drop_def Let_def split: if_splits)

definition tap_step :: "u64 \<times> tap_event \<Rightarrow> mac_state \<Rightarrow> mac_state \<times> verdict" where
  "tap_step = (\<lambda>(now, e). tap_callback now e)"

interpretation macos: input_capture tap_step mc_suppressing mac_set_suppressing mac_heartbeat mac_capture_drop
proof
  show "\<not> mc_suppressing (fst (tap_step k s)) \<and> snd (tap_step k s) = Pass" if off: "\<not> mc_suppressing s" for k s
  proof (cases k)
    case (Pair now e)
    obtain s1 v where "tap_callback now e s = (s1, v)" by fastforce
    then show ?thesis using mac_released_step [OF off, of "TapEvent now e" s1 v] by (simp add: Pair tap_step_def)
  qed
next
  show "\<not> mc_suppressing (mac_capture_drop s)" for s
    by (simp add: mac_capture_drop_def tap_thread_end_def Let_def)
qed (auto simp: mac_set_suppressing_def mac_heartbeat_def Let_def split: if_splits)

definition other_step :: "unit \<Rightarrow> unit \<Rightarrow> unit \<times> verdict" where
  "other_step e s = (s, Pass)"

interpretation other: input_capture other_step other_is_suppressing other_set_suppressing other_heartbeat "\<lambda>s. s"
  by unfold_locales (simp_all add: other_step_def other_is_suppressing_def)

end
