(* ===== verification/Probe.thy ===== *)
theory Probe
  imports Platform
begin

text \<open>
  The two programs that try the capture out (\<^verbatim>\<open>crates/is-input/examples/capture_probe.rs\<close> and
  \<^verbatim>\<open>edge_probe.rs\<close>), over a record \<open>platform\<close> with the operations they call. The first claims that it cannot
  leave a computer unable to respond to its own keyboard; the second asks whether motion is still seen
  when the pointer is pinned against the edge of the screen.

  What the system calls while the programs wait, and what it answers when asked for the cursor, are arguments.
\<close>

section \<open>The platforms\<close>

record ('s, 'e) platform =
  pl_start :: "'s \<Rightarrow> 's \<times> (input_error + unit)"
  pl_step :: "'e \<Rightarrow> 's \<Rightarrow> 's \<times> verdict"
  pl_reported :: "'s \<Rightarrow> input_event list"
  pl_suppressing :: "'s \<Rightarrow> bool"
  pl_set_cursor :: "i32 \<Rightarrow> i32 \<Rightarrow> 's \<Rightarrow> 's \<times> (input_error + unit)"
  pl_close :: "'s \<Rightarrow> 's"

definition windows_platform :: "u64 \<Rightarrow> hook_start \<Rightarrow> bool \<Rightarrow> (capture_state, os_event) platform" where
  "windows_platform now hooks moves = \<lparr>pl_start = (\<lambda>s. map_prod id (map_sum id (\<lambda>_. ())) (capture_start now hooks s)),
     pl_step = os_step, pl_reported = reported, pl_suppressing = suppressing,
     pl_set_cursor = windows_set_cursor_position moves, pl_close = capture_drop\<rparr>"

definition mac_platform :: "u64 \<Rightarrow> tap_start \<Rightarrow> mac_os \<Rightarrow> (mac_state, u64 \<times> tap_event) platform" where
  "mac_platform now tap os = \<lparr>pl_start = mac_capture_start now tap, pl_step = tap_step, pl_reported = mc_reported,
     pl_suppressing = mc_suppressing, pl_set_cursor = set_cursor_position os, pl_close = mac_capture_drop\<rparr>"

definition other_platform :: "(unit, unit) platform" where
  "other_platform = \<lparr>pl_start = other_capture_start, pl_step = other_step, pl_reported = (\<lambda>_. []),
     pl_suppressing = other_is_suppressing, pl_set_cursor = other_set_cursor_position, pl_close = (\<lambda>s. s)\<rparr>"

section \<open>The programs\<close>

text \<open>What the channel gets while the system makes these calls.\<close>

definition watch :: "('s, 'e) platform \<Rightarrow> 'e list \<Rightarrow> 's \<Rightarrow> 's \<times> verdict list \<times> input_event list" where
  "watch P es s =
     (case all_calls (pl_step P) es s of (s', vs) \<Rightarrow> (s', vs, drop (length (pl_reported P s)) (pl_reported P s')))"

fun probe_counts :: "input_event list \<Rightarrow> i32 \<times> i32 \<times> i32 \<Rightarrow> i32 \<times> i32 \<times> i32" where
  "probe_counts [] c = c"
| "probe_counts (MouseMove dx dy # es) (moves, keys, others) = probe_counts es (moves + 1, keys, others)"
| "probe_counts (Key vk scan down extended # es) (moves, keys, others) = probe_counts es (moves, keys + 1, others)"
| "probe_counts (_ # es) (moves, keys, others) = probe_counts es (moves, keys, others + 1)"

text \<open>A panic unwinds \<^verbatim>\<open>main\<close>, which drops the capture.\<close>

definition capture_probe ::
  "('s, 'e) platform \<Rightarrow> input_error + i32 \<times> i32 \<Rightarrow> 'e list \<Rightarrow> 's \<Rightarrow> 's \<times> verdict list \<times> line list \<times> exit_code" where
  "capture_probe P answer es s =
     (case pl_start P s of
        (s, Inl e) \<Rightarrow> (s, [], [Complained (''could not install the hooks: '' @ input_error_text e)], ExitSuccess)
      | (s, Inr _) \<Rightarrow>
          if pl_suppressing P s then (pl_close P s, [], [], ExitPanic)
          else
            let ls = [Printed ''hooks installed, observe-only (nothing is being swallowed)''] in
            (case answer of
               Inl e \<Rightarrow> (pl_close P s, [], ls, ExitPanic)
             | Inr (x, y) \<Rightarrow>
                 let ls = ls @ [Printed (''cursor is at '' @ show_point x y),
                        Printed (''watching for 4 seconds '' @ long_dash @ '' move the mouse or type'')];
                     (s, vs, es) = watch P es s;
                     (moves, keys, others) = probe_counts es (0, 0, 0);
                     s = fst (pl_set_cursor P x y s);
                     s = pl_close P s;
                     ls = ls @ [Printed (''saw '' @ show_i32 moves @ '' mouse moves, '' @ show_i32 keys @ '' key events, '' @
                          show_i32 others @ '' other events''), Printed ''hooks removed, cursor restored'']
                 in if moves = 0 \<and> keys = 0 \<and> others = 0
                    then (s, vs, ls @ [Complained (''nothing was observed '' @ long_dash @
                        '' either nobody touched anything, or the hook is not receiving'')], ExitFailure)
                    else (s, vs, ls, ExitSuccess)))"

fun edge_deltas :: "input_event list \<Rightarrow> (i32 \<times> i32) list" where
  "edge_deltas [] = []"
| "edge_deltas (MouseMove dx dy # es) = (dx, dy) # edge_deltas es"
| "edge_deltas (_ # es) = edge_deltas es"

definition edge_leftward :: "(i32 \<times> i32) list \<Rightarrow> i32" where
  "edge_leftward ds = of_nat (length (filter (\<lambda>(dx, dy). sint dx < 0) ds))"

fun show_deltas :: "(i32 \<times> i32) list \<Rightarrow> string" where
  "show_deltas [] = ''''"
| "show_deltas [(dx, dy)] = show_point dx dy"
| "show_deltas ((dx, dy) # ds) = show_point dx dy @ '', '' @ show_deltas ds"

definition edge_verdict :: "i32 \<Rightarrow> i32 \<Rightarrow> line list" where
  "edge_verdict moves leftward = map Printed
     ([''  '' @ show_i32 moves @ '' movement events, '' @ show_i32 leftward @ '' of them leftward''] @
      (if leftward = 0 then
        ['''', ''Nothing. The pointer is clamped at the edge, so measuring motion'',
         ''from its position yields zero and the cursor can never cross.'',
         ''Motion has to come from the device instead of from the pointer.'']
       else ['''', ''Movement is still reported past the edge.'']))"

text \<open>
  \<open>settling\<close> are the calls while the pointer is parked, whose events are thrown away, \<open>pushing\<close> the calls while
  something pushes on. The cursor is asked for three times.
\<close>

definition edge_probe ::
  "('s, 'e) platform \<Rightarrow> input_error + i32 \<times> i32 \<Rightarrow> input_error + i32 \<times> i32 \<Rightarrow> input_error + i32 \<times> i32
     \<Rightarrow> 'e list \<Rightarrow> 'e list \<Rightarrow> 's \<Rightarrow> 's \<times> verdict list \<times> line list \<times> exit_code" where
  "edge_probe P origin pinned parked settling pushing s =
     (case pl_start P s of
        (s, Inl e) \<Rightarrow> (s, [], [Complained (''could not install the hooks: '' @ input_error_text e)], ExitSuccess)
      | (s, Inr _) \<Rightarrow>
          (case origin of
             Inl e \<Rightarrow> (pl_close P s, [], [], ExitPanic)
           | Inr (x, y) \<Rightarrow>
               let ls = [Printed (''cursor starts at '' @ show_point x y)];
                   s = fst (pl_set_cursor P 0 y s);
                   (s, vs, _) = watch P settling s
               in (case pinned of
                     Inl e \<Rightarrow> (pl_close P s, vs, ls, ExitPanic)
                   | Inr (px', py') \<Rightarrow>
                       let ls = ls @ [Printed (''pointer parked at '' @ show_point px' py'),
                              Printed ''pointer parked at x = 0; pushing left 12 more times''];
                           (s, vs', es) = watch P pushing s;
                           ds = edge_deltas es
                       in (case parked of
                             Inl e \<Rightarrow> (pl_close P s, vs @ vs', ls, ExitPanic)
                           | Inr (ex, ey) \<Rightarrow>
                               let ls = ls @ [Printed (''pointer ended at '' @ show_point ex ey), Printed (''deltas: ['' @ show_deltas ds @ '']'')];
                                   s = fst (pl_set_cursor P x y s);
                                   s = pl_close P s
                               in (s, vs @ vs', ls @ [Printed '''', Printed ''while pushing past the edge, the capture path saw:''] @
                                    edge_verdict (of_nat (length ds)) (edge_leftward ds), ExitSuccess)))))"

text \<open>
  The program that lists the screens (\<^verbatim>\<open>examples/displays.rs\<close>). How \<^verbatim>\<open>{:.2}\<close> shows a floating-point number
  is an argument.
\<close>

definition padded_left :: "nat \<Rightarrow> string \<Rightarrow> string" where
  "padded_left n s = replicate (n - length s) CHR '' '' @ s"

definition screen_line :: "(f32 \<Rightarrow> string) \<Rightarrow> display_info \<Rightarrow> string" where
  "screen_line show_scale d =
     ''  '' @ padded 16 (di_name d) @ '' '' @ padded_left 5 (decimal (unat (di_width d))) @ ''x'' @ padded 5 (decimal (unat (di_height d))) @
     '' at '' @ padded_left 6 (show_i32 (di_x d)) @ '','' @ padded 6 (show_i32 (di_y d)) @ ''  scale '' @ show_scale (di_scale d) @
     (if di_primary d then ''  primary'' else '''')"

definition displays_program :: "(f32 \<Rightarrow> string) \<Rightarrow> input_error + display_info list \<Rightarrow> line list" where
  "displays_program show_scale answer =
     (case answer of
        Inr ds \<Rightarrow> Printed (decimal (length ds) @ '' display(s)'') # map (\<lambda>d. Printed (screen_line show_scale d)) ds
      | Inl e \<Rightarrow> [Complained (''could not read the displays: '' @ input_error_text e)])"

section \<open>Probing takes nothing away\<close>

locale observed_platform = input_capture "pl_step P" "pl_suppressing P" ask beat "pl_close P"
  for P :: "('s, 'e) platform" and ask :: "u64 \<Rightarrow> bool \<Rightarrow> 's \<Rightarrow> 's" and beat :: "u64 \<Rightarrow> 's \<Rightarrow> 's" +
  assumes started: "pl_start P s = (s', Inr u) \<Longrightarrow> \<not> pl_suppressing P s'"
    and placed: "pl_suppressing P (fst (pl_set_cursor P x y s)) = pl_suppressing P s"
begin

lemma watched: "\<not> pl_suppressing P s \<Longrightarrow> watch P es s = (s', vs, r) \<Longrightarrow> \<not> pl_suppressing P s' \<and> set vs \<subseteq> {Pass}"
  using observes [of s es] by (auto simp: watch_def split: prod.splits)

lemma capture_probe_observes:
  assumes "capture_probe P answer es s = (s', vs, ls, x)"
  shows "set vs \<subseteq> {Pass}"
proof -
  obtain s0 r where start: "pl_start P s = (s0, r)" by fastforce
  obtain s1 vs1 es1 where run: "watch P es s0 = (s1, vs1, es1)" by (metis prod_cases3)
  have "vs = [] \<or> (\<exists>u. r = Inr u) \<and> vs = vs1"
    using assms start run by (auto simp: capture_probe_def Let_def split: sum.splits prod.splits if_splits)
  then show ?thesis using watched [OF _ run] started start by auto
qed

lemma edge_probe_observes:
  assumes "edge_probe P origin pinned parked settling pushing s = (s', vs, ls, x)"
  shows "set vs \<subseteq> {Pass}"
proof -
  obtain s0 r where start: "pl_start P s = (s0, r)" by fastforce
  show ?thesis
  proof (cases "\<exists>u px0 py0. r = Inr u \<and> origin = Inr (px0, py0)")
    case False
    then show ?thesis using assms start by (auto simp: edge_probe_def split: sum.splits)
  next
    case True
    then obtain u px0 py0 where ok: "r = Inr u" "origin = Inr (px0, py0)" by blast
    obtain s1 vs1 es1 where one: "watch P settling (fst (pl_set_cursor P 0 py0 s0)) = (s1, vs1, es1)" by (metis prod_cases3)
    obtain s2 vs2 es2 where two: "watch P pushing s1 = (s2, vs2, es2)" by (metis prod_cases3)
    have "\<not> pl_suppressing P s1 \<and> set vs1 \<subseteq> {Pass}" using watched [OF _ one] placed started start ok by blast
    moreover from this have "set vs2 \<subseteq> {Pass}" using watched [OF _ two] by blast
    moreover have "set vs \<subseteq> set vs1 \<union> set vs2"
      using assms start ok one two by (auto simp: edge_probe_def Let_def split: sum.splits prod.splits)
    ultimately show ?thesis by blast
  qed
qed

end

interpretation windows_probe: observed_platform "windows_platform now hooks moves" set_suppressing heartbeat
proof
  show "\<not> pl_suppressing (windows_platform now hooks moves) s'"
    if "pl_start (windows_platform now hooks moves) s = (s', Inr u)" for s s' u
    using that by (auto simp: windows_platform_def capture_start_def Let_def split: if_splits hook_start.splits)
qed (use windows.passes windows.asked windows.beaten windows.closed in
    \<open>auto simp: windows_platform_def windows_set_cursor_position_def\<close>)

interpretation mac_probe: observed_platform "mac_platform now tap os" mac_set_suppressing mac_heartbeat
proof
  show "\<not> pl_suppressing (mac_platform now tap os) s'" if "pl_start (mac_platform now tap os) s = (s', Inr u)" for s s' u
    using that by (auto simp: mac_platform_def mac_capture_start_def tap_thread_def Let_def split: if_splits tap_start.splits)
qed (use macos.passes macos.asked macos.beaten macos.closed in
    \<open>auto simp: mac_platform_def set_cursor_position_def remember_def Let_def\<close>)

interpretation other_probe: observed_platform other_platform other_set_suppressing other_heartbeat
  by unfold_locales (auto simp: other_platform_def other_capture_start_def other_is_suppressing_def other_step_def)

text \<open>
  The claim of the first program, of both: whatever the system calls while they run, on Windows, on macOS and on the
  others, every event also acts on this machine.
\<close>

theorem probing_takes_nothing:
  "\<forall>vs \<in> {fst (snd (capture_probe (windows_platform now hooks moves) answer es s)),
     fst (snd (edge_probe (windows_platform now hooks moves) origin pinned parked es es' s)),
     fst (snd (capture_probe (mac_platform now tap os) answer ks m)),
     fst (snd (edge_probe (mac_platform now tap os) origin pinned parked ks ks' m)),
     fst (snd (capture_probe other_platform answer us u))}. set vs \<subseteq> {Pass}"
proof -
  have "set (fst (snd (capture_probe (windows_platform now hooks moves) answer es s))) \<subseteq> {Pass}"
    using windows_probe.capture_probe_observes by (metis prod.collapse)
  moreover have "set (fst (snd (edge_probe (windows_platform now hooks moves) origin pinned parked es es' s))) \<subseteq> {Pass}"
    using windows_probe.edge_probe_observes by (metis prod.collapse)
  moreover have "set (fst (snd (capture_probe (mac_platform now tap os) answer ks m))) \<subseteq> {Pass}"
    using mac_probe.capture_probe_observes by (metis prod.collapse)
  moreover have "set (fst (snd (edge_probe (mac_platform now tap os) origin pinned parked ks ks' m))) \<subseteq> {Pass}"
    using mac_probe.edge_probe_observes by (metis prod.collapse)
  moreover have "set (fst (snd (capture_probe other_platform answer us u))) \<subseteq> {Pass}"
    using other_probe.capture_probe_observes by (metis prod.collapse)
  ultimately show ?thesis by blast
qed

section \<open>Pushing past the edge\<close>

text \<open>What a push by the device comes to on Windows: a raw report, and a call of the hook with a position.\<close>

fun left_push :: "os_event \<Rightarrow> bool" where
  "left_push (RawReport r) = (rm_type r = 0 \<and> ucast (rm_extra r) \<noteq> INJECTED_MARKER \<and> rm_flags r AND 1 = 0 \<and> sint (rm_dx r) < 0)"
| "left_push _ = False"

lemma edge_deltas_append: "edge_deltas (xs @ ys) = edge_deltas xs @ edge_deltas ys"
  by (induction xs rule: edge_deltas.induct) simp_all

definition leftward_in :: "input_event list \<Rightarrow> nat" where
  "leftward_in es = length (filter (\<lambda>(dx, dy). sint dx < 0) (edge_deltas es))"

lemma leftward_append: "leftward_in (xs @ ys) = leftward_in xs + leftward_in ys"
  by (simp add: leftward_in_def edge_deltas_append)

lemma suppressing_now_reports [simp]:
  "reported (fst (suppressing_now now s)) = reported s" "sink_open (fst (suppressing_now now s)) = sink_open s"
  by (simp_all add: suppressing_now_def)

lemma hook_is_no_motion: "mouse_event w d \<noteq> Some (MouseMove dx dy)"
  by (simp add: mouse_event_def)

lemma os_step_reports:
  assumes "sink_open s"
  shows "sink_open (fst (os_step e s)) \<and>
    (\<exists>es. reported (fst (os_step e s)) = reported s @ es \<and> leftward_in es = (if left_push e then 1 else 0))"
proof (cases e)
  case (MouseAt now m)
  have "leftward_in [x] = 0" if "mouse_event (mm_wparam m) (mm_data m) = Some x" for x
    using that hook_is_no_motion by (cases x) (auto simp: leftward_in_def)
  then show ?thesis
    using assms MouseAt by (auto simp: mouse_hook_def report_def Let_def split_def leftward_in_def split: option.split)
next
  case (KeyAt now held m)
  then show ?thesis using assms by (auto simp: keyboard_hook_def report_def Let_def split_def leftward_in_def)
next
  case (RawReport r)
  then show ?thesis using assms by (auto simp: raw_input_def report_def leftward_in_def)
next
  case (BeatAt now)
  then show ?thesis using assms by (simp add: heartbeat_def leftward_in_def)
qed

lemma all_calls_report:
  "sink_open s \<Longrightarrow> sink_open (fst (all_calls os_step es s)) \<and>
     (\<exists>rs. reported (fst (all_calls os_step es s)) = reported s @ rs \<and> leftward_in rs = length (filter left_push es))"
proof (induction es arbitrary: s)
  case (Cons e es)
  from os_step_reports [OF Cons.prems, of e] obtain r where
    one: "sink_open (fst (os_step e s))" "reported (fst (os_step e s)) = reported s @ r" "leftward_in r = (if left_push e then 1 else 0)"
    by blast
  from Cons.IH [OF one(1)] show ?case using one(2,3) by (auto simp: split_def Let_def leftward_append)
qed (simp add: leftward_in_def)

lemma windows_watch:
  assumes "sink_open s" and "watch (windows_platform now hooks moves) es s = (s', vs, rs)"
  shows "sink_open s' \<and> leftward_in rs = length (filter left_push es)"
  using all_calls_report [OF assms(1), of es] assms(2) by (auto simp: watch_def windows_platform_def split: prod.splits)

text \<open>
  The answer of the second program is right: it says that motion is reported past the edge exactly if the device
  pushed to the left while it looked, wherever the pointer was; calls of the hook, which carry positions, never count.
\<close>

theorem edge_probe_sees_pushes:
  assumes "edge_probe (windows_platform now (HooksReady t) moves) (Inr o') (Inr pinned) (Inr parked) settling pushing s = (s', vs, ls, x)"
    and "\<not> running s" and "length pushing < 2 ^ 32"
  shows "last ls = Printed (if \<exists>e \<in> set pushing. left_push e then ''Movement is still reported past the edge.''
    else ''Motion has to come from the device instead of from the pointer.'')"
proof -
  let ?P = "windows_platform now (HooksReady t) moves"
  obtain px0 py0 where o': "o' = (px0, py0)" by fastforce
  obtain s0 where start: "pl_start ?P s = (s0, Inr ())" and sink: "sink_open s0"
    using assms(2) by (simp add: windows_platform_def capture_start_def Let_def)
  let ?s0 = "fst (pl_set_cursor ?P 0 py0 s0)"
  have sink0: "sink_open ?s0" using sink by (simp add: windows_platform_def windows_set_cursor_position_def)
  obtain s1 vs1 es1 where one: "watch ?P settling ?s0 = (s1, vs1, es1)" by (metis prod_cases3)
  obtain s2 vs2 es2 where two: "watch ?P pushing s1 = (s2, vs2, es2)" by (metis prod_cases3)
  have pushes: "leftward_in es2 = length (filter left_push pushing)"
    using windows_watch [OF _ two] windows_watch [OF sink0 one] by blast
  have "length (filter left_push pushing) < 2 ^ 32" using assms(3) length_filter_le order_le_less_trans by blast
  then have "unat (edge_leftward (edge_deltas es2)) = length (filter left_push pushing)"
    using pushes by (simp add: edge_leftward_def leftward_in_def unat_of_nat take_bit_nat_eq_self)
  then have "edge_leftward (edge_deltas es2) = 0 \<longleftrightarrow> filter left_push pushing = []"
    by (metis length_0_conv unat_eq_zero)
  moreover have "filter left_push pushing = [] \<longleftrightarrow> \<not> (\<exists>e \<in> set pushing. left_push e)" by (simp add: filter_empty_conv)
  moreover have "last ls = last (edge_verdict (of_nat (length (edge_deltas es2))) (edge_leftward (edge_deltas es2)))"
    using assms(1) start one two by (auto simp: edge_probe_def o' Let_def edge_verdict_def split: prod.splits)
  ultimately show ?thesis by (simp add: edge_verdict_def)
qed

text \<open>
  The screens are listed in the same order however the system reports them, on every platform, and on one that
  cannot list them the reason is given.
\<close>

theorem screens_listed_in_order:
  assumes "reordered a b" and "sound_screens scale_of a"
  shows "displays_program show_scale (enumerate_displays scale_of a) = displays_program show_scale (enumerate_displays scale_of b) \<and>
    displays_program show_scale (enumerate_displays scale_of OtherScreens) =
      [Complained ''could not read the displays: this platform is not supported yet: display enumeration'']"
  using enumeration_order_irrelevant [OF assms] by (simp add: displays_program_def other_displays_def input_error_text_def)

end
