(* ===== verification/Spec2Isabelle.thy ===== *)
theory Spec2Isabelle
  imports System Layout Capture Hook_Thread Mac_Capture Displays Sharing Handover Session Link Discovery Listener Agent Joining Refresher Node Desk Desktop
    Address Startup Autostart Demo Netcheck Probe
begin

text \<open>
  InputShare: one keyboard and one mouse used on several computers. Every computer runs the
  same agent. The agents find each other on the local network, prove who they are, keep one
  shared configuration (the \<^emph>\<open>workspace\<close>: the machines, where their screens stand, settings) by
  merging replicas without a server, and hand the pointer and the keyboard from one to another
  when the pointer leaves a screen.

  \<^bold>\<open>The parts and the theories that model them.\<close> All paths are under \<^verbatim>\<open>src/crates\<close>; a definition
  has the name of the function it models, with a prefix where the name is taken.

  \<^item> \<open>Prelude\<close>, \<open>Ordered_Map\<close>: machine integers at their width (an \<^verbatim>\<open>i32\<close> is a 32-bit word read
    with \<open>sint\<close>, and \<^verbatim>\<open>saturating_sub\<close>, \<^verbatim>\<open>clamp\<close> and the rest are written out), and \<^verbatim>\<open>BTreeMap\<close>.
    Locales \<open>ordered_map\<close> and \<open>keyed_merge\<close>.
  \<^item> \<open>Stamp\<close> (\<^verbatim>\<open>is-core/src/stamp.rs\<close>): Lamport stamps and last-writer-wins registers. Locale
    \<open>lww_choice\<close>.
  \<^item> \<open>Geometry\<close>, \<open>Workspace\<close> (\<^verbatim>\<open>is-core/src/model.rs\<close>, \<^verbatim>\<open>error.rs\<close>): the document and every
    operation on it. A mutating method is a function to the new document and its result.
  \<^item> \<open>Convergence\<close>, \<open>System\<close>: no code of their own. The document as a join-semilattice, and the
    machines with a lossy, reordering, duplicating network as a step relation whose steps are
    operations of \<open>Workspace\<close>.
  \<^item> \<open>Layout\<close> (\<^verbatim>\<open>is-core/src/layout.rs\<close>): where a pointer that leaves a machine ends up.
  \<^item> \<open>Mac_Keys\<close> (\<^verbatim>\<open>is-core/src/input.rs\<close>, \<^verbatim>\<open>is-input/src/platform/mac_keys.rs\<close>): events, and the key
    table with both translations.
  \<^item> \<open>Wire\<close> (\<^verbatim>\<open>is-net/src/wire.rs\<close>, \<^verbatim>\<open>lib.rs\<close>): messages and frames.
  \<^item> \<open>Identity\<close> (\<^verbatim>\<open>is-core/src/identity.rs\<close>), \<open>Handshake\<close> (\<^verbatim>\<open>is-net/src/crypto.rs\<close>): keys,
    signatures, the key exchange and the cipher with its nonces.
  \<^item> \<open>Store\<close> (\<^verbatim>\<open>is-core/src/store.rs\<close>, \<^verbatim>\<open>paths.rs\<close>): the files, on a disk that can fail at any call.
  \<^item> \<open>Peers\<close> (\<^verbatim>\<open>is-net/src/service.rs\<close>): the network actor, one function per message.
  \<^item> \<open>Discovery\<close> (\<^verbatim>\<open>is-net/src/discovery.rs\<close>): which cards there are, what is announced from
    them, the addresses typed in by hand, and what the listener makes of a datagram. \<open>Listener\<close>: the
    sockets, and the task that listens on them and binds again when the cards change.
  \<^item> \<open>Session\<close> (\<^verbatim>\<open>is-net/src/session.rs\<close>): one connection from handshake to teardown, against the
    trait \<^verbatim>\<open>Workspace\<close>. Locale \<open>workspace_host\<close>: the laws a session needs of its host. \<open>Link\<close>:
    its writer task, and the two ends of a connection together.
  \<^item> \<open>Capture\<close> (\<^verbatim>\<open>is-input/src/platform/windows.rs\<close>): the hooks, the watchdog, replay.
    \<open>Hook_Thread\<close> (\<^verbatim>\<open>hook_thread\<close>, \<^verbatim>\<open>start_raw_input\<close>): the thread that holds the hooks.
  \<^item> \<open>Mac_Capture\<close> (\<^verbatim>\<open>is-input/src/platform/macos.rs\<close>): the event tap, the same watchdog, the
    attachment of the mouse to the cursor, and replay with its modifiers and buttons.
  \<^item> \<open>Displays\<close> (\<^verbatim>\<open>enumerate_displays\<close> of the three platforms): which screens there are.
  \<^item> \<open>Sharing\<close> (\<^verbatim>\<open>is-agent/src/sharing.rs\<close>): the routing loop. \<open>Handover\<close>, no code of its own: the
    routing loops of all machines, with the messages between them on the way.
  \<^item> \<open>Agent\<close> (\<^verbatim>\<open>is-agent/src/lib.rs\<close>, \<^verbatim>\<open>is-input/src/displays.rs\<close>): the shared state of the process,
    everything the user can do to it, and its reaction to the network. It interprets
    \<open>workspace_host\<close>, so what is proved of sessions holds of sessions with the agent. \<open>Joining\<close>, no code of its
    own: two agents, from the clicks that pair them to the document they share.
  \<^item> \<open>Node\<close> (\<^verbatim>\<open>Service\<close> of \<^verbatim>\<open>is-net/src/service.rs\<close>, \<^verbatim>\<open>Agent::go_online\<close>): a machine on the network, where
    mailbox, actor, event channel and agent are tasks that take turns in any order. \<open>Refresher\<close>: its task
    that republishes this machine's record.
  \<^item> \<open>Desk\<close> (\<^verbatim>\<open>start\<close> and \<^verbatim>\<open>Sharing::stop\<close> of \<^verbatim>\<open>is-agent/src/sharing.rs\<close>, \<^verbatim>\<open>Agent::set_sharing\<close>): switch, hooks, routing
    loop and agent together; the effects of \<open>Sharing\<close> are performed on \<open>Hook_Thread\<close> and \<open>Agent\<close>.
  \<^item> \<open>Desktop\<close> (\<^verbatim>\<open>is-ui/src/main.rs\<close>): what the window shows of the agent, and its commands. \<open>Address\<close>: the
    addresses typed into it. \<open>Startup\<close> (its \<^verbatim>\<open>main\<close>): loading, publishing, going online and resuming
    sharing, on \<open>Agent\<close>, \<open>Node\<close> and \<open>Desk\<close> together.
  \<^item> \<open>Autostart\<close> (\<^verbatim>\<open>is-agent/src/autostart.rs\<close>): the login entry on the three kinds of platform. Locale
    \<open>login_entry\<close>: what the switch in the window needs of any of them.
  \<^item> \<open>Command_Line\<close>, \<open>Demo\<close> (\<^verbatim>\<open>is-cli/src/main.rs\<close>): the commands that share the agent's files, and
    what the demonstration prints.
  \<^item> \<open>Platform\<close> (\<^verbatim>\<open>is-input/src/lib.rs\<close>, \<^verbatim>\<open>platform/other.rs\<close>): what the program asks of a platform. Locale
    \<open>input_capture\<close>, with an instance for each. \<open>Probe\<close> (\<^verbatim>\<open>is-input/examples\<close>), \<open>Netcheck\<close> (\<^verbatim>\<open>is-net/examples\<close>): the
    programs that try the capture and the discovery out. Locale \<open>observed_platform\<close>.

  \<^bold>\<open>How they meet.\<close> The announcer of one machine (\<open>announce_round\<close>) sends what \<open>describe\<close> says of
  it; the listener of another turns it into a sighting (\<open>heard\<close>). A sighting or a connection is a message to the actor (\<open>actor_step\<close>), which
  decides to dial; a dial is \<open>spawn_dial\<close>, which runs \<open>session_run\<close>; the session authorises its
  peer with \<open>core_authorize\<close>, merges documents with \<open>core_merge\<close>, and reports outcomes that are
  again messages to the actor; the actor's events are the arguments of \<open>on_net_event\<close>. Input goes
  from the hooks (\<open>mouse_hook\<close>, \<open>keyboard_hook\<close>, \<open>tap_callback\<close>) to the router (\<open>router_step\<close>), which asks
  \<open>resolve_cursor\<close> whether the pointer crosses and records what it sends, announces and replays.

  \<^bold>\<open>What the lemmas show.\<close> Replicas: every operation keeps a document well-formed, merge is
  idempotent, commutative and associative on documents of one history, and every state the
  system can reach has such a history, so replicas that exchange what they have agree. Routing:
  the pointer only goes to a machine that is online and on a point of its bounding box, stays on
  its own otherwise, and comes back the way it went. Safety of the keyboard: local input is
  swallowed exactly while another machine owns the pointer, and never longer than the watchdog
  allows; a hook is only in the system while its capture runs, and what the window shows as the
  owner is where the input goes; of all machines exactly one acts on its input as long as one handover
  is over before the next begins. Trust: no operation of the workspace is run for a peer before its key is proved and
  authorised, and two clicks make one configuration of two. Persistence: a save is atomic against any fault, what a run leaves on disk is what
  the next start loads. Network: the actor's table is sound after every message, reconnection is
  bounded, a broadcast reaches everyone who keeps up, every card announces and is listened on, what is queued for a
  peer is handled there in order, what the agent shows as connected is what the actor has
  connected, a port that is taken is replaced by one the others learn, and a machine that
  republishes its record after every change comes to rest. The window: a machine
  lands where it is dropped, the application that is started again resumes sharing as it was left, and the login setting makes the system start this
  executable. The command line
  and the agent work on one configuration, and the programs that probe take no input away and report what came. Some theorems show what goes wrong; each
  says so in its text.

  \<^bold>\<open>Conventions.\<close> Integers wrap as in the release build; a debug build panics at the same
  places. \<^verbatim>\<open>HashMap\<close> iteration is in key order in the model, and no property depends on it. A
  function that holds the mutex, or a handler of an actor, is one atomic step; where a session
  waits, \<open>io_in\<close> carries what the other tasks did to the state in the meantime. Errors are
  values (\<open>core_error\<close>, \<open>net_error\<close>, \<open>agent_error\<close> in a sum); the panics that input can cause are
  outcomes too. Time, random numbers, the operating system's answers and the faults of the disk
  are arguments. No definition uses fuel: loops are recursions on the data still to be read or
  handled (\<open>read_loop\<close> on the frames to come, \<open>merge_slots\<close> on the slots), and the measure is the
  length of that data. The one loop that could run forever, \<open>refresh_all\<close>, is a partial function, and
  that it returns is a theorem.

  \<^bold>\<open>Parameters.\<close> The crates for Ed25519, X25519, HKDF, ChaCha20-Poly1305 and hexadecimal are the
  record \<open>crypto\<close> with the documented behaviour \<open>crypto_ok\<close>; \<^verbatim>\<open>serde_json\<close> is a pair of functions
  per stored or sent type (\<open>codec\<close>), with \<open>reads_back\<close> where a round trip is needed; \<^verbatim>\<open>winreg\<close> is
  the record \<open>registry\<close> with \<open>registry_ok\<close>; the text form of an IPv6 address is \<open>text6\<close>.

  \<^bold>\<open>Not modelled.\<close> What is only a call to the system or a framework: the run loop of macOS, the
  options of sockets whose answer is thrown away, file permissions, the window and its web page, the log. What \<^verbatim>\<open>tokio\<close> does
  between two tasks, beyond the order of their turns: \<open>Node\<close> and \<open>Refresher\<close> give the channels their
  capacities, elsewhere a task is a sequence of messages or inputs. The example
  \<^verbatim>\<open>is-agent/examples/pair_two.rs\<close>, which clicks through what \<open>Agent\<close> and \<open>Node\<close> have.
\<close>

end
